(* ===== verification/Go_Strings.thy ===== *)
theory Go_Strings
  imports Prelude
begin

text \<open>
  Go strings and the functions of package \<open>strings\<close> the program calls. A Go string is a
  sequence of bytes, and an Isabelle \<open>char\<close> is a byte, so \<open>string\<close> is the Go type and
  \<open>length\<close> is \<open>len\<close>. Functions that work on runes go through the UTF-8 decoder below,
  which follows \<open>unicode/utf8\<close>: an invalid byte is the rune U+FFFD of width one. The case
  tables of package \<open>unicode\<close> above ASCII are data, taken as the record
  \<open>go_tables\<close>; no theorem depends on their contents.
\<close>

subsection \<open>Bytes and runes\<close>

type_synonym rune = nat

record go_tables =
  rune_lower :: "rune \<Rightarrow> rune"             \<comment> \<open>\<open>unicode.ToLower\<close> above U+007F\<close>
  rune_upper :: "rune \<Rightarrow> rune"             \<comment> \<open>\<open>unicode.ToUpper\<close> above U+007F\<close>
  rune_fold :: "rune \<Rightarrow> rune \<Rightarrow> bool"     \<comment> \<open>\<open>unicode.SimpleFold\<close> orbits, larger rune above U+007F\<close>

definition byte :: "char \<Rightarrow> nat" where
  "byte c = of_char c"

definition chr :: "nat \<Rightarrow> char" where
  "chr n = char_of n"

definition rune_error :: rune where
  "rune_error = 65533"

definition ascii :: "string \<Rightarrow> bool" where
  "ascii s = list_all (\<lambda>c. byte c < 128) s"

definition cont_byte :: "nat \<Rightarrow> bool" where
  "cont_byte b = (128 \<le> b \<and> b \<le> 191)"

text \<open>\<open>utf8.DecodeRuneInString\<close>: the rune and its width.\<close>

definition decode_rune :: "string \<Rightarrow> rune \<times> nat" where
  "decode_rune s = (case map byte s of
     [] \<Rightarrow> (rune_error, 0)
   | a # r \<Rightarrow>
      (if a < 128 then (a, 1)
       else if 194 \<le> a \<and> a \<le> 223 then
         (case r of b # _ \<Rightarrow>
            if cont_byte b then ((a - 192) * 64 + (b - 128), 2) else (rune_error, 1)
          | _ \<Rightarrow> (rune_error, 1))
       else if 224 \<le> a \<and> a \<le> 239 then
         (case r of b # c # _ \<Rightarrow>
            if cont_byte b \<and> (a = 224 \<longrightarrow> 160 \<le> b) \<and> (a = 237 \<longrightarrow> b \<le> 159) \<and> cont_byte c
            then ((a - 224) * 4096 + (b - 128) * 64 + (c - 128), 3) else (rune_error, 1)
          | _ \<Rightarrow> (rune_error, 1))
       else if 240 \<le> a \<and> a \<le> 244 then
         (case r of b # c # d # _ \<Rightarrow>
            if cont_byte b \<and> (a = 240 \<longrightarrow> 144 \<le> b) \<and> (a = 244 \<longrightarrow> b \<le> 143) \<and>
               cont_byte c \<and> cont_byte d
            then ((a - 240) * 262144 + (b - 128) * 4096 + (c - 128) * 64 + (d - 128), 4)
            else (rune_error, 1)
          | _ \<Rightarrow> (rune_error, 1))
       else (rune_error, 1)))"

lemma decode_rune_width_pos: "0 < snd (decode_rune (c # s))"
  by (auto simp: decode_rune_def split: list.splits)

lemma decode_rune_ascii: "byte c < 128 \<Longrightarrow> decode_rune (c # s) = (byte c, 1)"
  by (simp add: decode_rune_def)

text \<open>The runes of a string with the bytes each was decoded from (a \<open>range\<close> loop).\<close>

function runes :: "string \<Rightarrow> (rune \<times> string) list" where
  "runes [] = []"
| "runes (c # s) =
     (let w = snd (decode_rune (c # s))
      in (fst (decode_rune (c # s)), take w (c # s)) # runes (drop w (c # s)))"
  by pat_completeness auto
termination
  using decode_rune_width_pos by (relation "measure length") (auto simp: Let_def)

definition encode_rune :: "rune \<Rightarrow> string" where
  "encode_rune r0 =
     (let r = (if 1114111 < r0 \<or> (55296 \<le> r0 \<and> r0 \<le> 57343) then rune_error else r0)
      in if r < 128 then [chr r]
         else if r < 2048 then [chr (192 + r div 64), chr (128 + r mod 64)]
         else if r < 65536 then
           [chr (224 + r div 4096), chr (128 + r div 64 mod 64), chr (128 + r mod 64)]
         else
           [chr (240 + r div 262144), chr (128 + r div 4096 mod 64),
            chr (128 + r div 64 mod 64), chr (128 + r mod 64)])"

lemma runes_concat: "concat (map snd (runes s)) = s"
  by (induction s rule: runes.induct) (auto simp: Let_def simp del: take.simps drop.simps)

lemma runes_ascii: "ascii s \<Longrightarrow> runes s = map (\<lambda>c. (byte c, [c])) s"
  by (induction s) (auto simp: ascii_def decode_rune_ascii)

subsection \<open>Trimming\<close>

text \<open>\<open>unicode.IsSpace\<close> and \<open>unicode.IsControl\<close> (class Cc).\<close>

definition is_space :: "rune \<Rightarrow> bool" where
  "is_space r = (r \<in> {9, 10, 11, 12, 13, 32, 133, 160, 5760, 8232, 8233, 8239, 8287, 12288} \<or>
                 (8192 \<le> r \<and> r \<le> 8202))"

definition is_control :: "rune \<Rightarrow> bool" where
  "is_control r = (r < 32 \<or> (127 \<le> r \<and> r < 160))"

text \<open>
  \<open>strings.TrimSpace\<close>. UTF-8 is self-synchronising: a valid sequence that ends the string is
  also found by the forward decoder, so trimming the decoded list at both ends is what the
  library does with \<open>DecodeLastRuneInString\<close>.
\<close>

definition trim_space :: "string \<Rightarrow> string" where
  "trim_space s =
     concat (map snd (rev (dropWhile (is_space \<circ> fst) (rev (dropWhile (is_space \<circ> fst) (runes s))))))"

definition has_control :: "string \<Rightarrow> bool" where
  "has_control s = list_ex (\<lambda>(r, _). is_control r) (runes s)"

text \<open>\<open>strings.Map\<close>; \<open>None\<close> drops the rune (a negative result of the mapping).\<close>

definition go_map :: "(rune \<Rightarrow> rune option) \<Rightarrow> string \<Rightarrow> string" where
  "go_map f s = concat (map (\<lambda>(r, _). case f r of None \<Rightarrow> [] | Some r' \<Rightarrow> encode_rune r') (runes s))"

text \<open>\<open>strings.ToValidUTF8(s, "")\<close>: an invalid byte is U+FFFD of width one.\<close>

definition to_valid_utf8 :: "string \<Rightarrow> string" where
  "to_valid_utf8 s =
     concat (map snd (filter (\<lambda>(r, bs). \<not> (r = rune_error \<and> length bs = 1)) (runes s)))"

lemma concat_map_snd_suffix_length:
  "length (concat (map snd (dropWhile P xs))) \<le> length (concat (map snd xs))"
  by (induction xs) auto

lemma length_trim_space: "length (trim_space s) \<le> length s"
proof -
  let ?d = "dropWhile (is_space \<circ> fst) (runes s)"
  have rev_len: "length (concat (map snd (rev ys))) = length (concat (map snd ys))"
    for ys :: "(rune \<times> string) list"
    by (simp add: length_concat rev_map[symmetric] sum_list_rev)
  have "length (trim_space s)
      = length (concat (map snd (dropWhile (is_space \<circ> fst) (rev ?d))))"
    unfolding trim_space_def by (simp only: rev_len)
  also have "\<dots> \<le> length (concat (map snd (rev ?d)))"
    by (rule concat_map_snd_suffix_length)
  also have "\<dots> = length (concat (map snd ?d))"
    by (rule rev_len)
  also have "\<dots> \<le> length (concat (map snd (runes s)))"
    by (rule concat_map_snd_suffix_length)
  finally show ?thesis by (simp add: runes_concat)
qed

lemma decode_rune_prefix:
  assumes "snd (decode_rune (c # s @ t)) \<le> length (c # s)"
  shows "decode_rune (c # s) = decode_rune (c # s @ t)"
  using assms unfolding decode_rune_def
  by (cases s rule: list.exhaust; cases "tl s"; cases "tl (tl s)")
    (auto split: list.splits if_split_asm)

lemma runes_drop: "runes (concat (map snd (drop k (runes s)))) = drop k (runes s)"
proof (induction s arbitrary: k rule: runes.induct)
  case (2 c s)
  show ?case
  proof (cases k)
    case 0
    then show ?thesis by (simp only: drop_0 runes_concat)
  next
    case (Suc n)
    with 2 [OF refl, of n] show ?thesis by (simp add: Let_def del: take.simps drop.simps)
  qed
qed simp

lemma decode_rune_width: "snd (decode_rune (c # s)) \<le> length (c # s)"
  by (auto simp: decode_rune_def split: list.splits)

lemma runes_take: "runes (concat (map snd (take k (runes s)))) = take k (runes s)"
proof (induction s arbitrary: k rule: runes.induct)
  case (2 c s)
  let ?w = "snd (decode_rune (c # s))"
  show ?case
  proof (cases k)
    case (Suc n)
    let ?rest = "concat (map snd (take n (runes (drop ?w (c # s)))))"
    have "drop ?w (c # s) = ?rest @ concat (map snd (drop n (runes (drop ?w (c # s)))))"
      by (metis append_take_drop_id concat_append map_append runes_concat)
    then obtain t where t: "c # s = take ?w (c # s) @ ?rest @ t"
      by (metis append_take_drop_id)
    have w: "0 < ?w" "length (take ?w (c # s)) = ?w"
      using decode_rune_width_pos [of c s] decode_rune_width [of c s] by simp_all
    then obtain u where u: "take ?w (c # s) = c # u" by (cases ?w) auto
    with w have lu: "length u = ?w - 1" by simp
    have d: "decode_rune (c # u @ ?rest) = decode_rune (c # s)"
    proof -
      have e: "c # s = c # (u @ ?rest) @ t" using t u by simp
      then have "snd (decode_rune (c # (u @ ?rest) @ t)) \<le> length (c # u @ ?rest)"
        using lu w(1) by simp
      from decode_rune_prefix [OF this] e show ?thesis by simp
    qed
    have "length (c # u) = ?w" using lu w(1) by simp
    then have "take ?w ((c # u) @ ?rest) = c # u" "drop ?w ((c # u) @ ?rest) = ?rest"
      by (metis append_eq_conv_conj)+
    moreover have "runes (c # (u @ ?rest)) = (fst (decode_rune (c # s)), take ?w (c # (u @ ?rest))) #
        runes (drop ?w (c # (u @ ?rest)))"
      by (simp only: runes.simps d Let_def)
    ultimately have "runes (c # u @ ?rest) = (fst (decode_rune (c # s)), c # u) # runes ?rest"
      by (metis append_Cons)
    with 2 [OF refl, of n] u Suc show ?thesis by (simp add: Let_def del: take.simps drop.simps)
  qed simp
qed simp

lemma dropWhile_drop: "\<exists>k. dropWhile P xs = drop k xs"
  by (metis dropWhile_eq_drop)

text \<open>Trimming is idempotent, whatever the bytes.\<close>

lemma trim_space_idem: "trim_space (trim_space s) = trim_space s"
proof -
  let ?sp = "is_space \<circ> fst"
  let ?a = "dropWhile ?sp (runes s)"
  let ?ys = "rev (dropWhile ?sp (rev ?a))"
  have t: "trim_space s = concat (map snd ?ys)" by (simp add: trim_space_def)
  obtain k where "?a = drop k (runes s)" using dropWhile_drop by blast
  then have ra: "runes (concat (map snd ?a)) = ?a" using runes_drop by metis
  obtain n where "?ys = take n ?a"
    using dropWhile_drop [of ?sp "rev ?a"] by (metis rev_drop rev_rev_ident length_rev drop_rev)
  then have r: "runes (trim_space s) = ?ys" using runes_take ra t by metis
  have last: "dropWhile ?sp (rev ?ys) = rev ?ys" by simp
  have first: "dropWhile ?sp ?ys = ?ys"
  proof (cases ?ys)
    case (Cons y ys)
    with \<open>?ys = take n ?a\<close> have ta: "take n ?a = y # ys" by simp
    then obtain as where "?a = y # as" by (cases ?a; cases n) auto
    then have "hd ?a = y" "?a \<noteq> []" by simp_all
    with hd_dropWhile [of ?sp "runes s"] have "\<not> ?sp y" by metis
    with Cons show ?thesis by simp
  next
    case Nil
    show ?thesis unfolding Nil by simp
  qed
  show ?thesis
    unfolding trim_space_def [of "trim_space s"] r first last using t by simp
qed

subsection \<open>Case\<close>

definition rune_to_lower :: "'a go_tables_scheme \<Rightarrow> rune \<Rightarrow> rune" where
  "rune_to_lower T r =
     (if r < 128 then (if 65 \<le> r \<and> r \<le> 90 then r + 32 else r) else rune_lower T r)"

definition byte_lower :: "char \<Rightarrow> char" where
  "byte_lower c = (if 65 \<le> byte c \<and> byte c \<le> 90 then chr (byte c + 32) else c)"

text \<open>\<open>strings.ToLower\<close>: a byte loop on ASCII strings, \<open>strings.Map(unicode.ToLower)\<close> otherwise.\<close>

definition to_lower :: "'a go_tables_scheme \<Rightarrow> string \<Rightarrow> string" where
  "to_lower T s =
     (if ascii s then map byte_lower s else go_map (\<lambda>r. Some (rune_to_lower T r)) s)"

text \<open>\<open>strings.EqualFold\<close>, rune by rune.\<close>

definition rune_equal_fold :: "'a go_tables_scheme \<Rightarrow> rune \<Rightarrow> rune \<Rightarrow> bool" where
  "rune_equal_fold T a b =
     (let sr = min a b; tr = max a b
      in sr = tr \<or>
         (if tr < 128 then 65 \<le> sr \<and> sr \<le> 90 \<and> tr = sr + 32 else rune_fold T sr tr))"

definition equal_fold :: "'a go_tables_scheme \<Rightarrow> string \<Rightarrow> string \<Rightarrow> bool" where
  "equal_fold T s t =
     list_all2 (rune_equal_fold T) (map fst (runes s)) (map fst (runes t))"

lemma equal_fold_refl [simp]: "equal_fold T s s"
  by (simp add: equal_fold_def list_all2_same rune_equal_fold_def)

lemma byte_lower_id: "\<not> (65 \<le> byte c \<and> byte c \<le> 90) \<Longrightarrow> byte_lower c = c"
  by (auto simp: byte_lower_def)

lemma to_lower_ascii_id:
  "ascii s \<Longrightarrow> (\<And>c. c \<in> set s \<Longrightarrow> \<not> (65 \<le> byte c \<and> byte c \<le> 90)) \<Longrightarrow> to_lower T s = s"
  by (auto simp: to_lower_def byte_lower_id intro!: map_idI)

subsection \<open>Searching and splitting\<close>

definition has_prefix :: "string \<Rightarrow> string \<Rightarrow> bool" where
  "has_prefix s p = (take (length p) s = p)"

definition has_suffix :: "string \<Rightarrow> string \<Rightarrow> bool" where
  "has_suffix s p = (length p \<le> length s \<and> drop (length s - length p) s = p)"

definition trim_prefix :: "string \<Rightarrow> string \<Rightarrow> string" where
  "trim_prefix s p = (if has_prefix s p then drop (length p) s else s)"

definition trim_suffix :: "string \<Rightarrow> string \<Rightarrow> string" where
  "trim_suffix s p = (if has_suffix s p then take (length s - length p) s else s)"

text \<open>\<open>strings.LastIndexByte\<close>; \<open>None\<close> is \<open>-1\<close>.\<close>

fun last_index :: "char \<Rightarrow> string \<Rightarrow> nat option" where
  "last_index c [] = None"
| "last_index c (x # s) =
     (case last_index c s of Some i \<Rightarrow> Some (Suc i) | None \<Rightarrow> if x = c then Some 0 else None)"

fun index_byte :: "char \<Rightarrow> string \<Rightarrow> nat option" where
  "index_byte c [] = None"
| "index_byte c (x # s) = (if x = c then Some 0 else map_option Suc (index_byte c s))"

text \<open>\<open>strings.Split(s, sep)\<close> for a one-byte separator.\<close>

fun split_on :: "char \<Rightarrow> string \<Rightarrow> string list" where
  "split_on c [] = [[]]"
| "split_on c (x # s) =
     (if x = c then [] # split_on c s
      else case split_on c s of [] \<Rightarrow> [[x]] | p # ps \<Rightarrow> (x # p) # ps)"

text \<open>\<open>strings.Join\<close>.\<close>

fun join_with :: "string \<Rightarrow> string list \<Rightarrow> string" where
  "join_with sep [] = []"
| "join_with sep [p] = p"
| "join_with sep (p # q # ps) = p @ sep @ join_with sep (q # ps)"

lemma split_on_nonempty [simp]: "split_on c s \<noteq> []"
  by (induction s) (auto split: list.splits)

lemma split_on_no_sep: "p \<in> set (split_on c s) \<Longrightarrow> c \<notin> set p"
  by (induction s arbitrary: p) (auto split: if_splits list.splits)

lemma join_split [simp]: "join_with [c] (split_on c s) = s"
proof (induction s)
  case (Cons x s)
  then show ?case
    by (cases "split_on c s") (auto split: list.splits simp: neq_Nil_conv, (cases "tl (split_on c s)", auto)+)
qed simp

lemma last_index_None: "last_index c s = None \<longleftrightarrow> c \<notin> set s"
  by (induction s) (auto split: option.splits)

lemma last_index_Some:
  "last_index c s = Some i \<Longrightarrow> i < length s \<and> s ! i = c \<and> c \<notin> set (drop (Suc i) s)"
  by (induction s arbitrary: i) (auto split: option.splits if_splits simp: last_index_None)

lemma has_prefix_append [simp]: "has_prefix (p @ s) p"
  by (simp add: has_prefix_def)

lemma has_prefix_iff: "has_prefix s p \<longleftrightarrow> (\<exists>r. s = p @ r)"
  unfolding has_prefix_def by (metis append_eq_conv_conj append_take_drop_id)

subsection \<open>Decimal numerals\<close>

text \<open>\<open>%d\<close> of a non-negative integer.\<close>

fun show_nat :: "nat \<Rightarrow> string" where
  "show_nat n = (if n < 10 then [chr (48 + n)] else show_nat (n div 10) @ [chr (48 + n mod 10)])"

declare show_nat.simps [simp del]

definition is_digit :: "char \<Rightarrow> bool" where
  "is_digit c = (48 \<le> byte c \<and> byte c \<le> 57)"

fun digits_value :: "nat \<Rightarrow> string \<Rightarrow> nat" where
  "digits_value acc [] = acc"
| "digits_value acc (c # s) = digits_value (10 * acc + (byte c - 48)) s"

lemma byte_chr [simp]: "n < 256 \<Longrightarrow> byte (chr n) = n"
  by (simp add: byte_def chr_def)

lemma digits_value_append:
  "digits_value acc (s @ t) = digits_value (digits_value acc s) t"
  by (induction acc s rule: digits_value.induct) auto

lemma show_nat_digits: "c \<in> set (show_nat n) \<Longrightarrow> is_digit c"
proof (induction n rule: show_nat.induct)
  case (1 n)
  then show ?case
    by (subst (asm) show_nat.simps) (auto simp: is_digit_def split: if_splits)
qed

lemma digits_value_show_nat: "digits_value 0 (show_nat n) = n"
proof (induction n rule: show_nat.induct)
  case (1 n)
  then show ?case
    by (subst show_nat.simps) (auto simp: digits_value_append)
qed

lemma show_nat_inject [simp]: "show_nat m = show_nat n \<longleftrightarrow> m = n"
  by (metis digits_value_show_nat)

text \<open>
  \<open>strconv.ParseInt(s, 10, 64)\<close> and \<open>strconv.Atoi\<close>: an optional sign and digits, in the range of
  a 64-bit integer; \<open>None\<close> is any error.
\<close>

definition parse_int64 :: "string \<Rightarrow> int option" where
  "parse_int64 s =
     (let neg = (case s of c # _ \<Rightarrow> c = CHR ''-'' | [] \<Rightarrow> False);
          ds = (case s of c # r \<Rightarrow> if c = CHR ''-'' \<or> c = CHR ''+'' then r else s | [] \<Rightarrow> []);
          n = int (digits_value 0 ds) in
      if ds = [] \<or> \<not> list_all is_digit ds then None
      else if neg then (if n \<le> 2 ^ 63 then Some (- n) else None)
      else if n < 2 ^ 63 then Some n else None)"

lemma parse_int64_show:
  assumes "int n < 2 ^ 63"
  shows "parse_int64 (show_nat n) = Some (int n)"
proof -
  have d: "list_all is_digit (show_nat n)"
    using show_nat_digits by (auto simp: list_all_iff)
  have ne: "show_nat n \<noteq> []"
    by (subst show_nat.simps) simp
  have s: "\<not> is_digit CHR ''-''" "\<not> is_digit CHR ''+''"
    by (simp_all add: is_digit_def byte_def)
  from ne obtain c r where c: "show_nat n = c # r" by (cases "show_nat n") auto
  with d s have "c \<noteq> CHR ''-''" "c \<noteq> CHR ''+''" by auto
  then have "parse_int64 (c # r) = Some (int n)"
    using d c assms digits_value_show_nat [of n] by (simp add: parse_int64_def Let_def)
  with c show ?thesis by simp
qed

lemma parse_int64_range: "parse_int64 s = Some n \<Longrightarrow> - (2 ^ 63) \<le> n \<and> n < 2 ^ 63"
  by (auto simp: parse_int64_def Let_def split: if_splits)

text \<open>\<open>strings.Contains\<close>, also SQL \<open>strpos(s, p) > 0\<close>.\<close>

fun contains :: "string \<Rightarrow> string \<Rightarrow> bool" where
  "contains [] p = (p = [])"
| "contains (c # s) p = (has_prefix (c # s) p \<or> contains s p)"

lemma contains_iff: "contains s p \<longleftrightarrow> (\<exists>a b. s = a @ p @ b)"
proof (induction s)
  case (Cons c s)
  have "(\<exists>a b. c # s = a @ p @ b) \<longleftrightarrow> (\<exists>b. c # s = p @ b) \<or> (\<exists>a b. s = a @ p @ b)"
    by (metis append_Cons append_Nil list.exhaust_sel list.sel(1,3))
  with Cons show ?case by (simp add: has_prefix_iff)
qed simp

end
