(* ===== verification/Ttl_Cache.thy ===== *)
theory Ttl_Cache
  imports Prelude Go_Strings "HOL-Library.Word"
begin

text \<open>
  \<open>internal/cache/ttl.go\<close>: the TTL cache of the resolver, its operations as functions on
  the cache state, and the sequential behaviour of \<open>Get\<close> for one caller. The interleaved
  behaviour (singleflight, concurrent purges) is in \<open>Cache_Concurrency\<close>.

  A Go map's iteration order is unspecified; the eviction loop deletes the first key it
  yields, which is modelled by a number \<open>pick\<close> that may select any entry.
\<close>

subsection \<open>State\<close>

record 'v ttl_entry =
  ent_value :: 'v
  expires_at :: int

record 'v ttl_cache =
  entries :: "(string, 'v ttl_entry) gomap"
  capacity :: int
  ttl :: int
  generation :: "64 word"

definition new_cache :: "int \<Rightarrow> int \<Rightarrow> 'v ttl_cache" where
  "new_cache cap t = \<lparr>entries = [], capacity = cap, ttl = t, generation = 0\<rparr>"

definition fresh_entry :: "int \<Rightarrow> 'v ttl_entry \<Rightarrow> bool" where
  "fresh_entry now e = (now < expires_at e)"

subsection \<open>Writers\<close>

text \<open>\<open>for k := range c.entries { delete(c.entries, k); break }\<close>\<close>

definition evict_one :: "nat \<Rightarrow> (string, 'v ttl_entry) gomap \<Rightarrow> (string, 'v ttl_entry) gomap" where
  "evict_one pick es =
     (if es = [] then es else AList.delete (fst (es ! (pick mod length es))) es)"

definition make_room :: "nat \<Rightarrow> 'v ttl_cache \<Rightarrow> (string, 'v ttl_entry) gomap" where
  "make_room pick c =
     (if 0 < capacity c \<and> capacity c \<le> int (length (entries c))
      then evict_one pick (entries c) else entries c)"

definition store_entry :: "nat \<Rightarrow> string \<Rightarrow> 'v \<Rightarrow> int \<Rightarrow> 'v ttl_cache \<Rightarrow> 'v ttl_cache" where
  "store_entry pick k v start c =
     c\<lparr>entries := AList.update k \<lparr>ent_value = v, expires_at = start + ttl c\<rparr> (make_room pick c)\<rparr>"

text \<open>The locked section of a completed load: an entry is stored in its own generation only.\<close>

definition publish :: "nat \<Rightarrow> 64 word \<Rightarrow> string \<Rightarrow> 'v \<Rightarrow> int \<Rightarrow> 'v ttl_cache \<Rightarrow> 'v ttl_cache" where
  "publish pick gen k v start c =
     (if gen = generation c then store_entry pick k v start c else c)"

definition invalidate :: "string \<Rightarrow> 'v ttl_cache \<Rightarrow> 'v ttl_cache" where
  "invalidate k c =
     c\<lparr>generation := generation c + 1, entries := AList.delete k (entries c)\<rparr>"

definition purge :: "'v ttl_cache \<Rightarrow> 'v ttl_cache" where
  "purge c = c\<lparr>generation := generation c + 1, entries := []\<rparr>"

definition cache_len :: "'v ttl_cache \<Rightarrow> nat" where
  "cache_len c = length (entries c)"

definition put :: "nat \<Rightarrow> int \<Rightarrow> string \<Rightarrow> 'v \<Rightarrow> 'v ttl_cache \<Rightarrow> 'v ttl_cache" where
  "put pick now k v c = store_entry pick k v now c"

subsection \<open>Readers\<close>

text \<open>
  \<open>fetch\<close> reads under the read lock, then deletes an expired entry under the write lock
  after looking again: \<open>c'\<close> is the cache at that second look.
\<close>

definition fetch_expired :: "int \<Rightarrow> 'v ttl_entry \<Rightarrow> bool" where
  "fetch_expired now e = (expires_at e < now)"

definition fetch :: "int \<Rightarrow> int \<Rightarrow> string \<Rightarrow> 'v ttl_cache \<Rightarrow> 'v ttl_cache \<Rightarrow> 'v ttl_cache \<times> 'v option" where
  "fetch now now' k c c' =
     (case map_of (entries c) k of
        None \<Rightarrow> (c', None)
      | Some e \<Rightarrow>
          if fetch_expired now e then
            (case map_of (entries c') k of
               Some cur \<Rightarrow>
                 (if fetch_expired now' cur then c'\<lparr>entries := AList.delete k (entries c')\<rparr> else c')
             | None \<Rightarrow> c', None)
          else (c', Some (ent_value e)))"

text \<open>What the outside world does during one \<open>Get\<close>: clock readings, context, load.\<close>

record 'e get_env =
  ge_ctx :: "'e option"        \<comment> \<open>\<open>ctx.Err()\<close> on entry\<close>
  ge_now :: int                \<comment> \<open>clock at the first freshness test\<close>
  ge_now2 :: int               \<comment> \<open>clock at the test inside the flight\<close>
  ge_started :: int            \<comment> \<open>clock when the loader is called\<close>
  ge_done :: "'e option"       \<comment> \<open>\<open>ctx.Err()\<close> if the context ends before the result arrives\<close>
  ge_pick :: nat               \<comment> \<open>map iteration order of an eviction\<close>

text \<open>
  \<open>Get\<close> of a caller that no other goroutine interferes with: one round of the loop, a
  flight of its own, and an unchanged generation at the end.
\<close>

definition cache_get ::
  "'e get_env \<Rightarrow> string \<Rightarrow> 'e + 'v \<Rightarrow> 'v ttl_cache \<Rightarrow> 'v ttl_cache \<times> ('e + 'v)" where
  "cache_get ge k load c =
     (case ge_ctx ge of Some e \<Rightarrow> (c, Inl e) | None \<Rightarrow>
       (case map_of (entries c) k of
          Some en \<Rightarrow> if fresh_entry (ge_now ge) en then (c, Inr (ent_value en)) else
            (if fresh_entry (ge_now2 ge) en then
               (c, case ge_done ge of Some e \<Rightarrow> Inl e | None \<Rightarrow> Inr (ent_value en))
             else (case load of
                 Inl e \<Rightarrow> (c, Inl (case ge_done ge of Some d \<Rightarrow> d | None \<Rightarrow> e))
               | Inr v \<Rightarrow> (publish (ge_pick ge) (generation c) k v (ge_started ge) c,
                          case ge_done ge of Some e \<Rightarrow> Inl e | None \<Rightarrow> Inr v)))
        | None \<Rightarrow>
            (case load of
                 Inl e \<Rightarrow> (c, Inl (case ge_done ge of Some d \<Rightarrow> d | None \<Rightarrow> e))
               | Inr v \<Rightarrow> (publish (ge_pick ge) (generation c) k v (ge_started ge) c,
                          case ge_done ge of Some e \<Rightarrow> Inl e | None \<Rightarrow> Inr v))))"

text \<open>\<open>fmt.Sprintf("%d:%s", gen, key)\<close>, the singleflight key.\<close>

definition flight_key :: "64 word \<Rightarrow> string \<Rightarrow> string" where
  "flight_key gen k = show_nat (unat gen) @ '':'' @ k"

subsection \<open>Well-formed caches\<close>

definition cache_wf :: "'v ttl_cache \<Rightarrow> bool" where
  "cache_wf c \<longleftrightarrow> wf_map (entries c) \<and>
     (0 < capacity c \<longrightarrow> int (length (entries c)) \<le> capacity c)"

lemma length_delete_mem:
  "k \<in> fst ` set es \<Longrightarrow> length (AList.delete k es) < length es"
proof (induction es)
  case (Cons e es)
  then show ?case
    using length_delete_le [of k es] by (cases "fst e = k") (auto simp: le_imp_less_Suc)
qed simp

lemma length_update_le: "length (AList.update k v es) \<le> Suc (length es)"
  by (induction es) auto

lemma evict_one_length: "es \<noteq> [] \<Longrightarrow> length (evict_one pick es) < length es"
  by (auto simp: evict_one_def intro!: length_delete_mem imageI nth_mem)

lemma evict_one_wf: "wf_map es \<Longrightarrow> wf_map (evict_one pick es)"
  by (auto simp: evict_one_def)

lemma map_of_evict_one:
  "map_of (evict_one pick es) k = Some e \<Longrightarrow> map_of es k = Some e"
  by (auto simp: evict_one_def delete_conv' fun_upd_apply split: if_splits)

lemma map_of_make_room:
  "map_of (make_room pick c) k = Some e \<Longrightarrow> map_of (entries c) k = Some e"
  by (auto simp: make_room_def dest: map_of_evict_one split: if_splits)

lemma make_room_bound:
  assumes "cache_wf c" "0 < capacity c"
  shows "int (length (make_room pick c)) < capacity c"
proof (cases "capacity c \<le> int (length (entries c))")
  case True
  with assms have "entries c \<noteq> []" by auto
  from evict_one_length [OF this, of pick] assms True show ?thesis
    by (simp add: make_room_def cache_wf_def)
qed (simp add: make_room_def)

lemma store_entry_wf: "cache_wf c \<Longrightarrow> cache_wf (store_entry pick k v start c)"
proof -
  assume wf: "cache_wf c"
  have "wf_map (make_room pick c)"
    using wf by (simp add: make_room_def cache_wf_def evict_one_wf)
  moreover have "int (length (AList.update k en (make_room pick c))) \<le> capacity c"
    if "0 < capacity c" for en
    using make_room_bound [OF wf that, of pick] length_update_le [of k en "make_room pick c"]
    by linarith
  ultimately show ?thesis
    by (simp add: cache_wf_def store_entry_def)
qed

lemma publish_wf: "cache_wf c \<Longrightarrow> cache_wf (publish pick g k v start c)"
  by (simp add: publish_def store_entry_wf)

lemma invalidate_wf: "cache_wf c \<Longrightarrow> cache_wf (invalidate k c)"
  using length_delete_le [of k "entries c"] by (auto simp: cache_wf_def invalidate_def)

lemma purge_wf: "cache_wf (purge c)"
  by (simp add: cache_wf_def purge_def)

lemma new_cache_wf: "cache_wf (new_cache cap t)"
  by (simp add: cache_wf_def new_cache_def)

lemma cache_get_wf: "cache_wf c \<Longrightarrow> cache_wf (fst (cache_get ge k load c))"
  by (auto simp: cache_get_def publish_wf split: option.splits sum.splits)

lemmas cache_wf_intros = new_cache_wf purge_wf invalidate_wf publish_wf store_entry_wf cache_get_wf

lemma map_of_store_entry:
  "map_of (entries (store_entry pick k v start c)) k' = Some e \<Longrightarrow>
     (k' = k \<and> e = \<lparr>ent_value = v, expires_at = start + ttl c\<rparr>) \<or> map_of (entries c) k' = Some e"
  by (auto simp: store_entry_def update_conv' fun_upd_apply dest: map_of_make_room split: if_splits)

lemma map_of_store_entry_same [simp]:
  "map_of (entries (store_entry pick k v start c)) k = Some \<lparr>ent_value = v, expires_at = start + ttl c\<rparr>"
  by (simp add: store_entry_def update_conv')

lemma store_entry_frame [simp]:
  "generation (store_entry pick k v start c) = generation c"
  "ttl (store_entry pick k v start c) = ttl c"
  "capacity (store_entry pick k v start c) = capacity c"
  by (simp_all add: store_entry_def)

lemma publish_frame [simp]:
  "generation (publish pick g k v start c) = generation c"
  "ttl (publish pick g k v start c) = ttl c"
  "capacity (publish pick g k v start c) = capacity c"
  by (simp_all add: publish_def)

lemma map_of_purge [simp]: "map_of (entries (purge c)) k = None"
  by (simp add: purge_def)

lemma map_of_invalidate:
  "map_of (entries (invalidate j c)) k = (if k = j then None else map_of (entries c) k)"
  by (simp add: invalidate_def delete_conv' fun_upd_apply)

lemma gen_bump [simp]:
  "generation (purge c) = generation c + 1" "generation (invalidate k c) = generation c + 1"
  "ttl (purge c) = ttl c" "ttl (invalidate k c) = ttl c"
  "capacity (purge c) = capacity c" "capacity (invalidate k c) = capacity c"
  by (simp_all add: purge_def invalidate_def)

subsection \<open>What a lookup returns\<close>

text \<open>The call returns a stored entry that has not expired, or what this call loaded.\<close>

lemma cache_get_cases:
  assumes "cache_get ge k load c = (c', Inr v)"
  shows "(\<exists>en. map_of (entries c) k = Some en \<and> ent_value en = v \<and> c' = c \<and>
            (fresh_entry (ge_now ge) en \<or> fresh_entry (ge_now2 ge) en))
         \<or> (load = Inr v \<and> c' = publish (ge_pick ge) (generation c) k v (ge_started ge) c)"
  using assms by (auto simp: cache_get_def split: option.splits sum.splits if_splits)

lemma cache_get_error_frame:
  assumes "cache_get ge k load c = (c', Inl e)"
  shows "c' = c \<or> (\<exists>v. load = Inr v \<and> ge_done ge = Some e \<and>
           c' = publish (ge_pick ge) (generation c) k v (ge_started ge) c)"
  using assms by (auto simp: cache_get_def split: option.splits sum.splits if_splits)

text \<open>The singleflight key determines generation and key: a digit is never the separator.\<close>

lemma digits_sep_inject:
  "list_all is_digit xs \<Longrightarrow> list_all is_digit ys \<Longrightarrow> \<not> is_digit c \<Longrightarrow>
     xs @ c # s = ys @ c # t \<longleftrightarrow> xs = ys \<and> s = t"
proof (induction xs arbitrary: ys)
  case Nil
  then show ?case by (cases ys) auto
next
  case (Cons x xs)
  then show ?case by (cases ys) auto
qed

lemma flight_key_inject [simp]: "flight_key g k = flight_key g' k' \<longleftrightarrow> g = g' \<and> k = k'"
proof -
  have "list_all is_digit (show_nat n)" for n
    using show_nat_digits by (auto simp: list_all_iff)
  moreover have "\<not> is_digit (CHR '':'')"
    by (simp add: is_digit_def byte_def)
  ultimately show ?thesis
    by (simp add: flight_key_def digits_sep_inject flip: word_unat_eq_iff)
qed

end
