(* ===== verification/Cache_Concurrency.thy ===== *)
theory Cache_Concurrency
  imports Ttl_Cache
begin

text \<open>
  \<open>TTLCache.Get\<close> under concurrency: any number of callers, shared singleflight loads,
  and \<open>Invalidate\<close> / \<open>Purge\<close> at any moment, as a step relation. One rule is one
  critical section or one clock reading of the code. Singleflight is used as documented:
  while a call for a key runs, further calls for it wait for its result.

  The fields \<open>epoch\<close>, \<open>hist\<close>, \<open>loads\<close> and the thread fields \<open>th_e0\<close>, \<open>th_n\<close>, \<open>th_d\<close>
  are history variables: no rule's premise reads them. \<open>epoch\<close> counts the generation bumps
  exactly, where the code's \<open>generation\<close> is a 64-bit word; \<open>hist s n k\<close> is the last
  epoch at or before \<open>n\<close> in which an entry for \<open>k\<close> was retired; \<open>loads\<close> records every
  loader return with the epoch and the time at which the loader was called.
\<close>

subsection \<open>State\<close>

datatype ('e, 'v) get_pc =
    PStart                                \<comment> \<open>head of the loop, before \<open>ctx.Err()\<close>\<close>
  | PHave "'v ttl_entry option"           \<comment> \<open>generation and entry read under the read lock\<close>
  | PWait nat                             \<comment> \<open>in \<open>select\<close>, waiting for a flight\<close>
  | PGot "'e + 'v"                        \<comment> \<open>result received, generation not yet compared\<close>
  | PDone "'e + 'v"                       \<comment> \<open>returned\<close>

record ('e, 'v) getter =
  th_key :: string
  th_pc :: "('e, 'v) get_pc"
  th_gen :: "64 word"
  th_e0 :: nat      \<comment> \<open>epoch when the call began\<close>
  th_n :: nat       \<comment> \<open>epoch of the last locked read\<close>
  th_d :: nat       \<comment> \<open>epoch in which the returned value was last validated\<close>

datatype ('e, 'v) flight_phase =
    FCheck                                \<comment> \<open>before the second look at the entry\<close>
  | FMiss                                 \<comment> \<open>before \<open>started := time.Now()\<close>\<close>
  | FLoading int nat                      \<comment> \<open>loader called at this time (and epoch)\<close>
  | FLoaded int nat 'v                    \<comment> \<open>loader returned, before the write lock\<close>
  | FDone "'e + 'v"

record ('e, 'v) flight =
  fl_key :: string
  fl_gen :: "64 word"
  fl_phase :: "('e, 'v) flight_phase"
  fl_n :: nat       \<comment> \<open>epoch of the read whose generation the closure captured\<close>

record ('e, 'v) cache_sys =
  cache :: "'v ttl_cache"
  clock :: int
  getters :: "nat \<Rightarrow> ('e, 'v) getter option"
  flights :: "('e, 'v) flight list"
  epoch :: nat
  hist :: "nat \<Rightarrow> string \<Rightarrow> nat"
  loads :: "(string \<times> 'v \<times> nat \<times> int) set"

definition init_sys :: "int \<Rightarrow> int \<Rightarrow> int \<Rightarrow> ('e, 'v) cache_sys" where
  "init_sys cap t now =
     \<lparr>cache = new_cache cap t, clock = now, getters = (\<lambda>_. None), flights = [],
      epoch = 0, hist = (\<lambda>_ _. 0), loads = {}\<rparr>"

subsection \<open>Steps\<close>

definition running :: "('e, 'v) flight \<Rightarrow> bool" where
  "running f = (case fl_phase f of FDone _ \<Rightarrow> False | _ \<Rightarrow> True)"

definition flight_name :: "('e, 'v) flight \<Rightarrow> string" where
  "flight_name f = flight_key (fl_gen f) (fl_key f)"

definition set_pc ::
  "nat \<Rightarrow> ('e, 'v) getter \<Rightarrow> ('e, 'v) cache_sys \<Rightarrow> ('e, 'v) cache_sys" where
  "set_pc i th s = s\<lparr>getters := (getters s)(i := Some th)\<rparr>"

definition set_phase ::
  "nat \<Rightarrow> ('e, 'v) flight_phase \<Rightarrow> ('e, 'v) cache_sys \<Rightarrow> ('e, 'v) cache_sys" where
  "set_phase j p s = s\<lparr>flights := (flights s)[j := (flights s ! j)\<lparr>fl_phase := p\<rparr>]\<rparr>"

inductive cache_step :: "('e, 'v) cache_sys \<Rightarrow> ('e, 'v) cache_sys \<Rightarrow> bool" where
  call: "getters s i = None \<Longrightarrow>
     cache_step s (set_pc i \<lparr>th_key = k, th_pc = PStart, th_gen = 0, th_e0 = epoch s,
                            th_n = 0, th_d = 0\<rparr> s)"
| ctx_err: "getters s i = Some th \<Longrightarrow> th_pc th = PStart \<Longrightarrow>
     cache_step s (set_pc i (th\<lparr>th_pc := PDone (Inl e)\<rparr>) s)"
| look: "getters s i = Some th \<Longrightarrow> th_pc th = PStart \<Longrightarrow>
     cache_step s (set_pc i (th\<lparr>th_pc := PHave (map_of (entries (cache s)) (th_key th)),
                               th_gen := generation (cache s), th_n := epoch s\<rparr>) s)"
| hit: "getters s i = Some th \<Longrightarrow> th_pc th = PHave (Some en) \<Longrightarrow> fresh_entry (clock s) en \<Longrightarrow>
     cache_step s (set_pc i (th\<lparr>th_pc := PDone (Inr (ent_value en)), th_d := th_n th\<rparr>) s)"
| join: "getters s i = Some th \<Longrightarrow> th_pc th = PHave eo \<Longrightarrow>
     (\<And>en. eo = Some en \<Longrightarrow> \<not> fresh_entry (clock s) en) \<Longrightarrow>
     j < length (flights s) \<Longrightarrow> running (flights s ! j) \<Longrightarrow>
     flight_name (flights s ! j) = flight_key (th_gen th) (th_key th) \<Longrightarrow>
     cache_step s (set_pc i (th\<lparr>th_pc := PWait j\<rparr>) s)"
| fly: "getters s i = Some th \<Longrightarrow> th_pc th = PHave eo \<Longrightarrow>
     (\<And>en. eo = Some en \<Longrightarrow> \<not> fresh_entry (clock s) en) \<Longrightarrow>
     (\<And>f. f \<in> set (flights s) \<Longrightarrow> running f \<Longrightarrow>
        flight_name f \<noteq> flight_key (th_gen th) (th_key th)) \<Longrightarrow>
     cache_step s (set_pc i (th\<lparr>th_pc := PWait (length (flights s))\<rparr>)
       (s\<lparr>flights := flights s @ [\<lparr>fl_key = th_key th, fl_gen = th_gen th,
                                   fl_phase = FCheck, fl_n = th_n th\<rparr>]\<rparr>))"
| fl_hit: "j < length (flights s) \<Longrightarrow> fl_phase (flights s ! j) = FCheck \<Longrightarrow>
     map_of (entries (cache s)) (fl_key (flights s ! j)) = Some en \<Longrightarrow> fresh_entry (clock s) en \<Longrightarrow>
     cache_step s (set_phase j (FDone (Inr (ent_value en))) s)"
| fl_miss: "j < length (flights s) \<Longrightarrow> fl_phase (flights s ! j) = FCheck \<Longrightarrow>
     (\<And>en. map_of (entries (cache s)) (fl_key (flights s ! j)) = Some en \<Longrightarrow>
        \<not> fresh_entry (clock s) en) \<Longrightarrow>
     cache_step s (set_phase j FMiss s)"
| fl_start: "j < length (flights s) \<Longrightarrow> fl_phase (flights s ! j) = FMiss \<Longrightarrow>
     cache_step s (set_phase j (FLoading (clock s) (epoch s)) s)"
| fl_fail: "j < length (flights s) \<Longrightarrow> fl_phase (flights s ! j) = FLoading st ep \<Longrightarrow>
     cache_step s (set_phase j (FDone (Inl e)) s)"
| fl_load: "j < length (flights s) \<Longrightarrow> fl_phase (flights s ! j) = FLoading st ep \<Longrightarrow>
     cache_step s (set_phase j (FLoaded st ep v)
       (s\<lparr>loads := insert (fl_key (flights s ! j), v, ep, st) (loads s)\<rparr>))"
| fl_publish: "j < length (flights s) \<Longrightarrow> fl_phase (flights s ! j) = FLoaded st ep v \<Longrightarrow>
     cache_step s (set_phase j (FDone (Inr v))
       (s\<lparr>cache := publish pick (fl_gen (flights s ! j)) (fl_key (flights s ! j)) v st (cache s)\<rparr>))"
| deliver: "getters s i = Some th \<Longrightarrow> th_pc th = PWait j \<Longrightarrow> j < length (flights s) \<Longrightarrow>
     fl_phase (flights s ! j) = FDone r \<Longrightarrow>
     cache_step s (set_pc i (th\<lparr>th_pc := PGot r\<rparr>) s)"
| ctx_done: "getters s i = Some th \<Longrightarrow> th_pc th = PWait j \<Longrightarrow>
     cache_step s (set_pc i (th\<lparr>th_pc := PDone (Inl e)\<rparr>) s)"
| retry: "getters s i = Some th \<Longrightarrow> th_pc th = PGot r \<Longrightarrow> th_gen th \<noteq> generation (cache s) \<Longrightarrow>
     cache_step s (set_pc i (th\<lparr>th_pc := PStart\<rparr>) s)"
| return: "getters s i = Some th \<Longrightarrow> th_pc th = PGot r \<Longrightarrow> th_gen th = generation (cache s) \<Longrightarrow>
     cache_step s (set_pc i (th\<lparr>th_pc := PDone r, th_d := epoch s\<rparr>) s)"
| do_invalidate:
     "cache_step s (s\<lparr>cache := invalidate k (cache s), epoch := Suc (epoch s),
        hist := (hist s)(Suc (epoch s) := (hist s (epoch s))(k := Suc (epoch s)))\<rparr>)"
| do_purge:
     "cache_step s (s\<lparr>cache := purge (cache s), epoch := Suc (epoch s),
        hist := (hist s)(Suc (epoch s) := (\<lambda>_. Suc (epoch s)))\<rparr>)"
| tick: "clock s \<le> now \<Longrightarrow> cache_step s (s\<lparr>clock := now\<rparr>)"

inductive cache_reach :: "int \<Rightarrow> int \<Rightarrow> ('e, 'v) cache_sys \<Rightarrow> bool" for cap t where
  start: "cache_reach cap t (init_sys cap t now)"
| step: "cache_reach cap t s \<Longrightarrow> cache_step s s' \<Longrightarrow> cache_reach cap t s'"

subsection \<open>The invariant\<close>

text \<open>\<open>v\<close> was loaded for \<open>k\<close> by a call made at or after the last retirement before \<open>n\<close>.\<close>

definition fresh_val :: "('e, 'v) cache_sys \<Rightarrow> string \<Rightarrow> 'v \<Rightarrow> nat \<Rightarrow> bool" where
  "fresh_val s k v n \<longleftrightarrow> (\<exists>ep st. (k, v, ep, st) \<in> loads s \<and> hist s n k \<le> ep)"

definition read_ok :: "('e, 'v) cache_sys \<Rightarrow> ('e, 'v) getter \<Rightarrow> bool" where
  "read_ok s th \<longleftrightarrow> th_gen th = of_nat (th_n th) \<and> th_e0 th \<le> th_n th \<and> th_n th \<le> epoch s"

definition getter_ok :: "('e, 'v) cache_sys \<Rightarrow> ('e, 'v) getter \<Rightarrow> bool" where
  "getter_ok s th \<longleftrightarrow> th_e0 th \<le> epoch s \<and>
     (case th_pc th of
        PStart \<Rightarrow> True
      | PHave eo \<Rightarrow> read_ok s th \<and>
          (\<forall>en. eo = Some en \<longrightarrow> fresh_val s (th_key th) (ent_value en) (th_n th))
      | PWait j \<Rightarrow> read_ok s th \<and> j < length (flights s) \<and>
          flight_name (flights s ! j) = flight_key (th_gen th) (th_key th)
      | PGot r \<Rightarrow> read_ok s th \<and> (\<forall>v. r = Inr v \<longrightarrow> fresh_val s (th_key th) v (th_n th))
      | PDone r \<Rightarrow> (\<forall>v. r = Inr v \<longrightarrow> th_e0 th \<le> th_d th \<and> th_d th \<le> epoch s \<and>
          fresh_val s (th_key th) v (th_d th)))"

definition flight_ok :: "('e, 'v) cache_sys \<Rightarrow> ('e, 'v) flight \<Rightarrow> bool" where
  "flight_ok s f \<longleftrightarrow> fl_gen f = of_nat (fl_n f) \<and> fl_n f \<le> epoch s \<and>
     (case fl_phase f of
        FCheck \<Rightarrow> True
      | FMiss \<Rightarrow> True
      | FLoading st ep \<Rightarrow> fl_n f \<le> ep \<and> ep \<le> epoch s
      | FLoaded st ep v \<Rightarrow> fl_n f \<le> ep \<and> ep \<le> epoch s \<and> (fl_key f, v, ep, st) \<in> loads s
      | FDone r \<Rightarrow> (\<forall>v. r = Inr v \<longrightarrow> fresh_val s (fl_key f) v (fl_n f)))"

definition entries_ok :: "('e, 'v) cache_sys \<Rightarrow> bool" where
  "entries_ok s \<longleftrightarrow> (\<forall>k en. map_of (entries (cache s)) k = Some en \<longrightarrow>
     (\<exists>ep st. (k, ent_value en, ep, st) \<in> loads s \<and> hist s (epoch s) k \<le> ep \<and>
        expires_at en = st + ttl (cache s)))"

definition hist_ok :: "('e, 'v) cache_sys \<Rightarrow> bool" where
  "hist_ok s \<longleftrightarrow>
     (\<forall>m n k. m \<le> n \<and> n \<le> epoch s \<longrightarrow> hist s m k \<le> hist s n k) \<and>
     (\<forall>n k. n \<le> epoch s \<longrightarrow> hist s n k \<le> n)"

definition cache_inv :: "('e, 'v) cache_sys \<Rightarrow> bool" where
  "cache_inv s \<longleftrightarrow> cache_wf (cache s) \<and> generation (cache s) = of_nat (epoch s) \<and>
     hist_ok s \<and> entries_ok s \<and>
     (\<forall>i th. getters s i = Some th \<longrightarrow> getter_ok s th) \<and>
     (\<forall>f \<in> set (flights s). flight_ok s f)"

lemma cache_invD:
  assumes "cache_inv s"
  shows "cache_wf (cache s)" "generation (cache s) = of_nat (epoch s)" "hist_ok s" "entries_ok s"
    "\<And>i th. getters s i = Some th \<Longrightarrow> getter_ok s th"
    "\<And>j. j < length (flights s) \<Longrightarrow> flight_ok s (flights s ! j)"
  using assms by (auto simp: cache_inv_def)

text \<open>
  64-bit generations identify epochs as long as fewer than \<open>2 ^ 64\<close> bumps have happened.
\<close>

lemma of_nat_epoch_inject:
  assumes "m < 2 ^ 64" "n < 2 ^ 64"
  shows "(of_nat m :: 64 word) = of_nat n \<longleftrightarrow> m = n"
proof
  assume "(of_nat m :: 64 word) = of_nat n"
  then have "unat (of_nat m :: 64 word) = unat (of_nat n :: 64 word)" by simp
  with assms show "m = n"
    by (simp add: unsigned_of_nat take_bit_nat_eq_self)
qed simp

subsection \<open>Later states\<close>

text \<open>
  What every step keeps: history up to the present epoch, past loads, and the flights'
  identities. Judgements about other threads and flights carry over along it.
\<close>

definition later :: "('e, 'v) cache_sys \<Rightarrow> ('e, 'v) cache_sys \<Rightarrow> bool" where
  "later s s' \<longleftrightarrow> epoch s \<le> epoch s' \<and> loads s \<subseteq> loads s' \<and>
     (\<forall>n \<le> epoch s. hist s' n = hist s n) \<and> length (flights s) \<le> length (flights s') \<and>
     (\<forall>j < length (flights s). flight_name (flights s' ! j) = flight_name (flights s ! j))"

lemma fresh_val_later: "fresh_val s k v n \<Longrightarrow> later s s' \<Longrightarrow> n \<le> epoch s \<Longrightarrow> fresh_val s' k v n"
  unfolding fresh_val_def later_def by (metis subsetD)

lemma read_ok_later: "read_ok s th \<Longrightarrow> later s s' \<Longrightarrow> read_ok s' th"
  by (auto simp: read_ok_def later_def)

lemma getter_ok_later:
  assumes ok: "getter_ok s th" and l: "later s s'"
  shows "getter_ok s' th"
proof -
  have e: "th_e0 th \<le> epoch s'"
    using ok l by (auto simp: getter_ok_def later_def)
  have r: "read_ok s th \<Longrightarrow> th_n th \<le> epoch s"
    by (simp add: read_ok_def)
  show ?thesis
    using ok e r l read_ok_later [OF _ l, of th] fresh_val_later [OF _ l]
    by (auto simp: getter_ok_def later_def split: get_pc.splits)
qed

lemma flight_ok_later:
  assumes ok: "flight_ok s f" and l: "later s s'"
  shows "flight_ok s' f"
  using ok l fresh_val_later [OF _ l]
  by (auto simp: flight_ok_def later_def split: flight_phase.splits)

lemma later_set_pc: "later s s' \<Longrightarrow> later s (set_pc i th s')"
  by (simp add: later_def set_pc_def)

lemma later_refl: "later s s"
  by (simp add: later_def)

lemma flight_name_phase [simp]:
  "j' < length fs \<Longrightarrow>
     flight_name (fs[j := (fs ! j)\<lparr>fl_phase := p\<rparr>] ! j') = flight_name (fs ! j')"
  by (cases "j = j'") (auto simp: flight_name_def)

lemma later_set_phase:
  assumes "later s s'" "flights s' = flights s"
  shows "later s (set_phase j p s')"
  using assms by (auto simp: later_def set_phase_def)

text \<open>A step that moves one thread: only that thread needs a new argument.\<close>

lemma inv_set_pc:
  assumes inv: "cache_inv s" and th: "getter_ok s th"
  shows "cache_inv (set_pc i th s)"
proof -
  have l: "later s (set_pc i th s)"
    by (simp add: later_set_pc later_refl)
  from inv show ?thesis
    using getter_ok_later [OF _ l] flight_ok_later [OF _ l] th
    by (auto simp: cache_inv_def hist_ok_def entries_ok_def set_pc_def split: if_splits)
qed

text \<open>A step that moves one flight, possibly adding a load or publishing an entry.\<close>

lemma inv_set_phase:
  assumes inv: "cache_inv s" and j: "j < length (flights s)"
    and s': "s' = s\<lparr>cache := c, loads := L\<rparr>"
    and L: "loads s \<subseteq> L"
    and c: "cache_wf c" "generation c = generation (cache s)"
    and e: "entries_ok s'"
    and f: "flight_ok s' ((flights s ! j)\<lparr>fl_phase := p\<rparr>)"
  shows "cache_inv (set_phase j p s')"
proof -
  let ?t = "set_phase j p s'"
  have l: "later s ?t" and l': "later s' ?t"
    using L by (auto simp: s' later_def set_phase_def)
  have "flight_ok ?t g" if "g \<in> set (flights ?t)" for g
  proof -
    have "g = (flights s ! j)\<lparr>fl_phase := p\<rparr> \<or> g \<in> set (flights s)"
      using that set_update_subset_insert by (fastforce simp: set_phase_def s')
    then show ?thesis
      using f flight_ok_later [OF _ l'] flight_ok_later [OF _ l] inv
      by (auto simp: cache_inv_def)
  qed
  moreover have "entries_ok ?t"
    using e by (simp add: entries_ok_def set_phase_def)
  moreover have "getter_ok ?t th" if "getters ?t i = Some th" for i th
    using that getter_ok_later [OF _ l] inv by (auto simp: cache_inv_def set_phase_def s')
  ultimately show ?thesis
    using inv c by (auto simp: cache_inv_def hist_ok_def set_phase_def s')
qed

text \<open>A generation bump: the cache changes, the history gets one more epoch.\<close>

lemma inv_bump:
  assumes inv: "cache_inv s"
    and s': "s' = s\<lparr>cache := c, epoch := Suc (epoch s), hist := (hist s)(Suc (epoch s) := h)\<rparr>"
    and c: "cache_wf c" "generation c = generation (cache s) + 1" "ttl c = ttl (cache s)"
    and h: "\<And>k. hist s (epoch s) k \<le> h k" "\<And>k. h k \<le> Suc (epoch s)"
    and e: "\<And>k en. map_of (entries c) k = Some en \<Longrightarrow>
              map_of (entries (cache s)) k = Some en \<and> h k = hist s (epoch s) k"
  shows "cache_inv s'"
proof -
  have l: "later s s'"
    by (simp add: later_def s')
  have "hist_ok s'"
    unfolding hist_ok_def
  proof (intro conjI allI impI)
    fix m n k assume mn: "m \<le> n \<and> n \<le> epoch s'"
    show "hist s' m k \<le> hist s' n k"
    proof (cases "n = Suc (epoch s)")
      case True
      have "m \<noteq> Suc (epoch s) \<Longrightarrow> hist s m k \<le> hist s (epoch s) k"
        using mn inv by (auto simp: cache_inv_def hist_ok_def s')
      with True h(1) [of k] show ?thesis by (auto simp: s' intro: order_trans)
    next
      case False
      with mn inv show ?thesis by (auto simp: cache_inv_def hist_ok_def s')
    qed
  next
    fix n k assume "n \<le> epoch s'"
    with inv h(2) show "hist s' n k \<le> n" by (auto simp: cache_inv_def hist_ok_def s')
  qed
  moreover have "entries_ok s'"
    using inv e c(3) unfolding cache_inv_def entries_ok_def s'
    by (fastforce dest: e)
  ultimately show ?thesis
    using inv c getter_ok_later [OF _ l] flight_ok_later [OF _ l]
    by (auto simp: cache_inv_def s')
qed

subsection \<open>Every step keeps the invariant\<close>

lemma entries_ok_same:
  assumes "entries_ok s" "s' = s\<lparr>loads := L\<rparr>" "loads s \<subseteq> L"
  shows "entries_ok s'"
  using assms unfolding entries_ok_def by (simp, blast)

text \<open>
  The publication: an equal generation means that no bump happened since the flight's
  caller read it, so the loader ran after every retirement of the key so far.
\<close>

lemma publish_entries_ok:
  assumes inv: "cache_inv s" and small: "epoch s < 2 ^ 64"
    and f: "flight_ok s f" "fl_phase f = FLoaded st ep v"
  shows "entries_ok (s\<lparr>cache := publish pick (fl_gen f) (fl_key f) v st (cache s)\<rparr>)"
proof (cases "fl_gen f = generation (cache s)")
  case True
  from f have n: "fl_gen f = of_nat (fl_n f)" "fl_n f \<le> ep" "ep \<le> epoch s"
    "(fl_key f, v, ep, st) \<in> loads s"
    by (auto simp: flight_ok_def)
  with True inv small have "fl_n f = epoch s"
    using of_nat_epoch_inject [of "fl_n f" "epoch s"] by (simp add: cache_inv_def)
  with n inv have "hist s (epoch s) (fl_key f) \<le> ep"
    by (auto simp: cache_inv_def hist_ok_def)
  with n inv show ?thesis
    unfolding entries_ok_def cache_inv_def publish_def
    by (fastforce simp: True dest: map_of_store_entry)
next
  case False
  with inv show ?thesis by (simp add: cache_inv_def publish_def)
qed

lemma later_new_flight: "later s (s\<lparr>flights := flights s @ [f]\<rparr>)"
  by (simp add: later_def nth_append)

lemma inv_new_flight:
  assumes inv: "cache_inv s" and f: "flight_ok s f"
  shows "cache_inv (s\<lparr>flights := flights s @ [f]\<rparr>)"
proof -
  let ?t = "s\<lparr>flights := flights s @ [f]\<rparr>"
  have l: "later s ?t" by (rule later_new_flight)
  have "getter_ok ?t th" if "getters s i = Some th" for i th
    using getter_ok_later [OF _ l] cache_invD(5) [OF inv that] by blast
  moreover have "flight_ok ?t g" if "g \<in> set (flights s) \<or> g = f" for g
    using flight_ok_later [OF _ l] inv f that by (auto simp only: cache_inv_def)
  ultimately show ?thesis
    using inv by (simp add: cache_inv_def hist_ok_def entries_ok_def)
qed

text \<open>A waiting caller and the finished flight of the same name agree on epoch and key.\<close>

lemma deliver_ok:
  assumes inv: "cache_inv s" and small: "epoch s < 2 ^ 64"
    and th: "getters s i = Some th" "th_pc th = PWait j" "j < length (flights s)"
    and fd: "fl_phase (flights s ! j) = FDone r"
  shows "getter_ok s (th\<lparr>th_pc := PGot r\<rparr>)"
proof -
  let ?f = "flights s ! j"
  from cache_invD(5) [OF inv th(1)] th(2) have t: "th_e0 th \<le> epoch s" "read_ok s th"
    "flight_name ?f = flight_key (th_gen th) (th_key th)"
    by (auto simp: getter_ok_def)
  from cache_invD(6) [OF inv th(3)] fd have f: "fl_gen ?f = of_nat (fl_n ?f)" "fl_n ?f \<le> epoch s"
    "\<And>v. r = Inr v \<Longrightarrow> fresh_val s (fl_key ?f) v (fl_n ?f)"
    by (auto simp: flight_ok_def)
  from t(3) have k: "fl_gen ?f = th_gen th" "fl_key ?f = th_key th"
    by (simp_all add: flight_name_def)
  with f t(2) small have "fl_n ?f = th_n th"
    using of_nat_epoch_inject [of "fl_n ?f" "th_n th"] by (simp add: read_ok_def)
  with f(3) k t show ?thesis by (auto simp: getter_ok_def read_ok_def)
qed

lemma return_ok:
  assumes inv: "cache_inv s" and small: "epoch s < 2 ^ 64"
    and th: "getters s i = Some th" "th_pc th = PGot r" "th_gen th = generation (cache s)"
  shows "getter_ok s (th\<lparr>th_pc := PDone r, th_d := epoch s\<rparr>)"
proof -
  from cache_invD(5) [OF inv th(1)] th(2) have t: "read_ok s th"
    "\<And>v. r = Inr v \<Longrightarrow> fresh_val s (th_key th) v (th_n th)"
    by (auto simp: getter_ok_def)
  from t(1) have n: "th_gen th = of_nat (th_n th)" "th_n th \<le> epoch s" "th_e0 th \<le> th_n th"
    by (auto simp: read_ok_def)
  have "(of_nat (th_n th) :: 64 word) = of_nat (epoch s)"
    using n(1) th(3) cache_invD(2) [OF inv] by metis
  with n(2) small have "th_n th = epoch s"
    by (subst (asm) of_nat_epoch_inject) auto
  with t(2) n show ?thesis by (auto simp: getter_ok_def)
qed

lemma entry_fresh_val:
  "cache_inv s \<Longrightarrow> map_of (entries (cache s)) k = Some en \<Longrightarrow> fresh_val s k (ent_value en) (epoch s)"
  unfolding cache_inv_def entries_ok_def fresh_val_def by blast

lemma epoch_mono: "cache_step s s' \<Longrightarrow> epoch s \<le> epoch s'"
  by (induction rule: cache_step.induct) (auto simp: set_pc_def set_phase_def)

text \<open>A step that only moves one flight's phase.\<close>

lemma inv_phase:
  assumes "cache_inv s" "j < length (flights s)" "flight_ok s ((flights s ! j)\<lparr>fl_phase := p\<rparr>)"
  shows "cache_inv (set_phase j p s)"
  using assms inv_set_phase [where s = s and j = j and s' = s and c = "cache s" and L = "loads s"]
  by (auto simp: cache_inv_def)

text \<open>The invariant, one step of the program at a time.\<close>

named_theorems cache_keeps

lemma keeps_start [cache_keeps]:
  "cache_inv s \<Longrightarrow> cache_inv (set_pc i \<lparr>th_key = k, th_pc = PStart, th_gen = 0, th_e0 = epoch s, th_n = 0, th_d = 0\<rparr> s)"
  by (intro inv_set_pc) (auto simp: getter_ok_def)

lemma keeps_error [cache_keeps]:
  "cache_inv s \<Longrightarrow> getters s i = Some th \<Longrightarrow> cache_inv (set_pc i (th\<lparr>th_pc := PDone (Inl e)\<rparr>) s)"
  by (intro inv_set_pc) (auto dest!: cache_invD(5) simp: getter_ok_def)

lemma keeps_retry [cache_keeps]:
  "cache_inv s \<Longrightarrow> getters s i = Some th \<Longrightarrow> cache_inv (set_pc i (th\<lparr>th_pc := PStart\<rparr>) s)"
  by (intro inv_set_pc) (auto dest!: cache_invD(5) simp: getter_ok_def)

lemma keeps_look [cache_keeps]:
  assumes "cache_inv s" "getters s i = Some th" "th_pc th = PStart"
  shows "cache_inv (set_pc i (th\<lparr>th_pc := PHave (map_of (entries (cache s)) (th_key th)),
    th_gen := generation (cache s), th_n := epoch s\<rparr>) s)"
  using assms cache_invD(5) [OF assms(1,2)] entry_fresh_val [OF assms(1)] cache_invD(2) [OF assms(1)]
  by (intro inv_set_pc) (auto simp: getter_ok_def read_ok_def)

lemma keeps_hit [cache_keeps]:
  assumes "cache_inv s" "getters s i = Some th" "th_pc th = PHave (Some en)"
  shows "cache_inv (set_pc i (th\<lparr>th_pc := PDone (Inr (ent_value en)), th_d := th_n th\<rparr>) s)"
  using cache_invD(5) [OF assms(1,2)] assms(3)
  by (intro inv_set_pc assms(1)) (auto simp: getter_ok_def read_ok_def)

lemma keeps_join [cache_keeps]:
  assumes "cache_inv s" "getters s i = Some th" "th_pc th = PHave eo" "j < length (flights s)"
    and "flight_name (flights s ! j) = flight_key (th_gen th) (th_key th)"
  shows "cache_inv (set_pc i (th\<lparr>th_pc := PWait j\<rparr>) s)"
  using cache_invD(5) [OF assms(1,2)] assms(3-5)
  by (intro inv_set_pc assms(1)) (auto simp: getter_ok_def read_ok_def)

lemma keeps_fly [cache_keeps]:
  assumes "cache_inv s" "getters s i = Some th" "th_pc th = PHave eo"
  shows "cache_inv (set_pc i (th\<lparr>th_pc := PWait (length (flights s))\<rparr>)
    (s\<lparr>flights := flights s @ [\<lparr>fl_key = th_key th, fl_gen = th_gen th, fl_phase = FCheck, fl_n = th_n th\<rparr>]\<rparr>))"
    (is "cache_inv (set_pc i ?th ?t)")
proof (rule inv_set_pc)
  from cache_invD(5) [OF assms(1,2)] assms(3) have r: "read_ok s th" "th_e0 th \<le> epoch s"
    by (auto simp: getter_ok_def)
  then show "cache_inv ?t" by (intro inv_new_flight assms(1)) (simp add: flight_ok_def read_ok_def)
  show "getter_ok ?t ?th" using r by (simp add: getter_ok_def read_ok_def flight_name_def)
qed

lemma keeps_fl_hit [cache_keeps]:
  assumes "cache_inv s" "j < length (flights s)" "map_of (entries (cache s)) (fl_key (flights s ! j)) = Some en"
  shows "cache_inv (set_phase j (FDone (Inr (ent_value en))) s)"
proof (rule inv_phase [OF assms(1,2)])
  note f = cache_invD(6) [OF assms(1,2)]
  have "hist s (fl_n (flights s ! j)) k \<le> hist s (epoch s) k" for k
    using f cache_invD(3) [OF assms(1)] by (auto simp: flight_ok_def hist_ok_def)
  with f entry_fresh_val [OF assms(1,3)] show "flight_ok s ((flights s ! j)\<lparr>fl_phase := FDone (Inr (ent_value en))\<rparr>)"
    by (auto simp: flight_ok_def fresh_val_def intro: order_trans)
qed

lemma keeps_fl_move [cache_keeps]:
  assumes "cache_inv s" "j < length (flights s)"
  shows "cache_inv (set_phase j FMiss s)" "cache_inv (set_phase j (FLoading (clock s) (epoch s)) s)"
    "cache_inv (set_phase j (FDone (Inl e)) s)"
  using cache_invD(6) [OF assms] by (intro inv_phase assms; simp add: flight_ok_def)+

lemma keeps_fl_load [cache_keeps]:
  assumes "cache_inv s" "j < length (flights s)" "fl_phase (flights s ! j) = FLoading st ep"
  shows "cache_inv (set_phase j (FLoaded st ep v) (s\<lparr>loads := insert (fl_key (flights s ! j), v, ep, st) (loads s)\<rparr>))"
    (is "cache_inv (set_phase j _ (s\<lparr>loads := ?L\<rparr>))")
proof (rule inv_set_phase [where s = s and c = "cache s" and L = ?L])
  show "entries_ok (s\<lparr>loads := ?L\<rparr>)"
    by (rule entries_ok_same [OF cache_invD(4) [OF assms(1)]]) auto
  show "flight_ok (s\<lparr>loads := ?L\<rparr>) ((flights s ! j)\<lparr>fl_phase := FLoaded st ep v\<rparr>)"
    using cache_invD(6) [OF assms(1,2)] assms(3) by (auto simp: flight_ok_def)
qed (use assms in \<open>auto simp: cache_inv_def\<close>)

lemma keeps_fl_publish [cache_keeps]:
  assumes "cache_inv s" "epoch s < 2 ^ 64" "j < length (flights s)" "fl_phase (flights s ! j) = FLoaded st ep v"
  shows "cache_inv (set_phase j (FDone (Inr v))
    (s\<lparr>cache := publish pick (fl_gen (flights s ! j)) (fl_key (flights s ! j)) v st (cache s)\<rparr>))"
    (is "cache_inv (set_phase j _ (s\<lparr>cache := ?c\<rparr>))")
proof (rule inv_set_phase [where s = s and c = ?c and L = "loads s"])
  note f = cache_invD(6) [OF assms(1,3)]
  show "entries_ok (s\<lparr>cache := ?c\<rparr>)"
    by (rule publish_entries_ok [OF assms(1,2) f assms(4)])
  have "hist s (fl_n (flights s ! j)) (fl_key (flights s ! j)) \<le> fl_n (flights s ! j)"
    using f cache_invD(3) [OF assms(1)] by (auto simp: flight_ok_def hist_ok_def)
  with f assms(4) show "flight_ok (s\<lparr>cache := ?c\<rparr>) ((flights s ! j)\<lparr>fl_phase := FDone (Inr v)\<rparr>)"
    by (auto simp: flight_ok_def fresh_val_def intro: order_trans)
  show "cache_wf ?c" by (rule publish_wf [OF cache_invD(1) [OF assms(1)]])
qed (use assms in auto)

lemma keeps_deliver [cache_keeps]:
  "cache_inv s \<Longrightarrow> getters s i = Some th \<Longrightarrow> th_pc th = PWait j \<Longrightarrow> j < length (flights s) \<Longrightarrow>
   fl_phase (flights s ! j) = FDone r \<Longrightarrow> epoch s < 2 ^ 64 \<Longrightarrow> cache_inv (set_pc i (th\<lparr>th_pc := PGot r\<rparr>) s)"
  by (intro inv_set_pc deliver_ok) auto

lemma keeps_return [cache_keeps]:
  "cache_inv s \<Longrightarrow> getters s i = Some th \<Longrightarrow> th_pc th = PGot r \<Longrightarrow> th_gen th = generation (cache s) \<Longrightarrow>
   epoch s < 2 ^ 64 \<Longrightarrow> cache_inv (set_pc i (th\<lparr>th_pc := PDone r, th_d := epoch s\<rparr>) s)"
  by (intro inv_set_pc return_ok) auto

lemma hist_next: "cache_inv s \<Longrightarrow> hist s (epoch s) k \<le> Suc (epoch s)"
  using cache_invD(3) [of s] by (intro le_SucI) (simp add: hist_ok_def)

lemma keeps_retire [cache_keeps]:
  assumes "cache_inv s"
  shows "cache_inv (s\<lparr>cache := invalidate k (cache s), epoch := Suc (epoch s),
      hist := (hist s)(Suc (epoch s) := (hist s (epoch s))(k := Suc (epoch s)))\<rparr>)"
    and "cache_inv (s\<lparr>cache := purge (cache s), epoch := Suc (epoch s),
      hist := (hist s)(Suc (epoch s) := (\<lambda>_. Suc (epoch s)))\<rparr>)"
  using assms hist_next [OF assms]
  by (intro inv_bump [OF assms refl]; auto simp: invalidate_wf purge_wf cache_inv_def map_of_invalidate split: if_splits)+

lemma keeps_tick [cache_keeps]:
  assumes "cache_inv s" "clock s \<le> now"
  shows "cache_inv (s\<lparr>clock := now\<rparr>)"
proof -
  have "later s (s\<lparr>clock := now\<rparr>)" by (simp add: later_def)
  with assms(1) show ?thesis
    using getter_ok_later flight_ok_later by (fastforce simp: cache_inv_def hist_ok_def entries_ok_def)
qed

lemma cache_step_inv:
  assumes "cache_step s s'" "cache_inv s" "epoch s < 2 ^ 64"
  shows "cache_inv s'"
  using assms by (induction rule: cache_step.induct) (blast intro: cache_keeps)+

lemma init_inv: "cache_inv (init_sys cap t now)"
  by (simp add: cache_inv_def init_sys_def new_cache_wf hist_ok_def entries_ok_def new_cache_def
      cache_wf_def)

lemma cache_reach_inv: "cache_reach cap t s \<Longrightarrow> epoch s < 2 ^ 64 \<Longrightarrow> cache_inv s"
proof (induction rule: cache_reach.induct)
  case (step s s')
  then show ?case using epoch_mono cache_step_inv by fastforce
qed (rule init_inv)

subsection \<open>Bounds that need no history\<close>

lemma cache_step_frame:
  "cache_step s s' \<Longrightarrow> ttl (cache s') = ttl (cache s) \<and> capacity (cache s') = capacity (cache s) \<and>
     (cache_wf (cache s) \<longrightarrow> cache_wf (cache s'))"
  by (induction rule: cache_step.induct)
    (auto simp: set_pc_def set_phase_def intro: cache_wf_intros)

lemma cache_reach_frame:
  "cache_reach cap t s \<Longrightarrow>
     ttl (cache s) = t \<and> capacity (cache s) = cap \<and> cache_wf (cache s)"
proof (induction rule: cache_reach.induct)
  case start
  then show ?case by (simp add: init_sys_def new_cache_wf, simp add: new_cache_def)
next
  case (step s s')
  then show ?case using cache_step_frame by fastforce
qed

subsection \<open>The sequential reading of a call\<close>

text \<open>
  A call that runs without interference (no other flight for its key and generation is in
  progress) reaches exactly the state and the result of \<open>cache_get\<close>.
\<close>

abbreviation cache_steps :: "('e, 'v) cache_sys \<Rightarrow> ('e, 'v) cache_sys \<Rightarrow> bool" where
  "cache_steps \<equiv> cache_step\<^sup>*\<^sup>*"

lemma set_pc_simps [simp]:
  "getters (set_pc i th s) i = Some th" "cache (set_pc i th s) = cache s"
  "clock (set_pc i th s) = clock s" "flights (set_pc i th s) = flights s"
  "set_pc i th' (set_pc i th s) = set_pc i th' s" "epoch (set_pc i th s) = epoch s"
  "loads (set_pc i th s) = loads s"
  by (simp_all add: set_pc_def)

lemma set_pc_other: "j \<noteq> i \<Longrightarrow> getters (set_pc i th s) j = getters s j"
  by (simp add: set_pc_def)

text \<open>A state in which getter \<open>i\<close> waits for the youngest flight, and its phase.\<close>

definition in_flight ::
  "nat \<Rightarrow> ('e, 'v) getter \<Rightarrow> ('e, 'v) cache_sys \<Rightarrow> ('e, 'v) flight_phase \<Rightarrow> 'v ttl_cache \<Rightarrow>
   int \<Rightarrow> (string \<times> 'v \<times> nat \<times> int) set \<Rightarrow> ('e, 'v) cache_sys" where
  "in_flight i th s p c now L =
     set_pc i (th\<lparr>th_pc := PWait (length (flights s))\<rparr>)
       (s\<lparr>flights := flights s @ [\<lparr>fl_key = th_key th, fl_gen = th_gen th, fl_phase = p,
                                   fl_n = th_n th\<rparr>],
          cache := c, clock := now, loads := L\<rparr>)"

lemma in_flight_simps [simp]:
  "flights (in_flight i th s p c now L) ! length (flights s) =
     \<lparr>fl_key = th_key th, fl_gen = th_gen th, fl_phase = p, fl_n = th_n th\<rparr>"
  "length (flights (in_flight i th s p c now L)) = Suc (length (flights s))"
  "getters (in_flight i th s p c now L) i = Some (th\<lparr>th_pc := PWait (length (flights s))\<rparr>)"
  "cache (in_flight i th s p c now L) = c" "clock (in_flight i th s p c now L) = now"
  "loads (in_flight i th s p c now L) = L" "epoch (in_flight i th s p c now L) = epoch s"
  "set_phase (length (flights s)) q (in_flight i th s p c now L) = in_flight i th s q c now L"
  "in_flight i th s p c now L \<lparr>clock := now'\<rparr> = in_flight i th s p c now' L"
  "in_flight i th s p c now L \<lparr>cache := c'\<rparr> = in_flight i th s p c' now L"
  "in_flight i th s p c now L \<lparr>loads := L'\<rparr> = in_flight i th s p c now L'"
  by (simp_all add: in_flight_def set_phase_def set_pc_def)

lemma two_steps: "cache_step a b \<Longrightarrow> cache_step b c \<Longrightarrow> cache_steps a c"
  by (meson converse_rtranclp_into_rtranclp rtranclp.rtrancl_refl)

lemma run_flight_miss:
  assumes g: "getters s i = Some th" "th_pc th = PHave eo"
    and stale: "\<And>en. eo = Some en \<Longrightarrow> \<not> fresh_entry (clock s) en"
    and eo: "map_of (entries (cache s)) (th_key th) = eo"
    and idle: "\<And>f. f \<in> set (flights s) \<Longrightarrow> running f \<Longrightarrow>
                 flight_name f \<noteq> flight_key (th_gen th) (th_key th)"
    and t: "clock s \<le> now2" "now2 \<le> st"
  shows "cache_steps s (in_flight i th s (FLoading st (epoch s)) (cache s) st (loads s))"
proof -
  let ?F = "\<lambda>p now. in_flight i th s p (cache s) now (loads s)"
  let ?j = "length (flights s)"
  have stale2: "map_of (entries (cache s)) (th_key th) = Some en \<Longrightarrow> \<not> fresh_entry now2 en" for en
    using stale [of en] eo t(1) by (auto simp: fresh_entry_def)
  have "cache_step s (?F FCheck (clock s))"
    using fly [OF g stale idle] by (simp add: in_flight_def)
  moreover have "cache_step (?F FCheck (clock s)) (?F FCheck now2)"
    using tick [of "?F FCheck (clock s)" now2] t by simp
  moreover have "cache_step (?F FCheck now2) (?F FMiss now2)"
    using fl_miss [of ?j "?F FCheck now2"] stale2 by auto
  moreover have "cache_step (?F FMiss now2) (?F FMiss st)"
    using tick [of "?F FMiss now2" st] t by simp
  moreover have "cache_step (?F FMiss st) (?F (FLoading st (epoch s)) st)"
    using fl_start [of ?j "?F FMiss st"] by auto
  ultimately show ?thesis
    by (meson converse_rtranclp_into_rtranclp rtranclp.rtrancl_refl)
qed

lemma run_load:
  "\<exists>L. cache_steps (in_flight i th s (FLoading st ep) (cache s) now (loads s))
    (in_flight i th s (FDone load)
      (case load of Inl _ \<Rightarrow> cache s
       | Inr v \<Rightarrow> publish pick (th_gen th) (th_key th) v st (cache s)) now L) \<and>
    L \<subseteq> loads s \<union> {(th_key th, v, ep, st) | v. load = Inr v}"
proof (cases load)
  case (Inl e)
  have "cache_step (in_flight i th s (FLoading st ep) (cache s) now (loads s))
          (in_flight i th s (FDone (Inl e)) (cache s) now (loads s))"
    using fl_fail [of "length (flights s)" "in_flight i th s (FLoading st ep) (cache s) now (loads s)"
        st ep e] by simp
  with Inl show ?thesis by (intro exI [of _ "loads s"]) auto
next
  case (Inr v)
  let ?L = "insert (th_key th, v, ep, st) (loads s)"
  let ?A = "in_flight i th s (FLoading st ep) (cache s) now (loads s)"
  let ?B = "in_flight i th s (FLoaded st ep v) (cache s) now ?L"
  have "cache_step ?A ?B"
    using fl_load [of "length (flights s)" ?A st ep v] by simp
  moreover have "cache_step ?B (in_flight i th s (FDone (Inr v))
      (publish pick (th_gen th) (th_key th) v st (cache s)) now ?L)"
    using fl_publish [of "length (flights s)" ?B st ep v pick] by simp
  ultimately have "cache_steps ?A (in_flight i th s (FDone (Inr v))
      (publish pick (th_gen th) (th_key th) v st (cache s)) now ?L)"
    by (rule two_steps)
  with Inr show ?thesis by (intro exI [of _ ?L]) auto
qed

lemma run_finish:
  assumes "th_gen th = generation c"
  shows "\<exists>s' th'. cache_steps (in_flight i th s (FDone r) c now L) s' \<and> cache s' = c \<and>
    epoch s' = epoch s \<and> getters s' i = Some th' \<and> th_key th' = th_key th \<and>
    th_pc th' = PDone (case ended of Some e \<Rightarrow> Inl e | None \<Rightarrow> r) \<and> loads s' = L \<and>
    (\<forall>j. j \<noteq> i \<longrightarrow> getters s' j = getters s j) \<and> clock s' = now"
proof -
  let ?A = "in_flight i th s (FDone r) c now L"
  let ?w = "th\<lparr>th_pc := PWait (length (flights s))\<rparr>"
  show ?thesis
  proof (cases ended)
    case (Some e)
    have "cache_step ?A (set_pc i (?w\<lparr>th_pc := PDone (Inl e)\<rparr>) ?A)"
      by (rule ctx_done) auto
    with Some show ?thesis
      by (intro exI [of _ "set_pc i (?w\<lparr>th_pc := PDone (Inl e)\<rparr>) ?A"]) (auto simp: set_pc_other in_flight_def set_pc_def)
  next
    case None
    let ?B = "set_pc i (?w\<lparr>th_pc := PGot r\<rparr>) ?A"
    have "cache_step ?A ?B"
      by (rule deliver [where j = "length (flights s)"]) auto
    moreover have "cache_step ?B (set_pc i (?w\<lparr>th_pc := PDone r, th_d := epoch s\<rparr>) ?A)"
      using return [of ?B i "?w\<lparr>th_pc := PGot r\<rparr>" r] assms by simp
    ultimately have "cache_steps ?A (set_pc i (?w\<lparr>th_pc := PDone r, th_d := epoch s\<rparr>) ?A)"
      by (rule two_steps)
    with None show ?thesis
      by (intro exI [of _ "set_pc i (?w\<lparr>th_pc := PDone r, th_d := epoch s\<rparr>) ?A"]) (auto simp: set_pc_other in_flight_def)
  qed
qed

lemma run_to_look:
  assumes "getters s i = None" "clock s \<le> now"
  shows "cache_steps s (set_pc i \<lparr>th_key = k, th_pc = PHave (map_of (entries (cache s)) k),
    th_gen = generation (cache s), th_e0 = epoch s, th_n = epoch s, th_d = 0\<rparr> (s\<lparr>clock := now\<rparr>))"
proof -
  let ?t = "s\<lparr>clock := now\<rparr>"
  let ?th = "\<lparr>th_key = k, th_pc = PStart, th_gen = 0, th_e0 = epoch s, th_n = 0, th_d = 0\<rparr>"
  have "cache_step s ?t" using assms(2) by (rule tick)
  moreover have "cache_step ?t (set_pc i ?th ?t)"
    using call [of ?t i k] assms(1) by simp
  moreover have "cache_step (set_pc i ?th ?t) (set_pc i \<lparr>th_key = k,
      th_pc = PHave (map_of (entries (cache s)) k),
      th_gen = generation (cache s), th_e0 = epoch s, th_n = epoch s, th_d = 0\<rparr> ?t)"
    using look [of "set_pc i ?th ?t" i ?th] by simp
  ultimately show ?thesis
    by (meson converse_rtranclp_into_rtranclp rtranclp.rtrancl_refl)
qed

lemma run_ctx_err:
  assumes "getters s i = None"
  shows "cache_steps s (set_pc i \<lparr>th_key = k, th_pc = PDone (Inl e), th_gen = 0,
    th_e0 = epoch s, th_n = 0, th_d = 0\<rparr> s)"
proof -
  let ?th = "\<lparr>th_key = k, th_pc = PStart, th_gen = 0, th_e0 = epoch s, th_n = 0, th_d = 0\<rparr>"
  have "cache_step s (set_pc i ?th s)"
    using call [of s i k] assms by simp
  moreover have "cache_step (set_pc i ?th s) (set_pc i \<lparr>th_key = k, th_pc = PDone (Inl e),
      th_gen = 0, th_e0 = epoch s, th_n = 0, th_d = 0\<rparr> s)"
    using ctx_err [of "set_pc i ?th s" i ?th e] by simp
  ultimately show ?thesis by (rule two_steps)
qed

text \<open>What \<open>cache_get\<close> does once the first look has missed.\<close>

lemma cache_get_miss:
  assumes "ge_ctx ge = None" "ge_now ge \<le> ge_now2 ge"
    and "\<And>en. map_of (entries c) k = Some en \<Longrightarrow> \<not> fresh_entry (ge_now ge) en"
  shows "cache_get ge k load c =
    ((case load of Inl _ \<Rightarrow> c
       | Inr v \<Rightarrow> publish (ge_pick ge) (generation c) k v (ge_started ge) c),
     (case ge_done ge of Some e \<Rightarrow> Inl e | None \<Rightarrow> load))"
  using assms by (auto simp: cache_get_def fresh_entry_def split: option.splits sum.splits)

lemma run_get_loads:
  fixes s :: "('e, 'v) cache_sys"
  assumes g: "getters s i = None" and idle: "\<And>f. f \<in> set (flights s) \<Longrightarrow> \<not> running f"
    and t: "clock s \<le> ge_now ge" "ge_now ge \<le> ge_now2 ge" "ge_now2 ge \<le> ge_started ge"
    and miss: "ge_ctx ge = None"
      "\<And>en. map_of (entries (cache s)) k = Some en \<Longrightarrow> \<not> fresh_entry (ge_now ge) en"
  shows "\<exists>s' th. cache_steps s s' \<and> cache s' = fst (cache_get ge k load (cache s)) \<and>
    epoch s' = epoch s \<and> getters s' i = Some th \<and> th_key th = k \<and>
    th_pc th = PDone (snd (cache_get ge k load (cache s))) \<and>
    loads s' \<subseteq> loads s \<union> {(k, v, epoch s, ge_started ge) | v. load = Inr v} \<and>
    (\<forall>j. j \<noteq> i \<longrightarrow> getters s' j = getters s j)"
proof -
  let ?th = "\<lparr>th_key = k, th_pc = PHave (map_of (entries (cache s)) k),
    th_gen = generation (cache s), th_e0 = epoch s, th_n = epoch s, th_d = 0\<rparr> :: ('e, 'v) getter"
  let ?s1 = "set_pc i ?th (s\<lparr>clock := ge_now ge\<rparr>)"
  have a: "cache_steps s ?s1" by (rule run_to_look [OF g t(1)])
  have b: "cache_steps ?s1 (in_flight i ?th ?s1 (FLoading (ge_started ge) (epoch s)) (cache ?s1)
      (ge_started ge) (loads ?s1))"
    using run_flight_miss [of ?s1 i ?th "map_of (entries (cache s)) k" "ge_now2 ge" "ge_started ge"]
      miss idle t by auto
  obtain L where c: "cache_steps (in_flight i ?th ?s1 (FLoading (ge_started ge) (epoch s))
      (cache ?s1) (ge_started ge) (loads ?s1))
    (in_flight i ?th ?s1 (FDone load) (case load of Inl _ \<Rightarrow> cache ?s1
       | Inr v \<Rightarrow> publish (ge_pick ge) (th_gen ?th) (th_key ?th) v (ge_started ge) (cache ?s1))
       (ge_started ge) L)"
    "L \<subseteq> loads ?s1 \<union> {(th_key ?th, v, epoch s, ge_started ge) | v. load = Inr v}"
    using run_load [where i = i and s = ?s1 and th = ?th and st = "ge_started ge" and
        ep = "epoch s" and now = "ge_started ge" and load = load and pick = "ge_pick ge"]
    by (elim exE conjE) (rule that)
  have d: "th_gen ?th = generation (case load of Inl _ \<Rightarrow> cache ?s1
       | Inr v \<Rightarrow> publish (ge_pick ge) (th_gen ?th) (th_key ?th) v (ge_started ge) (cache ?s1))"
    by (simp split: sum.split)
  obtain s' th' where f: "cache_steps (in_flight i ?th ?s1 (FDone load)
      (case load of Inl _ \<Rightarrow> cache ?s1
       | Inr v \<Rightarrow> publish (ge_pick ge) (th_gen ?th) (th_key ?th) v (ge_started ge) (cache ?s1))
       (ge_started ge) L) s'"
    "cache s' = (case load of Inl _ \<Rightarrow> cache ?s1
       | Inr v \<Rightarrow> publish (ge_pick ge) (th_gen ?th) (th_key ?th) v (ge_started ge) (cache ?s1))"
    "epoch s' = epoch ?s1" "getters s' i = Some th'" "th_key th' = th_key ?th"
    "th_pc th' = PDone (case ge_done ge of Some e \<Rightarrow> Inl e | None \<Rightarrow> load)" "loads s' = L"
    "\<forall>j. j \<noteq> i \<longrightarrow> getters s' j = getters ?s1 j"
    using run_finish [OF d, where i = i and s = ?s1 and r = load and now = "ge_started ge" and L = L and
        ended = "ge_done ge"]
    by (elim exE conjE) (rule that)
  have "cache_steps s s'"
    using a b c(1) f(1) by (meson rtranclp_trans)
  moreover have "cache_get ge k load (cache s) =
    ((case load of Inl _ \<Rightarrow> cache s
       | Inr v \<Rightarrow> publish (ge_pick ge) (generation (cache s)) k v (ge_started ge) (cache s)),
     (case ge_done ge of Some e \<Rightarrow> Inl e | None \<Rightarrow> load))"
    using miss(2) by (intro cache_get_miss miss(1) t(2)) auto
  moreover have "\<forall>j. j \<noteq> i \<longrightarrow> getters s' j = getters s j" using f(8) by (simp add: set_pc_other)
  ultimately show ?thesis using f(2-7) c(2)
    by (intro exI [of _ s'] exI [of _ th']) (simp cong: sum.case_cong)
qed

lemma run_get_miss:
  fixes s :: "('e, 'v) cache_sys"
  assumes g: "getters s i = None" and idle: "\<And>f. f \<in> set (flights s) \<Longrightarrow> \<not> running f"
    and t: "clock s \<le> ge_now ge" "ge_now ge \<le> ge_now2 ge" "ge_now2 ge \<le> ge_started ge"
    and miss: "ge_ctx ge = None"
      "\<And>en. map_of (entries (cache s)) k = Some en \<Longrightarrow> \<not> fresh_entry (ge_now ge) en"
  shows "\<exists>s' th. cache_steps s s' \<and> cache s' = fst (cache_get ge k load (cache s)) \<and>
    epoch s' = epoch s \<and> getters s' i = Some th \<and> th_key th = k \<and>
    th_pc th = PDone (snd (cache_get ge k load (cache s)))"
  using run_get_loads [OF assms, where load = load] by blast

lemma run_get_hit:
  assumes g: "getters s i = None" and t: "clock s \<le> ge_now ge"
    and hit: "ge_ctx ge = None" "map_of (entries (cache s)) k = Some en" "fresh_entry (ge_now ge) en"
  shows "\<exists>s' th. cache_steps s s' \<and> cache s' = fst (cache_get ge k load (cache s)) \<and>
    epoch s' = epoch s \<and> getters s' i = Some th \<and> th_key th = k \<and>
    th_pc th = PDone (snd (cache_get ge k load (cache s)))"
proof -
  let ?th = "\<lparr>th_key = k, th_pc = PHave (map_of (entries (cache s)) k),
    th_gen = generation (cache s), th_e0 = epoch s, th_n = epoch s, th_d = 0\<rparr>"
  let ?s1 = "set_pc i ?th (s\<lparr>clock := ge_now ge\<rparr>)"
  let ?s2 = "set_pc i (?th\<lparr>th_pc := PDone (Inr (ent_value en)), th_d := epoch s\<rparr>) ?s1"
  have "cache_steps s ?s1" by (rule run_to_look [OF g t])
  moreover have "cache_step ?s1 ?s2"
    using cache_step.hit [of ?s1 i ?th en] hit by simp
  ultimately have "cache_steps s ?s2" by (rule rtranclp.rtrancl_into_rtrancl)
  moreover have "cache_get ge k load (cache s) = (cache s, Inr (ent_value en))"
    using hit by (simp add: cache_get_def)
  ultimately show ?thesis
    by (intro exI [of _ ?s2]) simp
qed

lemma reach_steps: "cache_steps s s' \<Longrightarrow> cache_reach cap t s \<Longrightarrow> cache_reach cap t s'"
  by (induction rule: rtranclp_induct) (auto intro: cache_reach.step)

subsection \<open>Properties\<close>

text \<open>
  C9. No stale answers. Whatever the interleaving of lookups, shared loads, invalidations and
  purges, a value that \<open>Get\<close> returns for a key came from a loader call for that key that
  began at or after the last purge (or invalidation of the key) known when the value was
  last validated, which is not before the call began. So a call that begins after a purge
  never returns data loaded before it.
\<close>
theorem get_never_stale:
  assumes "cache_reach cap t s" "epoch s < 2 ^ 64"
    and "getters s i = Some th" "th_pc th = PDone (Inr v)"
  shows "\<exists>ep st. (th_key th, v, ep, st) \<in> loads s \<and> hist s (th_d th) (th_key th) \<le> ep \<and>
           hist s (th_e0 th) (th_key th) \<le> ep \<and> th_e0 th \<le> th_d th \<and> th_d th \<le> epoch s"
proof -
  have inv: "cache_inv s" by (rule cache_reach_inv [OF assms(1,2)])
  from cache_invD(5) [OF inv assms(3)] assms(4)
  have d: "th_e0 th \<le> th_d th" "th_d th \<le> epoch s" "fresh_val s (th_key th) v (th_d th)"
    by (auto simp: getter_ok_def)
  moreover have "hist s (th_e0 th) (th_key th) \<le> hist s (th_d th) (th_key th)"
    using cache_invD(3) [OF inv] d by (auto simp: hist_ok_def)
  ultimately show ?thesis
    unfolding fresh_val_def by (meson order_trans)
qed

text \<open>A concrete run: a purge, then a call that misses, loads 7 and returns it.\<close>

definition demo_env :: "string get_env" where
  "demo_env = \<lparr>ge_ctx = None, ge_now = 5, ge_now2 = 6, ge_started = 7, ge_done = None, ge_pick = 0\<rparr>"

definition demo_start :: "(string, nat) cache_sys" where
  "demo_start = (let s = init_sys 2 300 0 in s\<lparr>cache := purge (cache s), epoch := Suc (epoch s),
        hist := (hist s)(Suc (epoch s) := (\<lambda>_. Suc (epoch s)))\<rparr>)"

lemma demo_start_reach: "cache_reach 2 300 demo_start"
  unfolding demo_start_def Let_def by (rule cache_reach.step [OF cache_reach.start do_purge])

lemma demo_run:
  "\<exists>(s' :: (string, nat) cache_sys) th. cache_reach 2 300 s' \<and> epoch s' < 2 ^ 64 \<and> getters s' 0 = Some th \<and>
     th_key th = ''k'' \<and> th_pc th = PDone (Inr 7)"
proof -
  have simps: "getters demo_start 0 = None" "flights demo_start = []" "clock demo_start = 0"
    "epoch demo_start = 1" "entries (cache demo_start) = []"
    by (simp_all add: demo_start_def init_sys_def Let_def purge_def)
  let ?g = "cache_get demo_env ''k'' (Inr (7 :: nat)) (cache demo_start)"
  have "\<exists>s' th. cache_steps demo_start s' \<and> cache s' = fst ?g \<and> epoch s' = epoch demo_start \<and>
    getters s' 0 = Some th \<and> th_key th = ''k'' \<and> th_pc th = PDone (snd ?g)"
    by (rule run_get_miss) (simp_all add: simps demo_env_def)
  then obtain s' th where r: "cache_steps demo_start s'" "epoch s' = 1" "getters s' 0 = Some th"
    "th_key th = ''k''" "th_pc th = PDone (snd ?g)"
    unfolding simps by blast
  have "snd ?g = Inr 7"
    by (simp add: cache_get_def demo_env_def simps)
  moreover have "cache_reach 2 300 s'"
    by (rule reach_steps [OF r(1) demo_start_reach])
  ultimately show ?thesis using r
    by (intro exI [of _ s'] exI [of _ th]) simp
qed

theorem get_never_stale_witness:
  "\<exists>(s :: (string, nat) cache_sys) ep st. cache_reach 2 300 s \<and>
     (''k'', 7, ep, st) \<in> loads s"
proof -
  obtain s' :: "(string, nat) cache_sys" and th where
    r: "cache_reach 2 300 s'" "epoch s' < 2 ^ 64" "getters s' 0 = Some th"
      "th_key th = ''k''" "th_pc th = PDone (Inr 7)"
    using demo_run by blast
  from get_never_stale [OF r(1,2,3,5)] r(4) obtain ep st where "(''k'', 7, ep, st) \<in> loads s'"
    by auto
  with r(1) show ?thesis by blast
qed

text \<open>
  No stale entries. Every entry of the shared map was loaded for its own key by a call
  that began at or after the last purge or invalidation of that key, and it expires one TTL
  after that call began: an in-flight load of a retired generation never publishes.
\<close>
theorem cached_entries_current:
  assumes "cache_reach cap t s" "epoch s < 2 ^ 64"
    and "map_of (entries (cache s)) k = Some en"
  shows "\<exists>ep st. (k, ent_value en, ep, st) \<in> loads s \<and> hist s (epoch s) k \<le> ep \<and>
           expires_at en = st + t"
  using cache_invD(4) [OF cache_reach_inv [OF assms(1,2)]] assms(3) cache_reach_frame [OF assms(1)]
  unfolding entries_ok_def by blast

lemma demo_publish:
  "\<exists>(s :: (string, nat) cache_sys) en. cache_reach 2 300 s \<and> epoch s < 2 ^ 64 \<and>
     map_of (entries (cache s)) ''k'' = Some en \<and> en = \<lparr>ent_value = 7, expires_at = 307\<rparr>"
proof -
  have simps: "getters demo_start 0 = None" "flights demo_start = []" "clock demo_start = 0"
    "epoch demo_start = 1" "entries (cache demo_start) = []" "ttl (cache demo_start) = 300"
    by (simp_all add: demo_start_def init_sys_def Let_def purge_def new_cache_def)
  let ?g = "cache_get demo_env ''k'' (Inr (7 :: nat)) (cache demo_start)"
  have "\<exists>s' th. cache_steps demo_start s' \<and> cache s' = fst ?g \<and> epoch s' = epoch demo_start \<and>
    getters s' 0 = Some th \<and> th_key th = ''k'' \<and> th_pc th = PDone (snd ?g)"
    by (rule run_get_miss) (simp_all add: simps demo_env_def)
  then obtain s' where r: "cache_steps demo_start s'" "epoch s' = 1" "cache s' = fst ?g"
    unfolding simps by blast
  moreover have "map_of (entries (fst ?g)) ''k'' = Some \<lparr>ent_value = 7, expires_at = 307\<rparr>"
    by (simp add: cache_get_def demo_env_def simps publish_def)
  moreover have "cache_reach 2 300 s'"
    by (rule reach_steps [OF r(1) demo_start_reach])
  ultimately show ?thesis by (intro exI [of _ s']) simp
qed

theorem cached_entries_current_witness:
  "\<exists>(s :: (string, nat) cache_sys) ep st. cache_reach 2 300 s \<and> (''k'', 7, ep, st) \<in> loads s \<and>
     (307 :: int) = st + 300"
proof -
  obtain s :: "(string, nat) cache_sys" and en where
    r: "cache_reach 2 300 s" "epoch s < 2 ^ 64" "map_of (entries (cache s)) ''k'' = Some en"
      "en = \<lparr>ent_value = 7, expires_at = 307\<rparr>"
    using demo_publish by blast
  from cached_entries_current [OF r(1-3)] r(1,4) show ?thesis by auto
qed

text \<open>
  The size bound. With a positive capacity the map never holds more entries than that,
  under any interleaving of stores, evictions, invalidations and purges.
\<close>
theorem cache_size_bounded:
  assumes "cache_reach cap t s" "0 < cap"
  shows "int (cache_len (cache s)) \<le> cap"
  using cache_reach_frame [OF assms(1)] assms(2) by (auto simp: cache_wf_def cache_len_def)

theorem cache_size_bounded_witness:
  "\<exists>s :: (string, nat) cache_sys. cache_reach 2 300 s \<and> 0 < cache_len (cache s) \<and>
     int (cache_len (cache s)) \<le> 2"
proof -
  obtain s :: "(string, nat) cache_sys" and en where
    r: "cache_reach 2 300 s" "map_of (entries (cache s)) ''k'' = Some en"
    using demo_publish by blast
  have "int (cache_len (cache s)) \<le> 2"
    by (rule cache_size_bounded [OF r(1)]) simp
  moreover have "0 < cache_len (cache s)"
    using r(2) by (auto simp: cache_len_def)
  ultimately show ?thesis using r(1) by blast
qed



end
