(* ===== verification/Cache_Contract.thy ===== *)
theory Cache_Contract
  imports Ttl_Cache
begin

text \<open>
  What a client may rely on in a loading cache, as an interface: a lookup answers with a value
  that was stored or has just been loaded, and no operation stores anything else. The client
  lemma is the one the resolver needs: a relation between keys and values that every load
  establishes holds of every answer. \<open>TTLCache\<close> is the provider.
\<close>

locale loading_cache =
  fixes get :: "'env \<Rightarrow> string \<Rightarrow> 'e + 'v \<Rightarrow> 'c \<Rightarrow> 'c \<times> ('e + 'v)"
    and forget :: "string \<Rightarrow> 'c \<Rightarrow> 'c"
    and clear :: "'c \<Rightarrow> 'c"
    and stored :: "'c \<Rightarrow> (string \<times> 'v) set"
  assumes get_stores: "stored (fst (get env k load c)) \<subseteq> stored c \<union> {(k, v) | v. load = Inr v}"
    and get_answers: "snd (get env k load c) = Inr v \<Longrightarrow> (k, v) \<in> stored c \<or> load = Inr v"
    and forget_stores: "stored (forget k c) \<subseteq> {(k', v) \<in> stored c. k' \<noteq> k}"
    and clear_stores: "stored (clear c) = {}"
begin

definition holds :: "(string \<Rightarrow> 'v \<Rightarrow> bool) \<Rightarrow> 'c \<Rightarrow> bool" where
  "holds P c = (\<forall>(k, v) \<in> stored c. P k v)"

lemma get_holds:
  assumes "holds P c" "\<And>v. load = Inr v \<Longrightarrow> P k v" "get env k load c = (c', r)"
  shows "holds P c'" "r = Inr v \<Longrightarrow> P k v"
  using assms get_stores [of env k load c] get_answers [of env k load c v]
  by (auto simp: holds_def)

lemma forget_holds: "holds P c \<Longrightarrow> holds P (forget k c)"
  using forget_stores [of k c] by (auto simp: holds_def)

lemma clear_holds: "holds P (clear c)"
  by (simp add: holds_def clear_stores)

lemma holds_mono: "holds P c \<Longrightarrow> (\<And>k v. P k v \<Longrightarrow> Q k v) \<Longrightarrow> holds Q c"
  by (auto simp: holds_def)

text \<open>After a clear or a forget the next lookup answers with its own load.\<close>

lemma get_after_clear: "snd (get env k load (clear c)) = Inr v \<Longrightarrow> load = Inr v"
  using get_answers [of env k load "clear c" v] by (simp add: clear_stores)

lemma get_after_forget: "snd (get env k load (forget k c)) = Inr v \<Longrightarrow> load = Inr v"
  using get_answers [of env k load "forget k c" v] forget_stores [of k c] by auto

end

subsection \<open>\<open>TTLCache\<close> provides it\<close>

definition stored_values :: "'v ttl_cache \<Rightarrow> (string \<times> 'v) set" where
  "stored_values c = (\<lambda>(k, en). (k, ent_value en)) ` set (entries c)"

lemma set_delete_subset: "set (AList.delete k es) = {(k', v) \<in> set es. k' \<noteq> k}"
  by (auto simp: AList.delete_eq)

lemma set_update_subset: "set (AList.update k v es) \<subseteq> insert (k, v) (set es)"
  by (induction es) auto

lemma stored_publish:
  "stored_values (publish pick gen k v start c) \<subseteq> insert (k, v) (stored_values c)"
proof -
  have "set (make_room pick c) \<subseteq> set (entries c)"
    by (auto simp: make_room_def evict_one_def set_delete_subset)
  with set_update_subset [of k "\<lparr>ent_value = v, expires_at = start + ttl c\<rparr>" "make_room pick c"]
  have "set (entries (publish pick gen k v start c)) \<subseteq>
      insert (k, \<lparr>ent_value = v, expires_at = start + ttl c\<rparr>) (set (entries c))"
    unfolding publish_def store_entry_def by auto
  then show ?thesis
    unfolding stored_values_def by (auto dest!: subsetD)
qed

lemma map_of_stored: "map_of (entries c) k = Some en \<Longrightarrow> (k, ent_value en) \<in> stored_values c"
  unfolding stored_values_def by (force dest: map_of_SomeD)

interpretation ttl: loading_cache cache_get invalidate purge stored_values
proof (unfold_locales, goal_cases)
  case (1 env k load c)
  have pub: "stored_values (publish pick gen k v start c) \<subseteq> stored_values c \<union> {(k, w) | w. load = Inr w}"
    if "load = Inr v" for v pick gen start
    using stored_publish [of pick gen k v start c] that by auto
  show ?case
    using pub by (auto simp: cache_get_def split: option.splits sum.splits if_splits)
next
  case (2 env k load c v)
  then show ?case
    by (auto simp: cache_get_def map_of_stored split: option.splits sum.splits if_splits)
next
  case (3 k c)
  show ?case by (auto simp: invalidate_def stored_values_def set_delete_subset)
next
  case (4 c)
  show ?case by (simp add: purge_def stored_values_def)
qed

lemma holds_new [simp]: "ttl.holds P (new_cache cap t)"
  by (simp add: ttl.holds_def stored_values_def new_cache_def)

end
