(* ===== verification/Revision_Gate.thy ===== *)
theory Revision_Gate
  imports Prelude
begin

text \<open>
  \<open>internal/cache/revision.go\<close>: the on-demand reconciliation of the caches with the committed
  database revision. \<open>Check\<close> runs under a mutex, so it is a function on the gate's state; the
  clock readings and the probe's outcome are its inputs, and whether it called
  \<open>Invalidate\<close> is part of its result. Times are nanoseconds.
\<close>

subsection \<open>State and operation\<close>

record gate =
  gate_revision :: int
  gate_checked :: "int option"        \<comment> \<open>\<open>None\<close> is the zero \<open>time.Time\<close>\<close>
  gate_interval :: int

definition new_gate :: "int \<Rightarrow> gate" where
  "new_gate iv = \<lparr>gate_revision = 0, gate_checked = None, gate_interval = iv\<rparr>"

definition within_window :: "gate \<Rightarrow> int \<Rightarrow> bool" where
  "within_window g now =
     (case gate_checked g of None \<Rightarrow> False | Some c \<Rightarrow> now - c < gate_interval g)"

text \<open>The result: new state, whether \<open>Invalidate\<close> ran, and the error if any.\<close>

definition gate_check ::
  "gate \<Rightarrow> int \<Rightarrow> int \<Rightarrow> 'e + int \<Rightarrow> gate \<times> bool \<times> ('e + unit)" where
  "gate_check g now started load =
     (if within_window g now then (g, False, Inr ())
      else case load of
        Inl e \<Rightarrow> (g\<lparr>gate_checked := None\<rparr>, False, Inl e)
      | Inr rv \<Rightarrow>
          (g\<lparr>gate_revision := rv, gate_checked := Some started\<rparr>,
           gate_checked g = None \<or> rv \<noteq> gate_revision g, Inr ()))"

lemma gate_check_interval [simp]:
  "gate_interval (fst (gate_check g now started load)) = gate_interval g"
  by (simp add: gate_check_def split: sum.split)

text \<open>An error closes the gate: the next check probes again, whatever the time.\<close>

lemma gate_check_error:
  assumes "gate_check g now started load = (g', i, Inl e)"
  shows "load = Inl e \<and> \<not> i \<and> gate_checked g' = None \<and> \<not> within_window g' now'"
  using assms by (auto simp: gate_check_def within_window_def split: if_splits sum.splits)

subsection \<open>Runs\<close>

text \<open>
  One check of a run: the time it begins, the time its probe starts, the time at which the
  database answers, and the error if the probe fails. \<open>rv\<close> is the committed revision as a
  function of time.
\<close>

record 'e probe =
  pr_now :: int
  pr_started :: int
  pr_read :: int
  pr_fail :: "'e option"

definition probe_load :: "(int \<Rightarrow> int) \<Rightarrow> 'e probe \<Rightarrow> 'e + int" where
  "probe_load rv p = (case pr_fail p of Some e \<Rightarrow> Inl e | None \<Rightarrow> Inr (rv (pr_read p)))"

fun gate_trace ::
  "(int \<Rightarrow> int) \<Rightarrow> gate \<Rightarrow> 'e probe list \<Rightarrow> ('e probe \<times> bool \<times> ('e + unit)) list" where
  "gate_trace rv g [] = []"
| "gate_trace rv g (p # ps) =
     (case gate_check g (pr_now p) (pr_started p) (probe_load rv p) of
        (g', i, r) \<Rightarrow> (p, i, r) # gate_trace rv g' ps)"

definition timely :: "'e probe list \<Rightarrow> bool" where
  "timely ps = (\<forall>p \<in> set ps. pr_now p \<le> pr_started p \<and> pr_started p \<le> pr_read p)"

text \<open>A commit at time \<open>t\<close>: no revision read before it is read again from then on.\<close>

definition commit_at :: "(int \<Rightarrow> int) \<Rightarrow> int \<Rightarrow> bool" where
  "commit_at rv t = (\<forall>x y. x < t \<longrightarrow> t \<le> y \<longrightarrow> rv x \<noteq> rv y)"

text \<open>
  What the gate's state means: its revision was read at some time not before \<open>checked\<close>, and
  the caches were invalidated by a probe that read the same revision, \<open>H\<close> being the read
  times of the invalidating probes so far.
\<close>

definition gate_ok :: "(int \<Rightarrow> int) \<Rightarrow> int set \<Rightarrow> gate \<Rightarrow> bool" where
  "gate_ok rv H g = (\<forall>c. gate_checked g = Some c \<longrightarrow>
     (\<exists>r \<ge> c. gate_revision g = rv r) \<and> (\<exists>h \<in> H. gate_revision g = rv h))"

definition inv_reads :: "('e probe \<times> bool \<times> ('e + unit)) list \<Rightarrow> int set" where
  "inv_reads tr = {pr_read p | p r. (p, True, r) \<in> set tr}"

lemma gate_check_ok:
  assumes ok: "gate_ok rv H g"
    and t: "pr_now p \<le> pr_started p" "pr_started p \<le> pr_read p"
    and c: "gate_check g (pr_now p) (pr_started p) (probe_load rv p) = (g', i, r)"
  shows "gate_ok rv (H \<union> (if i then {pr_read p} else {})) g'"
proof (cases "within_window g (pr_now p)")
  case True
  with c ok show ?thesis by (auto simp: gate_check_def)
next
  case False
  show ?thesis
  proof (cases "pr_fail p")
    case (Some e)
    with c False show ?thesis by (auto simp: gate_check_def probe_load_def gate_ok_def)
  next
    case None
    with c False have "g' = g\<lparr>gate_revision := rv (pr_read p), gate_checked := Some (pr_started p)\<rparr>"
      "i = (gate_checked g = None \<or> rv (pr_read p) \<noteq> gate_revision g)"
      by (auto simp: gate_check_def probe_load_def)
    with ok t(2) show ?thesis
      by (cases "gate_checked g") (auto simp: gate_ok_def)
  qed
qed

text \<open>A successful check is covered by an invalidation after any old enough commit.\<close>

lemma gate_check_covers:
  assumes ok: "gate_ok rv H g" and iv: "0 \<le> gate_interval g"
    and t: "pr_now p \<le> pr_started p" "pr_started p \<le> pr_read p"
    and c: "gate_check g (pr_now p) (pr_started p) (probe_load rv p) = (g', i, Inr ())"
    and commit: "commit_at rv t" "t + gate_interval g \<le> pr_now p"
  shows "\<exists>h \<in> H \<union> (if i then {pr_read p} else {}). t \<le> h"
proof -
  have same: "t \<le> h" if "rv h = rv r" "t \<le> r" for h r
    using commit(1) that by (metis commit_at_def linorder_not_less)
  show ?thesis
  proof (cases "within_window g (pr_now p)")
    case True
    then obtain ck where ck: "gate_checked g = Some ck" "pr_now p - ck < gate_interval g"
      by (auto simp: within_window_def split: option.splits)
    with ok obtain r h where "ck \<le> r" "gate_revision g = rv r" "h \<in> H" "gate_revision g = rv h"
      by (auto simp: gate_ok_def)
    with same [of h r] ck commit(2) show ?thesis by fastforce
  next
    case False
    then have None: "pr_fail p = None"
      and i: "i = (gate_checked g = None \<or> rv (pr_read p) \<noteq> gate_revision g)"
      using c by (auto simp: gate_check_def probe_load_def split: option.splits)
    have late: "t \<le> pr_read p" using t commit(2) iv by linarith
    show ?thesis
    proof (cases i)
      case True
      with late show ?thesis by auto
    next
      case False
      with i ok obtain h where "h \<in> H" "rv (pr_read p) = rv h"
        by (auto simp: gate_ok_def)
      with same [of h "pr_read p"] late show ?thesis by auto
    qed
  qed
qed

lemma gate_trace_covers:
  assumes "gate_ok rv H g" "0 \<le> gate_interval g" "timely ps" "commit_at rv t"
    and "n < length ps" "gate_trace rv g ps ! n = (p, i, Inr ())"
    and "t + gate_interval g \<le> pr_now p"
  shows "\<exists>h \<in> H \<union> inv_reads (take (Suc n) (gate_trace rv g ps)). t \<le> h"
  using assms
proof (induction ps arbitrary: g H n)
  case (Cons q ps)
  obtain g' j r where c: "gate_check g (pr_now q) (pr_started q) (probe_load rv q) = (g', j, r)"
    by (cases "gate_check g (pr_now q) (pr_started q) (probe_load rv q)") auto
  have iv: "gate_interval g' = gate_interval g"
    using gate_check_interval [of g "pr_now q" "pr_started q" "probe_load rv q"] c by simp
  have tq: "pr_now q \<le> pr_started q" "pr_started q \<le> pr_read q"
    using Cons.prems(3) by (auto simp: timely_def)
  let ?H = "H \<union> (if j then {pr_read q} else {})"
  have sub: "?H \<union> inv_reads (take n (gate_trace rv g' ps))
      \<subseteq> H \<union> inv_reads (take (Suc n) (gate_trace rv g (q # ps)))"
    by (auto simp: inv_reads_def c split: if_splits)
  show ?case
  proof (cases n)
    case 0
    with Cons.prems c have "p = q" "i = j" "r = Inr ()" by auto
    with gate_check_covers [OF Cons.prems(1,2) tq, of g' i t] c Cons.prems
    have "\<exists>h \<in> ?H. t \<le> h" by simp
    with sub show ?thesis by (metis (no_types, lifting) UnCI subsetD)
  next
    case (Suc m)
    with Cons.prems c have m: "m < length ps" "gate_trace rv g' ps ! m = (p, i, Inr ())" by auto
    have "\<exists>h \<in> ?H \<union> inv_reads (take (Suc m) (gate_trace rv g' ps)). t \<le> h"
    proof (rule Cons.IH)
      show "gate_ok rv ?H g'" by (rule gate_check_ok [OF Cons.prems(1) tq c])
      show "timely ps" using Cons.prems(3) by (simp add: timely_def)
    qed (use Cons.prems iv m in auto)
    with sub Suc show ?thesis by (metis (no_types, lifting) subsetD)
  qed
qed simp

subsection \<open>Properties\<close>

text \<open>
  Propagation bound. In any run of checks of a fresh gate, a check that begins at least
  one interval after a commit and succeeds is preceded by (or is itself) a check that
  invalidated the caches after reading the database at or after that commit. So a user check
  reflects every setting committed an interval earlier, even across failed probes.
\<close>
theorem propagation_bound:
  assumes "0 \<le> iv" "timely ps" "commit_at rv t" "n < length ps"
    and "gate_trace rv (new_gate iv) ps ! n = (p, i, Inr ())" "t + iv \<le> pr_now p"
  shows "\<exists>m \<le> n. \<exists>q r. gate_trace rv (new_gate iv) ps ! m = (q, True, r) \<and> t \<le> pr_read q"
proof -
  let ?tr = "gate_trace rv (new_gate iv) ps"
  have "gate_ok rv {} (new_gate iv)" by (simp add: gate_ok_def new_gate_def)
  with assms have "\<exists>h \<in> {} \<union> inv_reads (take (Suc n) ?tr). t \<le> h"
    by (intro gate_trace_covers) (auto simp: new_gate_def)
  then obtain q r where "(q, True, r) \<in> set (take (Suc n) ?tr)" "t \<le> pr_read q"
    by (auto simp: inv_reads_def)
  moreover from this obtain m where "m < length (take (Suc n) ?tr)" "?tr ! m = (q, True, r)"
    by (auto simp: in_set_conv_nth)
  ultimately show ?thesis by (auto simp: less_Suc_eq_le intro: exI [of _ m])
qed

definition demo_probes :: "string probe list" where
  "demo_probes =
    [\<lparr>pr_now = 0, pr_started = 0, pr_read = 5, pr_fail = None\<rparr>,
     \<lparr>pr_now = 50, pr_started = 50, pr_read = 55, pr_fail = None\<rparr>,
     \<lparr>pr_now = 120, pr_started = 120, pr_read = 130, pr_fail = Some ''timeout''\<rparr>,
     \<lparr>pr_now = 170, pr_started = 171, pr_read = 180, pr_fail = None\<rparr>]"

theorem propagation_bound_witness:
  "\<exists>m \<le> 3. \<exists>q r. gate_trace (\<lambda>x. if x < 60 then 7 else 8) (new_gate 100) demo_probes ! m =
     (q, True, r) \<and> 60 \<le> pr_read q"
proof -
  let ?rv = "\<lambda>x :: int. if x < 60 then 7 else (8 :: int)"
  let ?p = "\<lparr>pr_now = 170, pr_started = 171, pr_read = 180, pr_fail = None\<rparr> :: string probe"
  have tr: "gate_trace ?rv (new_gate 100) demo_probes ! 3 = (?p, True, Inr ())"
    by (simp add: demo_probes_def gate_check_def within_window_def probe_load_def new_gate_def)
  show ?thesis
    by (rule propagation_bound [OF _ _ _ _ tr])
      (auto simp: timely_def demo_probes_def commit_at_def)
qed

end
