(* ===== verification/Go_Values.thy ===== *)
theory Go_Values
  imports Go_Strings
begin

text \<open>
  Dynamic values (Go's \<open>any\<close> as decoded from JSON or MessagePack), verified claim sets, the
  errors of the storage layer, and the third-party functions the program calls, as one
  record of parameters.
\<close>

subsection \<open>Dynamic values\<close>

text \<open>
  \<open>VNum\<close> holds a number's text: the program never looks inside a number. \<open>VNil\<close> is \<open>nil\<close>.
\<close>

datatype goval =
    VNil
  | VBool bool
  | VStr string
  | VNum string
  | VBytes string
  | VList "goval list"
  | VMap "(string \<times> goval) list"

type_synonym claims = "(string, goval) gomap"
type_synonym check_map = "(string, goval) gomap"

definition as_string :: "goval \<Rightarrow> string" where
  "as_string v = (case v of VStr s \<Rightarrow> s | _ \<Rightarrow> [])"

definition as_bool :: "goval \<Rightarrow> bool" where
  "as_bool v = (case v of VBool b \<Rightarrow> b | _ \<Rightarrow> False)"

lemma as_bool_True [simp]: "as_bool v \<longleftrightarrow> v = VBool True"
  by (cases v) (auto simp: as_bool_def)

lemma as_string_nonempty: "as_string v = s \<Longrightarrow> s \<noteq> [] \<Longrightarrow> v = VStr s"
  by (cases v) (auto simp: as_string_def)

subsection \<open>Errors\<close>

datatype err =
    ErrNoRows                               \<comment> \<open>\<open>sql.ErrNoRows\<close>\<close>
  | ErrPq string                            \<comment> \<open>\<open>*pq.Error\<close> with its SQLSTATE\<close>
  | ErrProblem nat string string            \<comment> \<open>\<open>admin.problem\<close>: status, code, message\<close>
  | ErrAutoAddDenied                        \<comment> \<open>\<open>mtdb.ErrAutoAddDenied\<close>\<close>
  | ErrOther string

subsection \<open>Code outside the repository\<close>

text \<open>
  Third-party packages, the database server's text functions and the larger standard-library
  parsers are parameters of the model. \<open>uuid_parse\<close> yields the canonical text of the parsed
  UUID (\<open>id.String()\<close>), \<open>mail_parse\<close> the \<open>Address\<close> field, \<open>pg_key\<close> a collation sort key.
\<close>

record url_parts =
  up_scheme :: string
  up_host :: string
  up_user :: bool              \<comment> \<open>\<open>User != nil\<close>\<close>
  up_path :: string
  up_query :: string           \<comment> \<open>\<open>RawQuery\<close>\<close>
  up_fragment :: string

record lib = go_tables +
  mail_parse :: "string \<Rightarrow> string option"      \<comment> \<open>\<open>net/mail.ParseAddress\<close>\<close>
  url_parse :: "string \<Rightarrow> url_parts option"   \<comment> \<open>\<open>net/url.Parse\<close>\<close>
  uuid_parse :: "string \<Rightarrow> string option"      \<comment> \<open>\<open>github.com/google/uuid\<close>\<close>
  idna_ascii :: "string \<Rightarrow> string option"      \<comment> \<open>\<open>golang.org/x/net/idna\<close>, \<open>Lookup.ToASCII\<close>\<close>
  mp_decode :: "string \<Rightarrow> goval option"        \<comment> \<open>\<open>vmihailenco/msgpack\<close>\<close>
  mp_encode :: "goval \<Rightarrow> string option"
  pg_lower :: "string \<Rightarrow> string"               \<comment> \<open>PostgreSQL \<open>lower\<close>\<close>
  pg_key :: "string \<Rightarrow> string"                 \<comment> \<open>PostgreSQL collation of \<open>ORDER BY\<close>\<close>
  pg_uuid :: "string \<Rightarrow> string option"         \<comment> \<open>PostgreSQL cast of text to uuid, as canonical text\<close>
  json_text :: "goval \<Rightarrow> string"               \<comment> \<open>PostgreSQL \<open>->>\<close> of a non-string value\<close>

subsection \<open>A concrete library for the worked examples\<close>

text \<open>
  ASCII-only instances and the small-value part of MessagePack (nil, booleans,
  strings up to 255 bytes, short arrays and maps); the length of the first argument bounds the nesting depth plus the number of items.
\<close>

fun mp_items :: "unit list \<Rightarrow> unit list \<Rightarrow> string \<Rightarrow> (goval list \<times> string) option"
  and mp_pairs :: "unit list \<Rightarrow> unit list \<Rightarrow> string \<Rightarrow> ((string \<times> goval) list \<times> string) option"
  and mp_value :: "unit list \<Rightarrow> string \<Rightarrow> (goval \<times> string) option" where
  "mp_items n [] s = Some ([], s)"
| "mp_items [] (x # k) s = None"
| "mp_items (y # n) (x # k) s =
     (case mp_value n s of None \<Rightarrow> None | Some (v, s1) \<Rightarrow>
       (case mp_items n k s1 of None \<Rightarrow> None | Some (vs, s2) \<Rightarrow> Some (v # vs, s2)))"
| "mp_pairs n [] s = Some ([], s)"
| "mp_pairs [] (x # k) s = None"
| "mp_pairs (y # n) (x # k) s =
     (case mp_value n s of Some (VStr key, s1) \<Rightarrow>
        (case mp_value n s1 of None \<Rightarrow> None | Some (v, s2) \<Rightarrow>
          (case mp_pairs n k s2 of None \<Rightarrow> None | Some (kvs, s3) \<Rightarrow> Some ((key, v) # kvs, s3)))
      | _ \<Rightarrow> None)"
| "mp_value [] s = None"
| "mp_value (y # n) [] = None"
| "mp_value (y # n) (c # s) =
     (let b = byte c in
      if b = 192 then Some (VNil, s)
      else if b = 194 then Some (VBool False, s)
      else if b = 195 then Some (VBool True, s)
      else if 160 \<le> b \<and> b < 192 \<and> b - 160 \<le> length s then
        Some (VStr (take (b - 160) s), drop (b - 160) s)
      else if b = 217 \<and> s \<noteq> [] \<and> byte (hd s) < length s then
        Some (VStr (take (byte (hd s)) (tl s)), drop (byte (hd s)) (tl s))
      else if 144 \<le> b \<and> b < 160 then
        (case mp_items n (replicate (b - 144) ()) s of None \<Rightarrow> None | Some (vs, s1) \<Rightarrow> Some (VList vs, s1))
      else if 128 \<le> b \<and> b < 144 then
        (case mp_pairs n (replicate (b - 128) ()) s of None \<Rightarrow> None | Some (kvs, s1) \<Rightarrow> Some (VMap kvs, s1))
      else None)"

definition small_decode :: "string \<Rightarrow> goval option" where
  "small_decode s = (case mp_value (replicate 20 ()) s of Some (v, []) \<Rightarrow> Some v | _ \<Rightarrow> None)"

fun small_encode :: "goval \<Rightarrow> string option" where
  "small_encode VNil = Some [chr 192]"
| "small_encode (VBool b) = Some [chr (if b then 195 else 194)]"
| "small_encode (VStr s) = (if length s < 32 then Some (chr (160 + length s) # s)
     else if length s < 256 then Some (chr 217 # chr (length s) # s) else None)"
| "small_encode (VList vs) =
     (if length vs < 16 \<and> list_all (\<lambda>v. small_encode v \<noteq> None) vs then
        Some (chr (144 + length vs) # concat (map (\<lambda>v. the (small_encode v)) vs)) else None)"
| "small_encode (VMap kvs) =
     (if length kvs < 16 \<and> list_all (\<lambda>(k, v). length k < 32 \<and> small_encode v \<noteq> None) kvs then
        Some (chr (128 + length kvs) #
          concat (map (\<lambda>(k, v). (chr (160 + length k) # k) @ the (small_encode v)) kvs)) else None)"
| "small_encode _ = None"

definition demo_lib :: lib where
  "demo_lib = \<lparr>rune_lower = id, rune_upper = id, rune_fold = (\<lambda>_ _. False),
     mail_parse = (\<lambda>s. if CHR ''@'' \<in> set s then Some s else None),
     url_parse = (\<lambda>s. if has_prefix s ''https://'' then
         Some \<lparr>up_scheme = ''https'', up_host = drop 8 s, up_user = False, up_path = [],
               up_query = [], up_fragment = []\<rparr> else None),
     uuid_parse = (\<lambda>s. if length s = 36 then Some (map byte_lower s) else None),
     idna_ascii = (\<lambda>s. if s \<noteq> [] \<and> ascii s then Some s else None),
     mp_decode = small_decode, mp_encode = small_encode,
     pg_lower = map byte_lower, pg_key = id,
     pg_uuid = (\<lambda>s. if length s = 36 then Some (map byte_lower s) else None),
     json_text = (\<lambda>_. [])\<rparr>"

end
