(* ===== verification/Mt_Store.thy ===== *)
theory Mt_Store
  imports Go_Values "HOL-Library.Char_ord" "HOL-Library.List_Lexorder"
begin

text \<open>
  The multi-tenant registry (\<open>internal/mtdb\<close>, \<open>migrations/001_auth.sql\<close>): the five tables,
  the revision singleton and the audit log as a record, the read queries of
  \<open>mtdb.Repo\<close>, and the statements that write, with the constraints and the revision trigger of
  the migration. The enrollment transaction is in \<open>Enrollment\<close>.

  A transaction is a function on the record: an \<open>Inl\<close> result rolls back, so the caller
  keeps the old record. Every MT write takes the revision row's lock first, so the reads
  made under that lock see one committed state; this is why a transaction reads and writes
  a single record.
\<close>

subsection \<open>Tables\<close>

record tenant_row =
  tn_id :: string
  tn_slug :: string
  tn_name :: string
  tn_enabled :: bool
  tn_meta :: "goval option"           \<comment> \<open>jsonb, \<open>None\<close> is SQL NULL\<close>

record user_row =
  us_id :: string
  us_email :: string
  us_name :: string
  us_enabled :: bool
  us_default :: "string option"

record member_row =
  mb_user :: string
  mb_tenant :: string
  mb_checks :: goval                  \<comment> \<open>jsonb object (migration 002)\<close>

record domain_row =
  dm_slug :: string
  dm_domain :: string

record config_row =
  cf_slug :: string
  cf_key :: string
  cf_value :: "string option"         \<comment> \<open>bytea\<close>

record audit_row =
  au_operator :: string
  au_action :: string
  au_resource :: string
  au_fields :: "string list"
  au_revision :: int

record mtdb =
  db_tenants :: "tenant_row list"
  db_users :: "user_row list"
  db_members :: "member_row list"
  db_domains :: "domain_row list"
  db_config :: "config_row list"
  db_revision :: int
  db_audit :: "audit_row list"

subsection \<open>Text functions of the queries\<close>

definition btrim :: "string \<Rightarrow> string" where
  "btrim s = rev (dropWhile ((=) (CHR '' '')) (rev (dropWhile ((=) (CHR '' '')) s)))"

definition rtrim_dots :: "string \<Rightarrow> string" where
  "rtrim_dots s = rev (dropWhile ((=) (CHR ''.'')) (rev s))"

text \<open>The expressions of the normalized unique indexes.\<close>

definition norm_email :: "'a lib_scheme \<Rightarrow> string \<Rightarrow> string" where
  "norm_email L s = pg_lower L (btrim s)"

definition norm_domain :: "'a lib_scheme \<Rightarrow> string \<Rightarrow> string" where
  "norm_domain L s = pg_lower L (rtrim_dots (btrim s))"

definition norm_slug :: "'a lib_scheme \<Rightarrow> string \<Rightarrow> string" where
  "norm_slug L s = pg_lower L (btrim s)"

text \<open>\<open>COALESCE(metadata ->> k, '')\<close>\<close>

definition meta_text :: "'a lib_scheme \<Rightarrow> goval option \<Rightarrow> string \<Rightarrow> string" where
  "meta_text L m k =
     (case m of Some (VMap kvs) \<Rightarrow>
        (case map_of kvs k of None \<Rightarrow> [] | Some VNil \<Rightarrow> [] | Some (VStr s) \<Rightarrow> s
         | Some v \<Rightarrow> json_text L v)
      | _ \<Rightarrow> [])"

subsection \<open>Read queries\<close>

record muser =
  u_id :: string
  u_email :: string
  u_name :: string
  u_enabled :: bool
  u_default :: string
  u_slugs :: "string list"
  u_names :: "string list"
  u_logos :: "string list"
  u_dws :: "string list"
  u_checks :: "(string, (string, check_map) gomap) gomap"

record mtenant =
  t_id :: string
  t_slug :: string
  t_name :: string
  t_enabled :: bool
  t_logo :: string
  t_dws :: string

text \<open>The enabled tenants a user belongs to, with the membership, \<open>ORDER BY t.slug\<close>.\<close>

definition user_tenants ::
  "'a lib_scheme \<Rightarrow> mtdb \<Rightarrow> string \<Rightarrow> (tenant_row \<times> member_row) list" where
  "user_tenants L d uid =
     sort_key (\<lambda>(t, m). pg_key L (tn_slug t))
       [(t, m). m \<leftarrow> filter (\<lambda>m. mb_user m = uid) (db_members d),
                t \<leftarrow> filter (\<lambda>t. tn_id t = mb_tenant m \<and> tn_enabled t) (db_tenants d)]"

text \<open>
  \<open>json.Unmarshal\<close> of one membership's overrides into \<open>map[string]map[string]any\<close>: JSON
  null is a nil map, anything else that is not an object is an error.
\<close>

fun provider_checks :: "(string \<times> goval) list \<Rightarrow> (string, check_map) gomap option" where
  "provider_checks [] = Some []"
| "provider_checks ((p, v) # r) =
     (case (v, provider_checks r) of
        (VMap m, Some cs) \<Rightarrow> Some ((p, m) # cs)
      | (VNil, Some cs) \<Rightarrow> Some ((p, []) # cs)
      | _ \<Rightarrow> None)"

definition member_checks :: "goval \<Rightarrow> (string, check_map) gomap option" where
  "member_checks v = (case v of VMap kvs \<Rightarrow> provider_checks kvs | VNil \<Rightarrow> Some [] | _ \<Rightarrow> None)"

fun all_checks ::
  "(tenant_row \<times> member_row) list \<Rightarrow> (string, (string, check_map) gomap) gomap option" where
  "all_checks [] = Some []"
| "all_checks ((t, m) # r) =
     (case (member_checks (mb_checks m), all_checks r) of
        (Some c, Some cs) \<Rightarrow> Some ((tn_slug t, c) # cs)
      | _ \<Rightarrow> None)"

definition get_user_with_tenants :: "'a lib_scheme \<Rightarrow> mtdb \<Rightarrow> string \<Rightarrow> err + muser option" where
  "get_user_with_tenants L d email =
     (case List.find (\<lambda>u. norm_email L (us_email u) = email) (db_users d) of
        None \<Rightarrow> Inr None
      | Some u \<Rightarrow>
          (let ts = user_tenants L d (us_id u) in
           case all_checks ts of
             None \<Rightarrow> Inl (ErrOther ''invalid membership claim policy'')
           | Some checks \<Rightarrow> Inr (Some
               \<lparr>u_id = us_id u, u_email = us_email u, u_name = us_name u,
                u_enabled = us_enabled u,
                u_default = (case us_default u of None \<Rightarrow> [] | Some s \<Rightarrow> s),
                u_slugs = map (\<lambda>(t, m). tn_slug t) ts,
                u_names = map (\<lambda>(t, m). tn_name t) ts,
                u_logos = map (\<lambda>(t, m). meta_text L (tn_meta t) ''logo'') ts,
                u_dws = map (\<lambda>(t, m). meta_text L (tn_meta t) ''default_workspace'') ts,
                u_checks = checks\<rparr>)))"

definition to_mtenant :: "'a lib_scheme \<Rightarrow> tenant_row \<Rightarrow> mtenant" where
  "to_mtenant L t =
     \<lparr>t_id = tn_id t, t_slug = tn_slug t, t_name = tn_name t, t_enabled = tn_enabled t,
      t_logo = meta_text L (tn_meta t) ''logo'',
      t_dws = meta_text L (tn_meta t) ''default_workspace''\<rparr>"

definition get_tenant_by_domain :: "'a lib_scheme \<Rightarrow> mtdb \<Rightarrow> string \<Rightarrow> mtenant option" where
  "get_tenant_by_domain L d dmn =
     (case [(t, r). t \<leftarrow> db_tenants d,
                    r \<leftarrow> filter (\<lambda>r. dm_slug r = tn_slug t \<and> norm_domain L (dm_domain r) = dmn)
                          (db_domains d)] of
        [] \<Rightarrow> None | (t, r) # _ \<Rightarrow> Some (to_mtenant L t))"

definition get_tenant_by_slug :: "'a lib_scheme \<Rightarrow> mtdb \<Rightarrow> string \<Rightarrow> mtenant option" where
  "get_tenant_by_slug L d slug =
     (case List.find (\<lambda>t. tn_slug t = slug) (db_tenants d) of
        None \<Rightarrow> None | Some t \<Rightarrow> Some (to_mtenant L t))"

text \<open>An absent row, SQL NULL and an empty value are all \<open>nil\<close>.\<close>

definition get_config :: "'a lib_scheme \<Rightarrow> mtdb \<Rightarrow> string \<Rightarrow> string \<Rightarrow> err + goval" where
  "get_config L d slug key =
     (case List.find (\<lambda>c. cf_slug c = slug \<and> cf_key c = key) (db_config d) of
        None \<Rightarrow> Inr VNil
      | Some c \<Rightarrow>
          (case cf_value c of
             None \<Rightarrow> Inr VNil
           | Some raw \<Rightarrow>
               if raw = [] then Inr VNil
               else (case mp_decode L raw of
                       None \<Rightarrow> Inl (ErrOther ''msgpack decode'') | Some v \<Rightarrow> Inr v)))"

subsection \<open>Statements that write\<close>

text \<open>
  Any statement can also fail for reasons of its own (connection, timeout, serialization):
  \<open>faults\<close> gives the error of the statement with that label, if it fails so.
\<close>

type_synonym faults = "string \<Rightarrow> err option"

definition stmt :: "faults \<Rightarrow> string \<Rightarrow> err + 'a \<Rightarrow> err + 'a" where
  "stmt flt label r = (case flt label of Some e \<Rightarrow> Inl e | None \<Rightarrow> r)"

text \<open>\<open>auth_admin_bump_revision\<close>, fired once before every statement on an MT table.\<close>

definition bump :: "mtdb \<Rightarrow> err + mtdb" where
  "bump d = (if db_revision d < 2 ^ 63 - 1 then Inr (d\<lparr>db_revision := db_revision d + 1\<rparr>)
             else Inl (ErrPq ''22003''))"

definition insert_user :: "'a lib_scheme \<Rightarrow> user_row \<Rightarrow> mtdb \<Rightarrow> err + mtdb" where
  "insert_user L r d0 = andthen (bump d0) (\<lambda>d.
     if us_id r \<in> us_id ` set (db_users d) \<or> us_email r \<in> us_email ` set (db_users d) \<or>
        norm_email L (us_email r) \<in> (norm_email L \<circ> us_email) ` set (db_users d)
     then Inl (ErrPq ''23505'')
     else if \<exists>s \<in> set_option (us_default r). s \<notin> tn_slug ` set (db_tenants d)
     then Inl (ErrPq ''23503'')
     else Inr (d\<lparr>db_users := db_users d @ [r]\<rparr>))"

definition insert_member :: "member_row \<Rightarrow> mtdb \<Rightarrow> err + mtdb" where
  "insert_member r d0 = andthen (bump d0) (\<lambda>d.
     if (mb_user r, mb_tenant r) \<in> (\<lambda>m. (mb_user m, mb_tenant m)) ` set (db_members d)
     then Inl (ErrPq ''23505'')
     else if mb_user r \<notin> us_id ` set (db_users d) \<or> mb_tenant r \<notin> tn_id ` set (db_tenants d)
     then Inl (ErrPq ''23503'')
     else Inr (d\<lparr>db_members := db_members d @ [r]\<rparr>))"

definition insert_audit :: "audit_row \<Rightarrow> mtdb \<Rightarrow> mtdb" where
  "insert_audit r d = d\<lparr>db_audit := db_audit d @ [r]\<rparr>"

subsection \<open>Invariants of the registry\<close>

text \<open>The constraints of the migration: keys, normalized unique indexes, foreign keys.\<close>

definition keys_ok :: "'a lib_scheme \<Rightarrow> mtdb \<Rightarrow> bool" where
  "keys_ok L d \<longleftrightarrow>
     distinct (map tn_id (db_tenants d)) \<and> distinct (map tn_slug (db_tenants d)) \<and>
     distinct (map (norm_slug L \<circ> tn_slug) (db_tenants d)) \<and>
     distinct (map us_id (db_users d)) \<and> distinct (map us_email (db_users d)) \<and>
     distinct (map (norm_email L \<circ> us_email) (db_users d)) \<and>
     distinct (map (\<lambda>m. (mb_user m, mb_tenant m)) (db_members d)) \<and>
     distinct (map dm_domain (db_domains d)) \<and>
     distinct (map (norm_domain L \<circ> dm_domain) (db_domains d)) \<and>
     distinct (map (\<lambda>c. (cf_slug c, cf_key c)) (db_config d))"

definition refs_ok :: "mtdb \<Rightarrow> bool" where
  "refs_ok d \<longleftrightarrow>
     (\<forall>m \<in> set (db_members d). mb_user m \<in> us_id ` set (db_users d) \<and>
        mb_tenant m \<in> tn_id ` set (db_tenants d)) \<and>
     (\<forall>r \<in> set (db_domains d). dm_slug r \<in> tn_slug ` set (db_tenants d)) \<and>
     (\<forall>c \<in> set (db_config d). cf_slug c \<in> tn_slug ` set (db_tenants d)) \<and>
     (\<forall>u \<in> set (db_users d). \<forall>s \<in> set_option (us_default u). s \<in> tn_slug ` set (db_tenants d))"

text \<open>What the program itself keeps: a stored default tenant is an enabled membership.\<close>

definition default_member :: "mtdb \<Rightarrow> string \<Rightarrow> string \<Rightarrow> bool" where
  "default_member d uid s \<longleftrightarrow> (\<exists>t \<in> set (db_tenants d). \<exists>m \<in> set (db_members d).
     tn_slug t = s \<and> tn_enabled t \<and> mb_user m = uid \<and> mb_tenant m = tn_id t)"

definition defaults_ok :: "mtdb \<Rightarrow> bool" where
  "defaults_ok d \<longleftrightarrow>
     (\<forall>u \<in> set (db_users d). \<forall>s \<in> set_option (us_default u). default_member d (us_id u) s)"

definition registry_ok :: "'a lib_scheme \<Rightarrow> mtdb \<Rightarrow> bool" where
  "registry_ok L d \<longleftrightarrow> keys_ok L d \<and> refs_ok d \<and> defaults_ok d"

lemma stmt_Inr [simp]: "stmt flt l r = Inr x \<longleftrightarrow> flt l = None \<and> r = Inr x"
  by (auto simp: stmt_def split: option.splits)

lemma stmt_none: "flt l = None \<Longrightarrow> stmt flt l r = r"
  by (simp add: stmt_def)

lemma bump_Inr: "bump d = Inr d' \<Longrightarrow> d' = d\<lparr>db_revision := db_revision d + 1\<rparr>"
  by (auto simp: bump_def split: if_splits)

lemma revision_only [simp]:
  "keys_ok L (d\<lparr>db_revision := r\<rparr>) = keys_ok L d"
  "refs_ok (d\<lparr>db_revision := r\<rparr>) = refs_ok d"
  "defaults_ok (d\<lparr>db_revision := r\<rparr>) = defaults_ok d"
  "keys_ok L (d\<lparr>db_audit := a\<rparr>) = keys_ok L d"
  "refs_ok (d\<lparr>db_audit := a\<rparr>) = refs_ok d"
  "defaults_ok (d\<lparr>db_audit := a\<rparr>) = defaults_ok d"
  by (simp_all add: keys_ok_def refs_ok_def defaults_ok_def default_member_def)

lemma insert_user_Inr:
  assumes "insert_user L r d = Inr d'"
  shows "d' = d\<lparr>db_revision := db_revision d + 1, db_users := db_users d @ [r]\<rparr>"
    and "keys_ok L d \<Longrightarrow> keys_ok L d'" and "refs_ok d \<Longrightarrow> refs_ok d'"
    and "us_id r \<notin> us_id ` set (db_users d)"
    and "norm_email L (us_email r) \<notin> (norm_email L \<circ> us_email) ` set (db_users d)"
proof -
  have d': "d' = d\<lparr>db_revision := db_revision d + 1, db_users := db_users d @ [r]\<rparr>"
    and new: "us_id r \<notin> us_id ` set (db_users d)" "us_email r \<notin> us_email ` set (db_users d)"
      "norm_email L (us_email r) \<notin> (norm_email L \<circ> us_email) ` set (db_users d)"
    and dflt: "\<forall>s \<in> set_option (us_default r). s \<in> tn_slug ` set (db_tenants d)"
    using assms unfolding insert_user_def by (auto dest!: bump_Inr split: if_split_asm)
  show "d' = d\<lparr>db_revision := db_revision d + 1, db_users := db_users d @ [r]\<rparr>" by (rule d')
  show "us_id r \<notin> us_id ` set (db_users d)"
    "norm_email L (us_email r) \<notin> (norm_email L \<circ> us_email) ` set (db_users d)" by (rule new)+
  show "keys_ok L d'" if "keys_ok L d"
    using that new by (simp add: d' keys_ok_def)
  show "refs_ok d'" if "refs_ok d"
    using that dflt by (simp add: d' refs_ok_def)
qed

lemma insert_member_Inr:
  assumes "insert_member r d = Inr d'"
  shows "d' = d\<lparr>db_revision := db_revision d + 1, db_members := db_members d @ [r]\<rparr>"
    and "(mb_user r, mb_tenant r) \<notin> (\<lambda>m. (mb_user m, mb_tenant m)) ` set (db_members d)"
    and "mb_user r \<in> us_id ` set (db_users d)" and "mb_tenant r \<in> tn_id ` set (db_tenants d)"
  using assms by (auto simp: insert_member_def dest!: bump_Inr split: if_splits)

lemma default_member_mono:
  "default_member d uid s \<Longrightarrow> set (db_tenants d) \<subseteq> set (db_tenants d') \<Longrightarrow>
     set (db_members d) \<subseteq> set (db_members d') \<Longrightarrow> default_member d' uid s"
  unfolding default_member_def by blast

lemma insert_member_keys: "insert_member r d = Inr d' \<Longrightarrow> keys_ok L d \<Longrightarrow> keys_ok L d'"
  using insert_member_Inr [of r d d'] by (simp add: keys_ok_def)

lemma insert_member_refs: "insert_member r d = Inr d' \<Longrightarrow> refs_ok d \<Longrightarrow> refs_ok d'"
  using insert_member_Inr [of r d d'] by (simp add: refs_ok_def)

lemma insert_member_defaults:
  assumes "insert_member r d = Inr d'" "defaults_ok d"
  shows "defaults_ok d'"
proof -
  have d': "d' = d\<lparr>db_revision := db_revision d + 1, db_members := db_members d @ [r]\<rparr>"
    by (rule insert_member_Inr [OF assms(1)])
  have "default_member d uid s \<Longrightarrow> default_member d' uid s" for uid s
    by (rule default_member_mono) (auto simp: d')
  with assms(2) show ?thesis by (auto simp: defaults_ok_def d')
qed

lemma set_user_tenants:
  "set (user_tenants L d uid) = {(t, m). m \<in> set (db_members d) \<and> mb_user m = uid \<and>
     t \<in> set (db_tenants d) \<and> tn_id t = mb_tenant m \<and> tn_enabled t}"
  by (auto simp: user_tenants_def)

text \<open>What the user query returns.\<close>

lemma get_user_Some:
  assumes "get_user_with_tenants L d email = Inr (Some u)"
  obtains r where "r \<in> set (db_users d)" "norm_email L (us_email r) = email"
    "u_id u = us_id r" "u_enabled u = us_enabled r"
    "u_default u = (case us_default r of None \<Rightarrow> [] | Some s \<Rightarrow> s)"
    "set (u_slugs u) = {tn_slug t | t m. t \<in> set (db_tenants d) \<and> tn_enabled t \<and>
        m \<in> set (db_members d) \<and> mb_user m = us_id r \<and> mb_tenant m = tn_id t}"
proof -
  from assms obtain r where f: "List.find (\<lambda>u. norm_email L (us_email u) = email) (db_users d) = Some r"
    by (auto simp: get_user_with_tenants_def split: option.splits)
  with assms have "u_id u = us_id r" "u_enabled u = us_enabled r"
    "u_default u = (case us_default r of None \<Rightarrow> [] | Some s \<Rightarrow> s)"
    "set (u_slugs u) = (\<lambda>(t, m). tn_slug t) ` set (user_tenants L d (us_id r))"
    by (auto simp: get_user_with_tenants_def Let_def split: option.splits)
  moreover have "(\<lambda>(t, m). tn_slug t) ` set (user_tenants L d (us_id r)) =
      {tn_slug t | t m. t \<in> set (db_tenants d) \<and> tn_enabled t \<and>
        m \<in> set (db_members d) \<and> mb_user m = us_id r \<and> mb_tenant m = tn_id t}"
    by (force simp: set_user_tenants)
  ultimately show ?thesis using find_SomeD [OF f] that by auto
qed

lemma get_user_unique:
  assumes "keys_ok L d" "r \<in> set (db_users d)" "norm_email L (us_email r) = email"
    and "get_user_with_tenants L d email = Inr uo"
  shows "\<exists>u. uo = Some u \<and> u_id u = us_id r"
proof -
  have "List.find (\<lambda>u. norm_email L (us_email u) = email) (db_users d) \<noteq> None"
    using assms(2,3) by (auto simp: find_None_iff)
  then obtain r' where r': "List.find (\<lambda>u. norm_email L (us_email u) = email) (db_users d) = Some r'"
    by auto
  have "distinct (map (norm_email L \<circ> us_email) (db_users d))"
    using assms(1) by (simp add: keys_ok_def)
  from distinct_map_unique [OF this, of r' r] find_SomeD [OF r'] assms(2,3) have "r' = r"
    by simp
  with assms(4) r' show ?thesis
    by (auto simp: get_user_with_tenants_def Let_def split: option.splits)
qed

lemma get_tenant_by_domain_Some:
  assumes "get_tenant_by_domain L d dmn = Some t"
  obtains row r where "row \<in> set (db_tenants d)" "t = to_mtenant L row" "r \<in> set (db_domains d)"
    "dm_slug r = tn_slug row" "norm_domain L (dm_domain r) = dmn"
proof -
  let ?xs = "[(t, r). t \<leftarrow> db_tenants d,
     r \<leftarrow> filter (\<lambda>r. dm_slug r = tn_slug t \<and> norm_domain L (dm_domain r) = dmn) (db_domains d)]"
  from assms obtain row r where x: "(row, r) \<in> set ?xs" "t = to_mtenant L row"
    by (cases ?xs) (auto simp: get_tenant_by_domain_def)
  then show ?thesis using that by auto
qed

lemma to_mtenant_simps [simp]:
  "t_id (to_mtenant L r) = tn_id r" "t_slug (to_mtenant L r) = tn_slug r"
  "t_enabled (to_mtenant L r) = tn_enabled r" "t_name (to_mtenant L r) = tn_name r"
  by (simp_all add: to_mtenant_def)

end
