(* ===== verification/Enrollment.thy ===== *)
theory Enrollment
  imports Mt_Store
begin

text \<open>
  \<open>internal/mtdb/enrollment.go\<close>: \<open>AutoAddUser\<close>, the transaction that persists a user and a
  membership after rereading every admission input under the revision lock, and the proofs
  that it enrolls only what the current registry admits, writes exactly the rows it should,
  keeps the registry's invariants and is idempotent.
\<close>

subsection \<open>The transaction\<close>

definition member_has :: "muser option \<Rightarrow> string \<Rightarrow> bool" where
  "member_has u slug = (case u of None \<Rightarrow> False | Some x \<Rightarrow> slug \<in> set (u_slugs x))"

definition is_disabled :: "muser option \<Rightarrow> bool" where
  "is_disabled u = (case u of None \<Rightarrow> False | Some x \<Rightarrow> \<not> u_enabled x)"

text \<open>The writes of an enrollment, after every admission input was reread; \<open>nid\<close> is the
  \<open>gen_random_uuid()\<close> of an inserted user.\<close>

definition enroll_rows ::
  "'a lib_scheme \<Rightarrow> faults \<Rightarrow> string \<Rightarrow> string \<Rightarrow> string \<Rightarrow> string \<Rightarrow> mtenant \<Rightarrow> muser option \<Rightarrow>
   mtdb \<Rightarrow> err + mtdb \<times> muser option" where
  "enroll_rows L flt nid email name slug t user d =
     andthen
       (case user of
          None \<Rightarrow> stmt flt ''insert_user''
            (andthen (insert_user L \<lparr>us_id = nid, us_email = email, us_name = name,
                us_enabled = True, us_default = Some slug\<rparr> d)
              (\<lambda>d1. Inr (d1, nid, [''membership'', ''user''])))
        | Some u \<Rightarrow> Inr (d, u_id u, [''membership'']))
     (\<lambda>(d1, uid, fs).
     andthen (stmt flt ''insert_member''
       (insert_member \<lparr>mb_user = uid, mb_tenant = t_id t, mb_checks = VMap []\<rparr> d1)) (\<lambda>d2.
     andthen (stmt flt ''revision'' (Inr (db_revision d2))) (\<lambda>rv.
     andthen (stmt flt ''audit'' (Inr (insert_audit
        \<lparr>au_operator = ''system:auto-add'', au_action = ''auto_add'',
         au_resource = ''users/'' @ uid @ ''/memberships/'' @ slug,
         au_fields = fs, au_revision = rv\<rparr> d2))) (\<lambda>d3.
     andthen (stmt flt ''reread'' (get_user_with_tenants L d3 email)) (\<lambda>user'.
     andthen (stmt flt ''commit'' (Inr ())) (\<lambda>_. Inr (d3, user')))))))"

definition auto_add_tx ::
  "'a lib_scheme \<Rightarrow> faults \<Rightarrow> string \<Rightarrow> string \<Rightarrow> string \<Rightarrow> string \<Rightarrow> string \<Rightarrow> string \<Rightarrow>
   (goval \<Rightarrow> goval \<Rightarrow> bool) \<Rightarrow> mtdb \<Rightarrow> err + mtdb \<times> muser option" where
  "auto_add_tx L flt nid email name dmn slug provider authorize d =
     andthen (stmt flt ''begin'' (Inr ())) (\<lambda>_.
     andthen (stmt flt ''lock'' (Inr ())) (\<lambda>_.
     andthen (stmt flt ''domain'' (Inr (get_tenant_by_domain L d dmn))) (\<lambda>tenant.
     case tenant of None \<Rightarrow> Inl ErrAutoAddDenied | Some t \<Rightarrow>
     andthen (guard_err (\<not> t_enabled t \<or> t_slug t \<noteq> slug) ErrAutoAddDenied) (\<lambda>_.
     andthen (stmt flt ''user'' (get_user_with_tenants L d email)) (\<lambda>user.
     andthen (guard_err (is_disabled user) ErrAutoAddDenied) (\<lambda>_.
     andthen (stmt flt ''flag'' (get_config L d slug ''auth:auto_add'')) (\<lambda>flag.
     andthen (guard_err (\<not> as_bool flag) ErrAutoAddDenied) (\<lambda>_.
     andthen (stmt flt ''providers'' (get_config L d slug ''auth:providers'')) (\<lambda>providers.
     andthen (stmt flt ''checks'' (get_config L d slug (''auth:checks:'' @ provider))) (\<lambda>checks.
     andthen (guard_err (\<not> authorize providers checks) ErrAutoAddDenied) (\<lambda>_.
     if member_has user slug then andthen (stmt flt ''commit'' (Inr ())) (\<lambda>_. Inr (d, user))
     else enroll_rows L flt nid email name slug t user d)))))))))))"

definition auto_add_user ::
  "'a lib_scheme \<Rightarrow> faults \<Rightarrow> string \<Rightarrow> string \<Rightarrow> string \<Rightarrow> string \<Rightarrow> string \<Rightarrow> string \<Rightarrow>
   (goval \<Rightarrow> goval \<Rightarrow> bool) \<Rightarrow> mtdb \<Rightarrow> mtdb \<times> (err + muser option)" where
  "auto_add_user L flt nid email name dmn slug provider authorize d =
     (case auto_add_tx L flt nid email name dmn slug provider authorize d of
        Inl e \<Rightarrow> (d, Inl e) | Inr (d', u) \<Rightarrow> (d', Inr u))"

subsection \<open>What a committed enrollment means\<close>

text \<open>The admission inputs, as one transaction read them.\<close>

definition admitted ::
  "'a lib_scheme \<Rightarrow> mtdb \<Rightarrow> string \<Rightarrow> string \<Rightarrow> string \<Rightarrow> string \<Rightarrow>
   (goval \<Rightarrow> goval \<Rightarrow> bool) \<Rightarrow> mtenant \<Rightarrow> muser option \<Rightarrow> bool" where
  "admitted L d email dmn slug provider authorize t user \<longleftrightarrow>
     get_tenant_by_domain L d dmn = Some t \<and> t_enabled t \<and> t_slug t = slug \<and>
     get_user_with_tenants L d email = Inr user \<and> \<not> is_disabled user \<and>
     get_config L d slug ''auth:auto_add'' = Inr (VBool True) \<and>
     (\<exists>providers checks. get_config L d slug ''auth:providers'' = Inr providers \<and>
        get_config L d slug (''auth:checks:'' @ provider) = Inr checks \<and>
        authorize providers checks)"

lemma auto_add_tx_cases:
  assumes "auto_add_tx L flt nid email name dmn slug provider authorize d = Inr (d', uo)"
  obtains t user where "admitted L d email dmn slug provider authorize t user"
    "(member_has user slug \<and> d' = d \<and> uo = user) \<or>
     (\<not> member_has user slug \<and> enroll_rows L flt nid email name slug t user d = Inr (d', uo))"
proof -
  from assms obtain t user where
    "admitted L d email dmn slug provider authorize t user"
    "(if member_has user slug then andthen (stmt flt ''commit'' (Inr ())) (\<lambda>_. Inr (d, user))
      else enroll_rows L flt nid email name slug t user d) = Inr (d', uo)"
    unfolding auto_add_tx_def admitted_def
    by (auto split: option.splits simp del: if_split_asm)
  then show ?thesis using that by (auto split: if_splits)
qed

text \<open>The rows one enrollment adds.\<close>

definition new_user :: "string \<Rightarrow> string \<Rightarrow> string \<Rightarrow> string \<Rightarrow> user_row" where
  "new_user nid email name slug =
     \<lparr>us_id = nid, us_email = email, us_name = name, us_enabled = True, us_default = Some slug\<rparr>"

definition new_member :: "string \<Rightarrow> mtenant \<Rightarrow> member_row" where
  "new_member uid t = \<lparr>mb_user = uid, mb_tenant = t_id t, mb_checks = VMap []\<rparr>"

definition enroll_audit :: "string \<Rightarrow> string \<Rightarrow> string list \<Rightarrow> int \<Rightarrow> audit_row" where
  "enroll_audit uid slug fs rv =
     \<lparr>au_operator = ''system:auto-add'', au_action = ''auto_add'',
      au_resource = ''users/'' @ uid @ ''/memberships/'' @ slug,
      au_fields = fs, au_revision = rv\<rparr>"

definition enrolled_existing :: "mtdb \<Rightarrow> muser \<Rightarrow> mtenant \<Rightarrow> string \<Rightarrow> mtdb" where
  "enrolled_existing d u t slug =
     d\<lparr>db_members := db_members d @ [new_member (u_id u) t],
       db_revision := db_revision d + 1,
       db_audit := db_audit d @ [enroll_audit (u_id u) slug [''membership''] (db_revision d + 1)]\<rparr>"

definition enrolled_new :: "mtdb \<Rightarrow> string \<Rightarrow> string \<Rightarrow> string \<Rightarrow> mtenant \<Rightarrow> string \<Rightarrow> mtdb" where
  "enrolled_new d nid email name t slug =
     d\<lparr>db_users := db_users d @ [new_user nid email name slug],
       db_revision := db_revision d + 2,
       db_members := db_members d @ [new_member nid t],
       db_audit := db_audit d @ [enroll_audit nid slug [''membership'', ''user''] (db_revision d + 2)]\<rparr>"

lemma enroll_rows_existing:
  assumes "enroll_rows L flt nid email name slug t (Some u) d = Inr (d', uo)"
  shows "d' = enrolled_existing d u t slug" "get_user_with_tenants L d' email = Inr uo"
    "insert_member (new_member (u_id u) t) d =
       Inr (d\<lparr>db_revision := db_revision d + 1, db_members := db_members d @ [new_member (u_id u) t]\<rparr>)"
proof -
  from assms obtain d2 where m: "insert_member (new_member (u_id u) t) d = Inr d2"
    and r: "d' = insert_audit (enroll_audit (u_id u) slug [''membership''] (db_revision d2)) d2"
      "get_user_with_tenants L d' email = Inr uo"
    by (auto simp: enroll_rows_def new_member_def enroll_audit_def)
  note d2 = insert_member_Inr(1) [OF m]
  show "d' = enrolled_existing d u t slug" "get_user_with_tenants L d' email = Inr uo"
    using r by (simp_all add: enrolled_existing_def insert_audit_def d2)
  show "insert_member (new_member (u_id u) t) d =
       Inr (d\<lparr>db_revision := db_revision d + 1, db_members := db_members d @ [new_member (u_id u) t]\<rparr>)"
    using m d2 by simp
qed

lemma enroll_rows_new:
  assumes "enroll_rows L flt nid email name slug t None d = Inr (d', uo)"
  obtains d1 d2 where "d' = enrolled_new d nid email name t slug"
    "get_user_with_tenants L d' email = Inr uo"
    "insert_user L (new_user nid email name slug) d = Inr d1"
    "insert_member (new_member nid t) d1 = Inr d2"
    "d' = d2\<lparr>db_audit := db_audit d'\<rparr>"
proof -
  from assms obtain d1 d2 where m: "insert_user L (new_user nid email name slug) d = Inr d1"
      "insert_member (new_member nid t) d1 = Inr d2"
    and r: "d' = insert_audit (enroll_audit nid slug [''membership'', ''user''] (db_revision d2)) d2"
      "get_user_with_tenants L d' email = Inr uo"
    by (auto simp: enroll_rows_def new_member_def new_user_def enroll_audit_def)
  note d1 = insert_user_Inr(1) [OF m(1)] and d2 = insert_member_Inr(1) [OF m(2)]
  show ?thesis
    by (rule that [OF _ r(2) m]) (simp_all add: r enrolled_new_def insert_audit_def d1 d2 add.commute)
qed


subsection \<open>The enrolled user is a member\<close>

lemma get_user_member:
  assumes "get_user_with_tenants L d email = Inr uo"
    and "List.find (\<lambda>u. norm_email L (us_email u) = email) (db_users d) = Some r"
    and "t \<in> set (db_tenants d)" "tn_enabled t" "m \<in> set (db_members d)"
    and "mb_user m = us_id r" "mb_tenant m = tn_id t"
  shows "\<exists>u. uo = Some u \<and> u_id u = us_id r \<and> u_enabled u = us_enabled r \<and> tn_slug t \<in> set (u_slugs u)"
proof -
  have "(t, m) \<in> set (user_tenants L d (us_id r))"
    using assms(3-7) by (simp add: set_user_tenants)
  then have "tn_slug t \<in> (\<lambda>(t, m). tn_slug t) ` set (user_tenants L d (us_id r))"
    by (force intro: rev_image_eqI)
  with assms(1,2) show ?thesis
    by (auto simp: get_user_with_tenants_def Let_def split: option.splits)
qed

lemma get_user_find:
  assumes "get_user_with_tenants L d email = Inr uo"
  shows "case uo of
      None \<Rightarrow> List.find (\<lambda>u. norm_email L (us_email u) = email) (db_users d) = None
    | Some u \<Rightarrow> \<exists>r. List.find (\<lambda>u. norm_email L (us_email u) = email) (db_users d) = Some r \<and>
        u_id u = us_id r \<and> u_enabled u = us_enabled r"
  using assms by (auto simp: get_user_with_tenants_def Let_def split: option.splits)

lemma find_append_None:
  "List.find P xs = None \<Longrightarrow> List.find P (xs @ [y]) = (if P y then Some y else None)"
  by (induction xs) (auto split: if_splits)

lemma auto_add_tx_member:
  assumes tx: "auto_add_tx L flt nid email name dmn slug provider authorize d = Inr (d', uo)"
    and norm: "norm_email L email = email"
  shows "\<exists>u. uo = Some u \<and> u_enabled u \<and> slug \<in> set (u_slugs u) \<and>
     get_user_with_tenants L d' email = Inr uo"
proof -
  obtain t user where adm: "admitted L d email dmn slug provider authorize t user"
    and tail: "(member_has user slug \<and> d' = d \<and> uo = user) \<or>
     (\<not> member_has user slug \<and> enroll_rows L flt nid email name slug t user d = Inr (d', uo))"
    by (rule auto_add_tx_cases [OF tx])
  note a = adm [unfolded admitted_def]
  obtain row where row: "row \<in> set (db_tenants d)" "t = to_mtenant L row"
    by (rule get_tenant_by_domain_Some) (use a in blast)+
  have t: "tn_enabled row" "tn_slug row = slug"
    using a row(2) by simp_all
  from a have u: "get_user_with_tenants L d email = Inr user" "\<not> is_disabled user"
    by blast+
  note uf = get_user_find [OF u(1)]
  show ?thesis
  proof (cases "member_has user slug")
    case True
    with tail u show ?thesis
      by (auto simp: member_has_def is_disabled_def split: option.splits)
  next
    case False
    with tail have er: "enroll_rows L flt nid email name slug t user d = Inr (d', uo)"
      by simp
    show ?thesis
    proof (cases user)
      case None
      with er obtain d'': "d' = enrolled_new d nid email name t slug"
        and g: "get_user_with_tenants L d' email = Inr uo"
        by (auto elim: enroll_rows_new)
      have "List.find (\<lambda>u. norm_email L (us_email u) = email) (db_users d') =
          Some (new_user nid email name slug)"
        using uf None norm by (simp add: d'' enrolled_new_def find_append_None new_user_def)
      from get_user_member [OF g this, of row "new_member nid t"] show ?thesis
        using row t g by (auto simp: d'' enrolled_new_def new_member_def new_user_def)
    next
      case (Some u0)
      note e = enroll_rows_existing [OF er [unfolded Some]]
      from uf Some obtain r where r: "List.find (\<lambda>u. norm_email L (us_email u) = email) (db_users d) = Some r"
        "u_id u0 = us_id r" "u_enabled u0 = us_enabled r" by auto
      have f: "List.find (\<lambda>u. norm_email L (us_email u) = email) (db_users d') = Some r"
        using r(1) by (simp add: e(1) enrolled_existing_def)
      from get_user_member [OF e(2) f, of row "new_member (u_id u0) t"] show ?thesis
        using row t r e(2) u(2) Some
        by (auto simp: e(1) enrolled_existing_def new_member_def is_disabled_def)
    qed
  qed
qed

lemma default_member_add_user:
  "default_member (d\<lparr>db_users := us\<rparr>) uid s = default_member d uid s"
  by (simp add: default_member_def)

lemma enroll_rows_ok:
  assumes er: "enroll_rows L flt nid email name slug t user d = Inr (d', uo)"
    and adm: "admitted L d email dmn slug provider authorize t user" and ok: "registry_ok L d"
  shows "registry_ok L d'"
proof (cases user)
  case (Some u)
  note e = enroll_rows_existing [OF er [unfolded Some]]
  from e(3) ok have "registry_ok L (d\<lparr>db_revision := db_revision d + 1,
      db_members := db_members d @ [new_member (u_id u) t]\<rparr>)"
    unfolding registry_ok_def
    by (blast intro: insert_member_keys insert_member_refs insert_member_defaults)
  then show ?thesis
    by (simp add: e(1) enrolled_existing_def registry_ok_def keys_ok_def refs_ok_def
        defaults_ok_def default_member_def)
next
  case None
  obtain d1 d2 where d': "d' = enrolled_new d nid email name t slug"
    and m: "insert_user L (new_user nid email name slug) d = Inr d1"
      "insert_member (new_member nid t) d1 = Inr d2" and e: "d' = d2\<lparr>db_audit := db_audit d'\<rparr>"
    using er None by (auto elim: enroll_rows_new)
  from ok have "keys_ok L d2" "refs_ok d2"
    unfolding registry_ok_def
    by (blast intro: insert_user_Inr(2,3) [OF m(1)] insert_member_keys [OF m(2)] insert_member_refs [OF m(2)])+
  moreover have "defaults_ok d'"
  proof -
    note a = adm [unfolded admitted_def]
    obtain row where row: "row \<in> set (db_tenants d)" "t = to_mtenant L row"
      by (rule get_tenant_by_domain_Some) (use a in blast)+
    have "tn_enabled row" "tn_slug row = slug" using a row(2) by simp_all
    then have new: "default_member d' nid slug"
      using row by (auto simp: default_member_def d' enrolled_new_def new_member_def)
    have old: "default_member d uid s \<Longrightarrow> default_member d' uid s" for uid s
      by (erule default_member_mono) (auto simp: d' enrolled_new_def)
    from ok have "defaults_ok d" by (simp add: registry_ok_def)
    then have "\<forall>u\<in>set (db_users d). \<forall>s. us_default u = Some s \<longrightarrow> default_member d' (us_id u) s"
      unfolding defaults_ok_def by (blast intro: old)
    moreover have "set (db_users d') = insert (new_user nid email name slug) (set (db_users d))"
      by (simp add: d' enrolled_new_def)
    ultimately show ?thesis using new unfolding defaults_ok_def by (auto simp: new_user_def)
  qed
  ultimately show ?thesis
    unfolding registry_ok_def by (subst (1 2) e) simp
qed

lemma auto_add_tx_effect:
  assumes tx: "auto_add_tx L flt nid email name dmn slug provider authorize d = Inr (d', uo)"
  shows "\<exists>t user. admitted L d email dmn slug provider authorize t user \<and>
     get_user_with_tenants L d' email = Inr uo \<and>
     d' = (if member_has user slug then d
           else case user of Some u \<Rightarrow> enrolled_existing d u t slug
                | None \<Rightarrow> enrolled_new d nid email name t slug)"
proof -
  obtain t user where adm: "admitted L d email dmn slug provider authorize t user"
    and tail: "(member_has user slug \<and> d' = d \<and> uo = user) \<or>
     (\<not> member_has user slug \<and> enroll_rows L flt nid email name slug t user d = Inr (d', uo))"
    by (rule auto_add_tx_cases [OF tx])
  then show ?thesis
    by (cases user)
      (auto simp: admitted_def dest: enroll_rows_existing(1,2) elim!: enroll_rows_new intro!: exI)
qed

subsection \<open>Properties\<close>

text \<open>
  C24. A successful enrollment was admitted by the registry as the transaction itself read it
  under the revision lock: the e-mail domain belongs to the named enabled tenant, the user is
  not disabled, auto-add is switched on, and the policy authorises the claims. It then writes
  nothing if the user is already a member, exactly one membership and one audit row for an
  existing user, and additionally the user row for a new one, the audit row carrying the
  revision the registry ends with.
\<close>

theorem enroll_effect:
  assumes "auto_add_user L flt nid email name dmn slug provider authorize d = (d', Inr uo)"
  shows "\<exists>t user. admitted L d email dmn slug provider authorize t user \<and>
     get_user_with_tenants L d' email = Inr uo \<and>
     d' = (if member_has user slug then d
           else case user of Some u \<Rightarrow> enrolled_existing d u t slug
                | None \<Rightarrow> enrolled_new d nid email name t slug)"
  using assms by (intro auto_add_tx_effect) (auto simp: auto_add_user_def split: sum.splits)

lemma auto_add_user_ok:
  assumes "registry_ok L d"
  shows "registry_ok L (fst (auto_add_user L flt nid email name dmn slug provider authorize d))"
proof (cases "auto_add_tx L flt nid email name dmn slug provider authorize d")
  case (Inl e)
  with assms show ?thesis by (simp add: auto_add_user_def)
next
  case (Inr r)
  obtain d' uo where r: "r = (d', uo)" by (cases r)
  obtain t user where adm: "admitted L d email dmn slug provider authorize t user"
    and tail: "(member_has user slug \<and> d' = d \<and> uo = user) \<or>
     (\<not> member_has user slug \<and> enroll_rows L flt nid email name slug t user d = Inr (d', uo))"
    by (rule auto_add_tx_cases [OF Inr [unfolded r]])
  have "registry_ok L d'"
  proof (cases "member_has user slug")
    case True
    with tail assms show ?thesis by simp
  next
    case False
    with tail have er: "enroll_rows L flt nid email name slug t user d = Inr (d', uo)" by simp
    show ?thesis by (rule enroll_rows_ok [OF er adm assms])
  qed
  with Inr r show ?thesis by (simp add: auto_add_user_def)
qed

text \<open>
  Enrollment keeps the registry's invariants on every branch, failed ones included: keys and
  normalized unique indexes, foreign keys, and that every stored default tenant is an enabled
  membership of its user.
\<close>

theorem enroll_keeps_registry:
  assumes "registry_ok L d"
  shows "registry_ok L (fst (auto_add_user L flt nid email name dmn slug provider authorize d))"
  using assms by (rule auto_add_user_ok)

text \<open>
  Enrollment is idempotent: after a successful enrollment of a normalized address its user is
  enabled and a member of the tenant, and any further enrollment of the same address into the
  same tenant, whatever its name, provider, policy or faults, leaves the registry, its revision
  and its audit log exactly as they are.
\<close>

theorem enroll_idempotent:
  assumes "auto_add_user L flt nid email name dmn slug provider authorize d = (d', Inr uo)"
    and "norm_email L email = email"
  shows "(\<exists>u. uo = Some u \<and> u_enabled u \<and> slug \<in> set (u_slugs u)) \<and>
     fst (auto_add_user L flt' nid' email name' dmn' slug provider' authorize' d') = d'"
proof -
  from assms(1) have tx: "auto_add_tx L flt nid email name dmn slug provider authorize d = Inr (d', uo)"
    by (auto simp: auto_add_user_def split: sum.splits)
  obtain u where u: "uo = Some u" "u_enabled u" "slug \<in> set (u_slugs u)"
      "get_user_with_tenants L d' email = Inr (Some u)"
    using auto_add_tx_member [OF tx assms(2)] by auto
  have "d'' = d'" if again:
    "auto_add_tx L flt' nid' email name' dmn' slug provider' authorize' d' = Inr (d'', uo')" for d'' uo'
  proof -
    obtain t user where "admitted L d' email dmn' slug provider' authorize' t user"
      "(member_has user slug \<and> d'' = d' \<and> uo' = user) \<or>
       (\<not> member_has user slug \<and> enroll_rows L flt' nid' email name' slug t user d' = Inr (d'', uo'))"
      by (rule auto_add_tx_cases [OF again])
    with u(3,4) show ?thesis by (auto simp: admitted_def member_has_def)
  qed
  then have "fst (auto_add_user L flt' nid' email name' dmn' slug provider' authorize' d') = d'"
    by (auto simp: auto_add_user_def split: sum.splits)
  with u show ?thesis by blast
qed

subsection \<open>A worked enrollment\<close>

definition demo_db :: mtdb where
  "demo_db = \<lparr>db_tenants = [\<lparr>tn_id = ''T1'', tn_slug = ''acme'', tn_name = ''Acme'',
       tn_enabled = True, tn_meta = None\<rparr>],
     db_users = [], db_members = [],
     db_domains = [\<lparr>dm_slug = ''acme'', dm_domain = ''acme.com''\<rparr>],
     db_config = [\<lparr>cf_slug = ''acme'', cf_key = ''auth:auto_add'', cf_value = Some [chr 195]\<rparr>,
       \<lparr>cf_slug = ''acme'', cf_key = ''auth:checks:google'',
        cf_value = small_encode (VMap [(''hd'', VStr ''acme.com'')])\<rparr>],
     db_revision = 7, db_audit = []\<rparr>"

definition demo_enroll :: "mtdb \<times> (err + muser option)" where
  "demo_enroll = auto_add_user demo_lib (\<lambda>_. None) ''U1'' ''a@acme.com'' ''Ann'' ''acme.com''
     ''acme'' ''google'' (\<lambda>_ _. True) demo_db"

lemma demo_enroll_runs:
  "demo_enroll = (fst demo_enroll, Inr (Some \<lparr>u_id = ''U1'', u_email = ''a@acme.com'', u_name = ''Ann'',
     u_enabled = True, u_default = ''acme'', u_slugs = [''acme''], u_names = [''Acme''],
     u_logos = [[]], u_dws = [[]], u_checks = [(''acme'', [])]\<rparr>))"
  by code_simp

lemma demo_db_ok: "registry_ok demo_lib demo_db"
  by code_simp

theorem enroll_effect_witness:
  "\<exists>t user. admitted demo_lib demo_db ''a@acme.com'' ''acme.com'' ''acme'' ''google'' (\<lambda>_ _. True) t user"
  using enroll_effect [OF demo_enroll_runs [unfolded demo_enroll_def]] by blast

theorem enroll_keeps_registry_witness: "registry_ok demo_lib (fst demo_enroll)"
  unfolding demo_enroll_def by (rule enroll_keeps_registry [OF demo_db_ok])

theorem enroll_idempotent_witness:
  "fst (auto_add_user demo_lib (\<lambda>_. None) ''U2'' ''a@acme.com'' ''Ann'' ''acme.com'' ''acme'' ''google''
     (\<lambda>_ _. True) (fst demo_enroll)) = fst demo_enroll"
proof -
  have "norm_email demo_lib ''a@acme.com'' = ''a@acme.com''" by code_simp
  from enroll_idempotent [OF demo_enroll_runs [unfolded demo_enroll_def] this] show ?thesis
    unfolding demo_enroll_def by blast
qed

end
