(* ===== verification/Resolver_Checks.thy ===== *)
theory Resolver_Checks
  imports Go_Values
begin

text \<open>
  The pure part of \<open>internal/resolver\<close>: reading claims, the tenant checks, the auto-add
  policy, and the tenant lists. Each check function is proved equivalent to a declarative
  reading of the policy, which no longer mentions the order in which Go visits a map.
\<close>

subsection \<open>Claims\<close>

definition is_user_method :: "string \<Rightarrow> bool" where
  "is_user_method m \<longleftrightarrow> m = ''oauth'' \<or> m = ''azure_entra'' \<or> m = ''session''"

definition string_claim :: "claims \<Rightarrow> string \<Rightarrow> string" where
  "string_claim claims k =
     (case map_of claims k of Some v \<Rightarrow> as_string v | None \<Rightarrow> [])"

fun first_claim :: "claims \<Rightarrow> string list \<Rightarrow> string \<Rightarrow> string" where
  "first_claim claims [] fallback = fallback"
| "first_claim claims (k # ks) fallback =
     (let e = string_claim claims k in if e \<noteq> [] then e else first_claim claims ks fallback)"

definition email_from_claims :: "claims \<Rightarrow> string \<Rightarrow> string" where
  "email_from_claims claims fallback =
     first_claim claims [''email'', ''upn'', ''preferred_username''] fallback"

definition email_domain :: "'a go_tables_scheme \<Rightarrow> string \<Rightarrow> string" where
  "email_domain T email =
     (case last_index CHR ''@'' email of None \<Rightarrow> [] | Some i \<Rightarrow> to_lower T (drop (i + 1) email))"

subsection \<open>Tenant checks\<close>

datatype reason =
    Passed
  | MissingClaim string
  | NotAString string
  | NotInSet string
  | NotEqual string
  | UnsupportedCheck string
  | MissingHostedDomain

text \<open>
  \<open>evaluateChecks\<close>: the loop over a map, in the order of the list. The reason is a value
  instead of the formatted text.
\<close>

fun evaluate_checks :: "check_map \<Rightarrow> claims \<Rightarrow> bool \<times> reason" where
  "evaluate_checks [] claims = (True, Passed)"
| "evaluate_checks ((k, want) # rest) claims =
     (case map_of claims k of
        None \<Rightarrow> (False, MissingClaim k)
      | Some got \<Rightarrow>
          (case want of
             VList opts \<Rightarrow>
               let s = as_string got in
               if s = [] then (False, NotAString k)
               else if VStr s \<in> set opts then evaluate_checks rest claims
               else (False, NotInSet k)
           | VStr w \<Rightarrow>
               if got = VStr w then evaluate_checks rest claims else (False, NotEqual k)
           | _ \<Rightarrow> (False, UnsupportedCheck k)))"

definition hosted_blank :: "claims \<Rightarrow> bool" where
  "hosted_blank claims =
     (case map_of claims ''hd'' of None \<Rightarrow> True | Some v \<Rightarrow> v = VStr [])"

definition allows_blank :: "goval \<Rightarrow> bool" where
  "allows_blank want =
     (case want of VStr s \<Rightarrow> s = [] | VList opts \<Rightarrow> VStr [] \<in> set opts | _ \<Rightarrow> False)"

definition evaluate_tenant_checks :: "string \<Rightarrow> check_map \<Rightarrow> claims \<Rightarrow> bool \<Rightarrow> bool \<times> reason" where
  "evaluate_tenant_checks provider checks claims registered =
     (case map_of checks ''hd'' of
        Some want \<Rightarrow>
          if provider = ''google'' \<and> hosted_blank claims then
            if \<not> registered \<or> \<not> allows_blank want then (False, MissingHostedDomain)
            else evaluate_checks (filter (\<lambda>(k, v). k \<noteq> ''hd'') checks) claims
          else evaluate_checks checks claims
      | None \<Rightarrow> evaluate_checks checks claims)"

text \<open>
  \<open>autoAddAllowed\<close>. The loop over the allowlist returns at the first entry that is not a
  non-empty string; \<open>found\<close> starts true for an empty list.
\<close>

fun allowlist_loop :: "string \<Rightarrow> bool \<Rightarrow> goval list \<Rightarrow> bool" where
  "allowlist_loop provider found [] = found"
| "allowlist_loop provider found (VStr s # r) =
     (if s = [] then False else allowlist_loop provider (found \<or> s = provider) r)"
| "allowlist_loop provider found (_ # r) = False"

definition allowlist_ok :: "string \<Rightarrow> goval \<Rightarrow> bool" where
  "allowlist_ok provider providers =
     (case providers of VNil \<Rightarrow> True
      | VList xs \<Rightarrow> allowlist_loop provider (xs = []) xs
      | _ \<Rightarrow> False)"

definition nil_uuid :: string where
  "nil_uuid = ''00000000-0000-0000-0000-000000000000''"

definition consumer_tenant :: string where
  "consumer_tenant = ''9188040d-6c67-4c5b-b112-36a304b66dad''"

text \<open>The \<open>switch provider\<close>: the organization claim's key, unless the provider's own test fails.\<close>

definition org_key :: "'a lib_scheme \<Rightarrow> string \<Rightarrow> claims \<Rightarrow> string option" where
  "org_key L provider claims =
     (if provider = ''google'' then
        (if map_of claims ''email_verified'' = Some (VBool True) then Some ''hd'' else None)
      else if provider = ''azure'' \<or> provider = ''entra'' \<or> provider = ''microsoft'' then
        (case uuid_parse L (string_claim claims ''tid'') of
           None \<Rightarrow> None
         | Some u \<Rightarrow> if u = nil_uuid \<or> u = consumer_tenant then None else Some ''tid'')
      else None)"

definition auto_add_allowed ::
  "'a lib_scheme \<Rightarrow> string \<Rightarrow> goval \<Rightarrow> goval \<Rightarrow> claims \<Rightarrow> bool" where
  "auto_add_allowed L provider providers raw claims =
     (if \<not> allowlist_ok provider providers then False
      else case raw of
        VMap checks \<Rightarrow>
          (case org_key L provider claims of
             None \<Rightarrow> False
           | Some key \<Rightarrow>
               if string_claim claims key = [] then False
               else if map_of checks key = None then False
               else fst (evaluate_tenant_checks provider checks claims False))
      | _ \<Rightarrow> False)"

subsection \<open>Tenant lists\<close>

record tenant_info =
  ti_slug :: string
  ti_name :: string
  ti_logo :: string
  ti_dws :: string

definition nth_or :: "string list \<Rightarrow> nat \<Rightarrow> string" where
  "nth_or xs i = (if i < length xs then xs ! i else [])"

definition arrays_to_tenants ::
  "string list \<Rightarrow> string list \<Rightarrow> string list \<Rightarrow> string list \<Rightarrow> tenant_info list" where
  "arrays_to_tenants slugs names logos dws =
     map (\<lambda>i. \<lparr>ti_slug = slugs ! i, ti_name = nth_or names i, ti_logo = nth_or logos i,
               ti_dws = nth_or dws i\<rparr>) [0..<length slugs]"

definition requested_tenant :: "'a go_tables_scheme \<Rightarrow> string option \<Rightarrow> string" where
  "requested_tenant T q =
     (case q of None \<Rightarrow> [] | Some s \<Rightarrow> to_lower T (trim_space s))"

definition has_slug :: "'a go_tables_scheme \<Rightarrow> tenant_info list \<Rightarrow> string \<Rightarrow> bool" where
  "has_slug T tenants slug = (\<exists>t \<in> set tenants. equal_fold T (ti_slug t) slug)"

definition slug_list :: "tenant_info list \<Rightarrow> string list" where
  "slug_list tenants = map ti_slug tenants"

text \<open>\<open>pkgauthproxy.TenantInfo\<close>: ID, name, logo and default workspace.\<close>

definition to_pkg_tenants :: "tenant_info list \<Rightarrow> (string \<times> string \<times> string \<times> string) list" where
  "to_pkg_tenants tenants = map (\<lambda>t. (ti_slug t, ti_name t, ti_logo t, ti_dws t)) tenants"

lemma slug_list_arrays [simp]: "slug_list (arrays_to_tenants slugs names logos dws) = slugs"
  by (simp add: slug_list_def arrays_to_tenants_def comp_def map_nth)

lemma ti_slug_arrays: "t \<in> set (arrays_to_tenants slugs names logos dws) \<Longrightarrow> ti_slug t \<in> set slugs"
  by (auto simp: arrays_to_tenants_def)

subsection \<open>Declarative reading of the checks\<close>

text \<open>One configured rule against one claim.\<close>

definition satisfies :: "goval \<Rightarrow> goval option \<Rightarrow> bool" where
  "satisfies want got =
     (\<exists>s. got = Some (VStr s) \<and>
        (want = VStr s \<or> (s \<noteq> [] \<and> (\<exists>opts. want = VList opts \<and> VStr s \<in> set opts))))"

definition all_satisfied :: "(string \<rightharpoonup> goval) \<Rightarrow> (string \<rightharpoonup> goval) \<Rightarrow> bool" where
  "all_satisfied checks claims =
     (\<forall>k want. checks k = Some want \<longrightarrow> satisfies want (claims k))"

lemma evaluate_checks_entries:
  "fst (evaluate_checks checks claims) \<longleftrightarrow>
     (\<forall>(k, want) \<in> set checks. satisfies want (map_of claims k))"
proof (induction checks claims rule: evaluate_checks.induct)
  case (2 k want rest claims)
  show ?case
  proof (cases "map_of claims k")
    case None
    then show ?thesis by (simp add: satisfies_def)
  next
    case (Some got)
    show ?thesis
    proof (cases want)
      case (VList opts)
      have "satisfies want (Some got) \<longleftrightarrow> as_string got \<noteq> [] \<and> VStr (as_string got) \<in> set opts"
        unfolding VList satisfies_def by (cases got) (auto simp: as_string_def)
      with 2(2) [OF Some VList] Some VList show ?thesis by (auto simp: Let_def)
    next
      case (VStr w)
      have "satisfies want (Some got) \<longleftrightarrow> got = VStr w"
        unfolding VStr satisfies_def by auto
      with 2(1) [OF Some VStr] Some VStr show ?thesis by auto
    qed (use Some in \<open>auto simp: satisfies_def\<close>)
  qed
qed simp

lemma evaluate_checks_iff:
  "wf_map checks \<Longrightarrow> fst (evaluate_checks checks claims) \<longleftrightarrow> all_satisfied (map_of checks) (map_of claims)"
  by (simp add: evaluate_checks_entries all_satisfied_def ball_map_of)

lemma map_of_without:
  "map_of (filter (\<lambda>(k, v). k \<noteq> x) m) = (map_of m)(x := None)"
  by (induction m) auto

lemma wf_map_filter: "wf_map m \<Longrightarrow> wf_map (filter P m)"
  by (auto simp: wf_map_def distinct_map_filter)

text \<open>
  The tenant checks with the single exemption: a registered Google member whose account has no
  hosted domain, if the tenant lists the blank domain explicitly.
\<close>

definition tenant_admits :: "string \<Rightarrow> (string \<rightharpoonup> goval) \<Rightarrow> claims \<Rightarrow> bool \<Rightarrow> bool" where
  "tenant_admits provider checks claims registered =
     (if provider = ''google'' \<and> checks ''hd'' \<noteq> None \<and> hosted_blank claims
      then registered \<and> allows_blank (the (checks ''hd'')) \<and>
           all_satisfied (checks(''hd'' := None)) (map_of claims)
      else all_satisfied checks (map_of claims))"

lemma tenant_checks_iff:
  "wf_map checks \<Longrightarrow>
     fst (evaluate_tenant_checks provider checks claims registered) \<longleftrightarrow>
     tenant_admits provider (map_of checks) claims registered"
  by (auto simp: evaluate_tenant_checks_def tenant_admits_def evaluate_checks_iff map_of_without
      wf_map_filter split: option.splits)

lemma allowlist_loop_iff:
  "allowlist_loop provider found xs \<longleftrightarrow>
     (\<forall>x \<in> set xs. \<exists>s. x = VStr s \<and> s \<noteq> []) \<and> (found \<or> VStr provider \<in> set xs)"
  by (induction provider found xs rule: allowlist_loop.induct) auto

lemma allowlist_ok_iff:
  "allowlist_ok provider providers \<longleftrightarrow> providers = VNil \<or>
     (\<exists>xs. providers = VList xs \<and> (\<forall>x \<in> set xs. \<exists>s. x = VStr s \<and> s \<noteq> []) \<and>
        (xs = [] \<or> VStr provider \<in> set xs))"
  by (cases providers) (auto simp: allowlist_ok_def allowlist_loop_iff)

lemma org_key_Some:
  "org_key L provider claims = Some key \<longleftrightarrow>
     (provider = ''google'' \<and> key = ''hd'' \<and> map_of claims ''email_verified'' = Some (VBool True)) \<or>
     (provider \<in> {''azure'', ''entra'', ''microsoft''} \<and> key = ''tid'' \<and>
      (\<exists>u. uuid_parse L (string_claim claims ''tid'') = Some u \<and> u \<noteq> nil_uuid \<and> u \<noteq> consumer_tenant))"
proof (cases "provider = ''google''")
  case False
  then show ?thesis
    by (cases "provider \<in> {''azure'', ''entra'', ''microsoft''}";
        cases "uuid_parse L (string_claim claims ''tid'')")
      (simp_all add: org_key_def conj_commute eq_commute [of key])
qed (simp add: org_key_def eq_commute [of key])

lemma string_claim_nonempty:
  "string_claim claims k \<noteq> [] \<longleftrightarrow> (\<exists>s. s \<noteq> [] \<and> map_of claims k = Some (VStr s))"
  by (auto simp: string_claim_def as_string_def split: option.splits goval.splits)

lemma string_claim_VStr: "map_of claims k = Some (VStr s) \<Longrightarrow> string_claim claims k = s"
  by (simp add: string_claim_def as_string_def)

text \<open>\<open>s\<close> is an organization's value of the provider's claim \<open>key\<close>.\<close>

definition org_claim :: "'a lib_scheme \<Rightarrow> string \<Rightarrow> claims \<Rightarrow> string \<Rightarrow> string \<Rightarrow> bool" where
  "org_claim L provider claims key s \<longleftrightarrow>
     (provider = ''google'' \<and> key = ''hd'' \<and> map_of claims ''email_verified'' = Some (VBool True)) \<or>
     (provider \<in> {''azure'', ''entra'', ''microsoft''} \<and> key = ''tid'' \<and>
      (\<exists>u. uuid_parse L s = Some u \<and> u \<noteq> nil_uuid \<and> u \<noteq> consumer_tenant))"

lemma org_claim_iff:
  "map_of claims key = Some (VStr s) \<Longrightarrow>
     org_claim L provider claims key s \<longleftrightarrow> org_key L provider claims = Some key"
proof -
  assume m: "map_of claims key = Some (VStr s)"
  have "key = ''tid'' \<Longrightarrow> string_claim claims ''tid'' = s"
    using string_claim_VStr [OF m] by simp
  then show ?thesis
    unfolding org_claim_def org_key_Some by (cases "key = ''tid''") simp_all
qed

subsection \<open>Properties\<close>

text \<open>
  C28. The tenant checks decide exactly the declarative policy: every configured rule is
  satisfied by a string claim (a string rule by equality, a list rule by membership of a
  non-empty value, any other rule by nothing), except that a registered Google member without
  a hosted domain passes the \<open>hd\<close> rule if that rule lists the blank domain. In particular the
  decision does not depend on the order in which Go visits the map.
\<close>

theorem tenant_checks_exact:
  assumes "wf_map checks" "wf_map checks'" "map_of checks' = map_of checks"
  shows "fst (evaluate_tenant_checks provider checks' claims registered) \<longleftrightarrow>
     (if provider = ''google'' \<and> map_of checks ''hd'' \<noteq> None \<and> hosted_blank claims
      then registered \<and> allows_blank (the (map_of checks ''hd'')) \<and>
           all_satisfied ((map_of checks)(''hd'' := None)) (map_of claims)
      else all_satisfied (map_of checks) (map_of claims))"
  using tenant_checks_iff [OF assms(2), of provider claims registered] assms(3)
  by (simp only: tenant_admits_def)

theorem tenant_checks_exact_witness:
  "fst (evaluate_tenant_checks ''google''
      [(''role'', VStr ''dev''), (''hd'', VList [VStr ''acme.com'', VStr []])]
      [(''role'', VStr ''dev'')] True) \<and>
   \<not> fst (evaluate_tenant_checks ''google''
      [(''role'', VStr ''dev''), (''hd'', VList [VStr ''acme.com'', VStr []])]
      [(''role'', VStr ''dev'')] False)"
  using tenant_checks_exact
    [of "[(''hd'', VList [VStr ''acme.com'', VStr []]), (''role'', VStr ''dev'')]"
        "[(''role'', VStr ''dev''), (''hd'', VList [VStr ''acme.com'', VStr []])]"
        "''google''" "[(''role'', VStr ''dev'')]"]
  by (simp add: fun_eq_iff hosted_blank_def allows_blank_def all_satisfied_def satisfies_def)

text \<open>
  C29. Enrollment needs organizational authority. \<open>autoAddAllowed\<close> accepts exactly when the
  provider allowlist is absent or a list of non-empty names that is empty or names the
  provider; the checks are a map; the provider is Google with a verified address, or a
  Microsoft name with a tenant id that is neither nil nor the consumer tenant; the organization
  claim is a non-empty string for which the tenant configured a rule; and every rule, that one
  included, is satisfied: the blank-domain exemption of registered members never applies.
\<close>

theorem auto_add_needs_organization:
  assumes "\<And>checks. raw = VMap checks \<Longrightarrow> wf_map checks"
  shows "auto_add_allowed L provider providers raw claims \<longleftrightarrow>
     (providers = VNil \<or>
       (\<exists>xs. providers = VList xs \<and> (\<forall>x \<in> set xs. \<exists>s. x = VStr s \<and> s \<noteq> []) \<and>
          (xs = [] \<or> VStr provider \<in> set xs))) \<and>
     (\<exists>checks key s. raw = VMap checks \<and> map_of claims key = Some (VStr s) \<and> s \<noteq> [] \<and>
        org_claim L provider claims key s \<and> map_of checks key \<noteq> None \<and>
        all_satisfied (map_of checks) (map_of claims))"
proof -
  have full: "fst (evaluate_tenant_checks provider checks claims False) \<longleftrightarrow>
      all_satisfied (map_of checks) (map_of claims)"
    if "raw = VMap checks" "org_key L provider claims = Some k" "map_of claims k = Some (VStr s)" "s \<noteq> []"
    for checks k s
    using that tenant_checks_iff [OF assms [OF that(1)], of provider claims False]
    by (auto simp: tenant_admits_def org_key_Some hosted_blank_def)
  have "auto_add_allowed L provider providers raw claims \<longleftrightarrow> allowlist_ok provider providers \<and>
      (\<exists>checks k s. raw = VMap checks \<and> map_of claims k = Some (VStr s) \<and> s \<noteq> [] \<and>
         org_key L provider claims = Some k \<and> map_of checks k \<noteq> None \<and>
         fst (evaluate_tenant_checks provider checks claims False))"
    by (auto simp: auto_add_allowed_def string_claim_nonempty
        split: goval.splits option.splits)
  also have "\<dots> \<longleftrightarrow> allowlist_ok provider providers \<and>
      (\<exists>checks k s. raw = VMap checks \<and> map_of claims k = Some (VStr s) \<and> s \<noteq> [] \<and>
         org_claim L provider claims k s \<and> map_of checks k \<noteq> None \<and>
         all_satisfied (map_of checks) (map_of claims))"
    using full org_claim_iff [of claims _ _ L provider] by metis
  finally show ?thesis by (simp only: allowlist_ok_iff)
qed

theorem auto_add_needs_organization_witness:
  "auto_add_allowed demo_lib ''google'' (VList [VStr ''google'']) (VMap [(''hd'', VStr ''acme.com'')])
      [(''hd'', VStr ''acme.com''), (''email_verified'', VBool True)] \<and>
   \<not> auto_add_allowed demo_lib ''google'' VNil (VMap [(''hd'', VStr ''acme.com'')])
      [(''hd'', VStr ''acme.com'')]"
  using auto_add_needs_organization
    [of "VMap [(''hd'', VStr ''acme.com'')]" demo_lib "''google''" "VList [VStr ''google'']"
      "[(''hd'', VStr ''acme.com''), (''email_verified'', VBool True)]"]
    auto_add_needs_organization
    [of "VMap [(''hd'', VStr ''acme.com'')]" demo_lib "''google''" VNil "[(''hd'', VStr ''acme.com'')]"]
  by (simp add: all_satisfied_def satisfies_def org_claim_def)

end
