(* ===== verification/Resolver.thy ===== *)
theory Resolver
  imports Cache_Contract Revision_Gate Enrollment Resolver_Checks
begin

text \<open>
  \<open>Resolver.Resolve\<close> with its caches, revision gate, automatic enrollment and per-tenant
  checks. The state is the one a \<open>Resolver\<close> value keeps: three TTL caches and the gate.

  Other requests share that state. \<open>re_world env l\<close> is whatever they did to it before the
  call labelled \<open>l\<close>, \<open>re_db env l\<close> the committed registry that call reads (each query
  sees one committed snapshot), and \<open>re_fault\<close>, \<open>re_get\<close> the failures and clock readings
  there. A label is a call site together with its cache key.
\<close>

subsection \<open>State and environment\<close>

record rstate =
  rs_users :: "muser option ttl_cache"
  rs_domains :: "mtenant option ttl_cache"
  rs_config :: "goval ttl_cache"
  rs_gate :: gate

record renv =
  re_world :: "string \<Rightarrow> rstate \<Rightarrow> rstate"
  re_db :: "string \<Rightarrow> mtdb"
  re_fault :: "string \<Rightarrow> err option"
  re_get :: "string \<Rightarrow> err get_env"
  re_now :: int
  re_started :: int
  re_tx :: faults
  re_nid :: string

definition second :: int where "second = 1000000000"

definition new_resolver :: "int \<Rightarrow> int \<Rightarrow> rstate" where
  "new_resolver cap0 ttl0 =
     (let t = (if ttl0 = 0 then 5 * 60 * second else ttl0);
          c = (if cap0 = 0 then 16384 else cap0) in
      \<lparr>rs_users = new_cache c t, rs_domains = new_cache c t, rs_config = new_cache c t,
       rs_gate = new_gate second\<rparr>)"

definition purge_all :: "rstate \<Rightarrow> rstate" where
  "purge_all st = st\<lparr>rs_users := purge (rs_users st), rs_domains := purge (rs_domains st),
                     rs_config := purge (rs_config st)\<rparr>"

text \<open>The cache loaders.\<close>

definition load_config :: "'a lib_scheme \<Rightarrow> mtdb \<Rightarrow> string \<Rightarrow> err + goval" where
  "load_config L d key =
     (case index_byte CHR '':'' key of
        None \<Rightarrow> Inl (ErrOther ''invalid cfg cache key'')
      | Some i \<Rightarrow> get_config L d (take i key) (drop (i + 1) key))"

definition cfg_key :: "string \<Rightarrow> string \<Rightarrow> string" where
  "cfg_key slug key = slug @ CHR '':'' # key"

definition checks_key :: "string \<Rightarrow> string" where
  "checks_key provider = ''auth:checks:'' @ provider"

definition user_lookup ::
  "'a lib_scheme \<Rightarrow> renv \<Rightarrow> string \<Rightarrow> rstate \<Rightarrow> rstate \<times> (err + muser option)" where
  "user_lookup L env email st0 =
     (let st = re_world env ''user'' st0;
          (c, r) = cache_get (re_get env ''user'') email
            (stmt (re_fault env) ''user'' (get_user_with_tenants L (re_db env ''user'') email))
            (rs_users st)
      in (st\<lparr>rs_users := c\<rparr>, r))"

definition domain_lookup ::
  "'a lib_scheme \<Rightarrow> renv \<Rightarrow> string \<Rightarrow> rstate \<Rightarrow> rstate \<times> (err + mtenant option)" where
  "domain_lookup L env dmn st0 =
     (let st = re_world env ''domain'' st0;
          (c, r) = cache_get (re_get env ''domain'') dmn
            (stmt (re_fault env) ''domain'' (Inr (get_tenant_by_domain L (re_db env ''domain'') dmn)))
            (rs_domains st)
      in (st\<lparr>rs_domains := c\<rparr>, r))"

text \<open>\<open>site\<close> tells the call in \<open>autoAdd\<close> from the one in \<open>applyAuthChecks\<close>.\<close>

definition config_lookup ::
  "'a lib_scheme \<Rightarrow> renv \<Rightarrow> string \<Rightarrow> string \<Rightarrow> rstate \<Rightarrow> rstate \<times> (err + goval)" where
  "config_lookup L env site key st0 =
     (let l = site @ key; st = re_world env l st0;
          (c, r) = cache_get (re_get env l) key
            (stmt (re_fault env) l (load_config L (re_db env l) key)) (rs_config st)
      in (st\<lparr>rs_config := c\<rparr>, r))"

subsection \<open>Per-tenant checks\<close>

definition provider_permits :: "string \<Rightarrow> goval \<Rightarrow> bool" where
  "provider_permits provider raw =
     (case raw of VList xs \<Rightarrow> xs = [] \<or> VStr provider \<in> set xs | _ \<Rightarrow> True)"

text \<open>\<open>providerAllowed\<close>: the verdict and whether the lookup succeeded.\<close>

definition provider_allowed ::
  "'a lib_scheme \<Rightarrow> renv \<Rightarrow> string \<Rightarrow> string \<Rightarrow> rstate \<Rightarrow> rstate \<times> bool \<times> bool" where
  "provider_allowed L env slug provider st0 =
     (case config_lookup L env ''check:'' (cfg_key slug ''auth:providers'') st0 of
        (st, Inl e) \<Rightarrow> (st, False, False)
      | (st, Inr raw) \<Rightarrow> (st, provider_permits provider raw, True))"

text \<open>Tenant rules with a membership's overrides; \<open>None\<close> is an empty override, which denies.\<close>

definition merged_checks :: "goval \<Rightarrow> check_map option \<Rightarrow> check_map option" where
  "merged_checks raw overrides =
     (let checks = (case raw of VMap m \<Rightarrow> m | _ \<Rightarrow> []) in
      case overrides of
        None \<Rightarrow> Some checks
      | Some ov \<Rightarrow> if ov = [] then None else Some (assign_all (assign_all [] checks) ov))"

definition member_passes :: "string \<Rightarrow> goval \<Rightarrow> check_map option \<Rightarrow> claims \<Rightarrow> bool" where
  "member_passes provider raw overrides claims =
     (case merged_checks raw overrides of
        None \<Rightarrow> False
      | Some checks \<Rightarrow> checks = [] \<or> fst (evaluate_tenant_checks provider checks claims True))"

type_synonym member_checks_map = "(string, (string, check_map) gomap) gomap"

definition override_of :: "member_checks_map \<Rightarrow> string \<Rightarrow> string \<Rightarrow> check_map option" where
  "override_of mc slug provider =
     (case map_of mc slug of None \<Rightarrow> None | Some m \<Rightarrow> map_of m provider)"

text \<open>One round of the loop in \<open>applyAuthChecks\<close>: whether the tenant is kept.\<close>

definition keep_tenant ::
  "'a lib_scheme \<Rightarrow> renv \<Rightarrow> string \<Rightarrow> claims \<Rightarrow> member_checks_map \<Rightarrow> tenant_info \<Rightarrow> rstate \<Rightarrow>
   rstate \<times> bool" where
  "keep_tenant L env provider claims mc t st0 =
     (case provider_allowed L env (ti_slug t) provider st0 of
        (st1, allowed, ok) \<Rightarrow>
          if \<not> ok \<or> \<not> allowed then (st1, False)
          else (case config_lookup L env ''check:'' (cfg_key (ti_slug t) (checks_key provider)) st1 of
              (st2, Inl e) \<Rightarrow> (st2, False)
            | (st2, Inr raw) \<Rightarrow>
                (st2, member_passes provider raw (override_of mc (ti_slug t) provider) claims)))"

fun check_loop ::
  "'a lib_scheme \<Rightarrow> renv \<Rightarrow> string \<Rightarrow> claims \<Rightarrow> member_checks_map \<Rightarrow> tenant_info list \<Rightarrow> rstate \<Rightarrow>
   rstate \<times> tenant_info list \<times> string list" where
  "check_loop L env provider claims mc [] st = (st, [], [])"
| "check_loop L env provider claims mc (t # ts) st =
     (case keep_tenant L env provider claims mc t st of (st1, b) \<Rightarrow>
      case check_loop L env provider claims mc ts st1 of (st2, kept, dropped) \<Rightarrow>
        if b then (st2, t # kept, dropped) else (st2, kept, ti_slug t # dropped))"

definition apply_auth_checks ::
  "'a lib_scheme \<Rightarrow> renv \<Rightarrow> tenant_info list \<Rightarrow> string \<Rightarrow> string \<Rightarrow> claims \<Rightarrow> member_checks_map \<Rightarrow>
   rstate \<Rightarrow> rstate \<times> tenant_info list \<times> string \<times> string list" where
  "apply_auth_checks L env tenants dflt provider claims mc st =
     (if provider = [] then (st, tenants, dflt, [])
      else case check_loop L env provider claims mc tenants st of (st', kept, dropped) \<Rightarrow>
        (st', kept,
         if dflt \<noteq> [] \<and> dflt \<notin> set (slug_list kept) then [] else dflt,
         dropped))"

subsection \<open>Automatic enrollment\<close>

definition display_name :: "claims \<Rightarrow> string \<Rightarrow> string" where
  "display_name claims email =
     (let n = trim_space (go_map (\<lambda>r. if is_control r then None else Some r) (string_claim claims ''name''));
          n = (if n = [] then email else n)
      in if 200 < length n then to_valid_utf8 (take 200 n) else n)"

text \<open>
  The cached policy of a tenant: whether it lets the claims enroll. \<open>Inl\<close> is a failed lookup.
\<close>

definition policy_admits ::
  "'a lib_scheme \<Rightarrow> renv \<Rightarrow> string \<Rightarrow> string \<Rightarrow> claims \<Rightarrow> rstate \<Rightarrow> rstate \<times> (err + bool)" where
  "policy_admits L env slug provider claims st1 =
     (case config_lookup L env ''add:'' (cfg_key slug ''auth:auto_add'') st1 of
        (st2, Inl e) \<Rightarrow> (st2, Inl e)
      | (st2, Inr flag) \<Rightarrow>
      if \<not> as_bool flag then (st2, Inr False)
      else case config_lookup L env ''add:'' (cfg_key slug ''auth:providers'') st2 of
        (st3, Inl e) \<Rightarrow> (st3, Inl e)
      | (st3, Inr providers) \<Rightarrow>
      case config_lookup L env ''add:'' (cfg_key slug (checks_key provider)) st3 of
        (st4, Inl e) \<Rightarrow> (st4, Inl e)
      | (st4, Inr checks) \<Rightarrow> (st4, Inr (auto_add_allowed L provider providers checks claims)))"

text \<open>The transaction, and the invalidation that follows it whatever its result.\<close>

definition enroll_call ::
  "'a lib_scheme \<Rightarrow> renv \<Rightarrow> string \<Rightarrow> string \<Rightarrow> claims \<Rightarrow> string \<Rightarrow> mtdb \<times> (err + muser option)" where
  "enroll_call L env email provider claims slug =
     auto_add_user L (re_tx env) (re_nid env) email (display_name claims email) (email_domain L email)
       slug provider (\<lambda>ps cs. auto_add_allowed L provider ps cs claims) (re_db env ''tx'')"

definition forget_user :: "renv \<Rightarrow> string \<Rightarrow> rstate \<Rightarrow> rstate" where
  "forget_user env email st0 =
     (let st = re_world env ''tx'' st0 in st\<lparr>rs_users := invalidate email (rs_users st)\<rparr>)"

text \<open>The result: the state, the registry the transaction left if one ran, and the user.\<close>

definition auto_add ::
  "'a lib_scheme \<Rightarrow> renv \<Rightarrow> muser option \<Rightarrow> string \<Rightarrow> string \<Rightarrow> string \<Rightarrow> claims \<Rightarrow> rstate \<Rightarrow>
   rstate \<times> mtdb option \<times> (err + muser option)" where
  "auto_add L env user email provider requested claims st0 =
     (if provider = [] \<or> (provider = ''google'' \<and> string_claim claims ''hd'' = []) then (st0, None, Inr user)
      else if mail_parse L email \<noteq> Some email \<or> 254 < length email then (st0, None, Inr user)
      else case domain_lookup L env (email_domain L email) st0 of
        (st1, Inl e) \<Rightarrow> (st1, None, Inl e)
      | (st1, Inr None) \<Rightarrow> (st1, None, Inr user)
      | (st1, Inr (Some t)) \<Rightarrow>
      if \<not> t_enabled t \<or> (requested \<noteq> [] \<and> requested \<noteq> t_slug t) \<or> member_has user (t_slug t)
      then (st1, None, Inr user)
      else case policy_admits L env (t_slug t) provider claims st1 of
        (st2, Inl e) \<Rightarrow> (st2, None, Inl e)
      | (st2, Inr False) \<Rightarrow> (st2, None, Inr user)
      | (st2, Inr True) \<Rightarrow>
      case enroll_call L env email provider claims (t_slug t) of
        (d', r) \<Rightarrow> (forget_user env email st2, Some d',
           case r of Inl ErrAutoAddDenied \<Rightarrow> Inr user | Inl e \<Rightarrow> Inl e | Inr enrolled \<Rightarrow> Inr enrolled))"

subsection \<open>Resolve\<close>

record rinput =
  in_method :: string
  in_id :: string
  in_type :: string
  in_claims :: claims
  in_tenant :: "string option"     \<comment> \<open>the \<open>tenant_id\<close> query value, if a request is attached\<close>

record identity =
  ri_user :: string
  ri_display :: string
  ri_principal :: string
  ri_default :: string
  ri_tenant_ids :: "string list"
  ri_tenants :: "(string \<times> string \<times> string \<times> string) list"
  ri_headers :: "(string, string) gomap"

datatype outcome = Rejected nat string string | Resolved identity

definition extra_header_names :: "string list" where
  "extra_header_names =
     [''X-Scitrera-Name'', ''X-Scitrera-User'', ''X-Scitrera-Default-Tenant'', ''X-Scitrera-Tenants'']"

definition machine_identity :: "rinput \<Rightarrow> identity" where
  "machine_identity inp =
     \<lparr>ri_user = in_id inp, ri_display = [], ri_principal = in_type inp, ri_default = [],
      ri_tenant_ids = [], ri_tenants = [],
      ri_headers = map (\<lambda>n. (n, [])) extra_header_names\<rparr>"

definition user_identity :: "string \<Rightarrow> string \<Rightarrow> string \<Rightarrow> tenant_info list \<Rightarrow> identity" where
  "user_identity email name dflt tenants =
     \<lparr>ri_user = email, ri_display = name, ri_principal = ''User'', ri_default = dflt,
      ri_tenant_ids = slug_list tenants, ri_tenants = to_pkg_tenants tenants,
      ri_headers = [(''X-Scitrera-Name'', name), (''X-Scitrera-User'', email),
        (''X-Scitrera-Default-Tenant'', dflt),
        (''X-Scitrera-Tenants'', join_with '','' (slug_list tenants))]\<rparr>"

text \<open>From the user record on.\<close>

definition admit_user ::
  "'a lib_scheme \<Rightarrow> renv \<Rightarrow> rinput \<Rightarrow> string \<Rightarrow> string \<Rightarrow> string \<Rightarrow> muser \<Rightarrow> rstate \<Rightarrow> rstate \<times> outcome" where
  "admit_user L env inp email provider requested u st =
     (case apply_auth_checks L env (arrays_to_tenants (u_slugs u) (u_names u) (u_logos u) (u_dws u))
             (u_default u) provider (in_claims inp) (u_checks u) st of
        (st', tenants, dflt, dropped) \<Rightarrow>
          (st',
           if tenants = [] then
             Rejected 401 ''auth_checks_failed'' ''no tenants survived auth_checks''
           else if requested \<noteq> [] \<and> \<not> has_slug L tenants requested then
             Rejected 403 ''tenant_not_permitted'' ''not a member of the requested tenant''
           else let dflt1 = (if requested \<noteq> [] then requested else dflt);
                    dflt2 = (if dflt1 = [] then ti_slug (hd tenants) else dflt1);
                    name = (if u_name u \<noteq> [] then u_name u else string_claim (in_claims inp) ''name'')
                in Resolved (user_identity email name dflt2 tenants)))"

definition resolve_user ::
  "'a lib_scheme \<Rightarrow> renv \<Rightarrow> rinput \<Rightarrow> rstate \<Rightarrow> rstate \<times> mtdb option \<times> (err + outcome)" where
  "resolve_user L env inp st0 =
     (let email = to_lower L (email_from_claims (in_claims inp) (in_id inp)) in
      if email = [] \<or> CHR ''@'' \<notin> set email then
        (st0, None, Inr (Rejected 401 ''missing_email'' ''no email available for MT lookup''))
      else let provider = string_claim (in_claims inp) ''provider'' in
      case user_lookup L env email st0 of
        (st1, Inl e) \<Rightarrow> (st1, None, Inl e)
      | (st1, Inr user) \<Rightarrow>
      if is_disabled user then
        (st1, None, Inr (Rejected 403 ''user_disabled'' ''user disabled in MT''))
      else let requested = requested_tenant L (in_tenant inp) in
      case (if user = None \<or> requested = [] \<or> \<not> member_has user requested
            then auto_add L env user email provider requested (in_claims inp) st1
            else (st1, None, Inr user)) of
        (st2, commit, Inl e) \<Rightarrow> (st2, commit, Inl e)
      | (st2, commit, Inr None) \<Rightarrow>
          (st2, commit, Inr (Rejected 401 ''membership_required''
             ''existing tenant membership or eligible auto-add required''))
      | (st2, commit, Inr (Some u)) \<Rightarrow>
          (case admit_user L env inp email provider requested u st2 of
             (st3, out) \<Rightarrow> (st3, commit, Inr out)))"

definition revision_load :: "renv \<Rightarrow> err + int" where
  "revision_load env = stmt (re_fault env) ''revision'' (Inr (db_revision (re_db env ''revision'')))"

definition resolve ::
  "'a lib_scheme \<Rightarrow> renv \<Rightarrow> rinput \<Rightarrow> rstate \<Rightarrow> rstate \<times> mtdb option \<times> (err + outcome)" where
  "resolve L env inp st0 =
     (if \<not> is_user_method (in_method inp) then (st0, None, Inr (Resolved (machine_identity inp)))
      else let st = re_world env ''gate'' st0 in
      case gate_check (rs_gate st) (re_now env) (re_started env) (revision_load env) of
        (g, changed, r) \<Rightarrow>
          (let st1 = (if changed then purge_all st else st)\<lparr>rs_gate := g\<rparr> in
           case r of Inl e \<Rightarrow> (st1, None, Inl e)
           | Inr _ \<Rightarrow> resolve_user L env inp st1))"

end
