(* ===== verification/Resolver_Safety.thy ===== *)
theory Resolver_Safety
  imports Resolver "HOL-Library.Multiset"
begin

text \<open>
  What an identity returned by \<open>Resolve\<close> guarantees. \<open>D\<close> is the set of committed registry
  states that the caches and queries may reflect; the revision gate bounds how old they are
  (\<open>Revision_Gate.propagation_bound\<close>). A cache is truthful for \<open>D\<close> when every entry is the
  answer to its key's query in some state of \<open>D\<close>; every operation of the resolver keeps it so.
\<close>

subsection \<open>Truthful caches\<close>

definition user_read :: "'a lib_scheme \<Rightarrow> mtdb set \<Rightarrow> string \<Rightarrow> muser option \<Rightarrow> bool" where
  "user_read L D email u = (\<exists>d \<in> D. get_user_with_tenants L d email = Inr u)"

definition domain_read :: "'a lib_scheme \<Rightarrow> mtdb set \<Rightarrow> string \<Rightarrow> mtenant option \<Rightarrow> bool" where
  "domain_read L D dmn t = (\<exists>d \<in> D. get_tenant_by_domain L d dmn = t)"

definition config_read :: "'a lib_scheme \<Rightarrow> mtdb set \<Rightarrow> string \<Rightarrow> goval \<Rightarrow> bool" where
  "config_read L D key v = (\<exists>d \<in> D. load_config L d key = Inr v)"

definition truthful :: "'a lib_scheme \<Rightarrow> mtdb set \<Rightarrow> rstate \<Rightarrow> bool" where
  "truthful L D st \<longleftrightarrow> ttl.holds (user_read L D) (rs_users st) \<and>
     ttl.holds (domain_read L D) (rs_domains st) \<and> ttl.holds (config_read L D) (rs_config st)"

text \<open>The environment reads states of \<open>D\<close> only, and other requests keep the caches truthful.\<close>

definition env_within :: "'a lib_scheme \<Rightarrow> mtdb set \<Rightarrow> renv \<Rightarrow> bool" where
  "env_within L D env \<longleftrightarrow> (\<forall>l. re_db env l \<in> D) \<and>
     (\<forall>l st. truthful L D st \<longrightarrow> truthful L D (re_world env l st))"

lemma truthful_new [simp]: "truthful L D (new_resolver c t)"
  by (simp add: truthful_def new_resolver_def Let_def)

lemma truthful_purge_all [simp]: "truthful L D (purge_all st)"
  by (simp add: truthful_def purge_all_def ttl.clear_holds)

lemma truthful_gate [simp]: "truthful L D (st\<lparr>rs_gate := g\<rparr>) = truthful L D st"
  by (simp add: truthful_def)

lemma truthful_forget:
  "truthful L D st \<Longrightarrow> truthful L D (st\<lparr>rs_users := invalidate k (rs_users st)\<rparr>)"
  by (simp add: truthful_def ttl.forget_holds)

lemma env_withinD:
  assumes "env_within L D env"
  shows "re_db env l \<in> D" "truthful L D st \<Longrightarrow> truthful L D (re_world env l st)"
  using assms by (auto simp: env_within_def)

lemma user_lookup_truthful:
  assumes "truthful L D st" "env_within L D env" "user_lookup L env email st = (st', r)"
  shows "truthful L D st'" "r = Inr u \<Longrightarrow> user_read L D email u"
proof -
  let ?s = "re_world env ''user'' st"
  let ?load = "stmt (re_fault env) ''user'' (get_user_with_tenants L (re_db env ''user'') email)"
  obtain c where g: "cache_get (re_get env ''user'') email ?load (rs_users ?s) = (c, r)"
    and st': "st' = ?s\<lparr>rs_users := c\<rparr>"
    using assms(3) by (auto simp: user_lookup_def Let_def split: prod.splits)
  have s: "truthful L D ?s" using assms env_withinD by blast
  have l: "user_read L D email v" if "?load = Inr v" for v
    using that env_withinD(1) [OF assms(2)] by (auto simp: user_read_def)
  from s have h: "ttl.holds (user_read L D) (rs_users ?s)" by (simp add: truthful_def)
  from ttl.get_holds [OF h l g] s show "truthful L D st'" "r = Inr u \<Longrightarrow> user_read L D email u"
    by (simp_all add: st' truthful_def)
qed

lemma domain_lookup_truthful:
  assumes "truthful L D st" "env_within L D env" "domain_lookup L env dmn st = (st', r)"
  shows "truthful L D st'" "r = Inr t \<Longrightarrow> domain_read L D dmn t"
proof -
  let ?s = "re_world env ''domain'' st"
  let ?load = "stmt (re_fault env) ''domain'' (Inr (get_tenant_by_domain L (re_db env ''domain'') dmn))"
  obtain c where g: "cache_get (re_get env ''domain'') dmn ?load (rs_domains ?s) = (c, r)"
    and st': "st' = ?s\<lparr>rs_domains := c\<rparr>"
    using assms(3) by (auto simp: domain_lookup_def Let_def split: prod.splits)
  have s: "truthful L D ?s" using assms env_withinD by blast
  have l: "domain_read L D dmn v" if "?load = Inr v" for v
    using that env_withinD(1) [OF assms(2)] by (auto simp: domain_read_def)
  from s have h: "ttl.holds (domain_read L D) (rs_domains ?s)" by (simp add: truthful_def)
  from ttl.get_holds [OF h l g] s show "truthful L D st'" "r = Inr t \<Longrightarrow> domain_read L D dmn t"
    by (simp_all add: st' truthful_def)
qed

lemma config_lookup_truthful:
  assumes "truthful L D st" "env_within L D env" "config_lookup L env site key st = (st', r)"
  shows "truthful L D st'" "r = Inr v \<Longrightarrow> config_read L D key v"
proof -
  let ?l = "site @ key"
  let ?s = "re_world env ?l st"
  let ?load = "stmt (re_fault env) ?l (load_config L (re_db env ?l) key)"
  obtain c where g: "cache_get (re_get env ?l) key ?load (rs_config ?s) = (c, r)"
    and st': "st' = ?s\<lparr>rs_config := c\<rparr>"
    using assms(3) by (auto simp: config_lookup_def Let_def split: prod.splits)
  have s: "truthful L D ?s" using assms env_withinD by blast
  have l: "config_read L D key v" if "?load = Inr v" for v
    using that env_withinD(1) [OF assms(2)] by (auto simp: config_read_def)
  from s have h: "ttl.holds (config_read L D) (rs_config ?s)" by (simp add: truthful_def)
  from ttl.get_holds [OF h l g] s show "truthful L D st'" "r = Inr v \<Longrightarrow> config_read L D key v"
    by (simp_all add: st' truthful_def)
qed

subsection \<open>The check loop\<close>

text \<open>What keeping a tenant means, by policy values read from states of \<open>D\<close>.\<close>

definition tenant_cleared ::
  "'a lib_scheme \<Rightarrow> mtdb set \<Rightarrow> string \<Rightarrow> claims \<Rightarrow> member_checks_map \<Rightarrow> string \<Rightarrow> bool" where
  "tenant_cleared L D provider claims mc slug \<longleftrightarrow>
     (\<exists>raw. config_read L D (cfg_key slug ''auth:providers'') raw \<and> provider_permits provider raw) \<and>
     (\<exists>raw. config_read L D (cfg_key slug (checks_key provider)) raw \<and>
        member_passes provider raw (override_of mc slug provider) claims)"

lemma keep_tenant_truthful:
  assumes "truthful L D st" "env_within L D env"
    and "keep_tenant L env provider claims mc t st = (st', b)"
  shows "truthful L D st'" "b \<Longrightarrow> tenant_cleared L D provider claims mc (ti_slug t)"
proof -
  obtain st1 r where p: "config_lookup L env ''check:'' (cfg_key (ti_slug t) ''auth:providers'') st = (st1, r)"
    by fastforce
  note t1 = config_lookup_truthful [OF assms(1,2) p]
  obtain st2 r2 where c:
    "config_lookup L env ''check:'' (cfg_key (ti_slug t) (checks_key provider)) st1 = (st2, r2)"
    by fastforce
  note t2 = config_lookup_truthful [OF t1(1) assms(2) c]
  from assms(3) p c show "truthful L D st'" "b \<Longrightarrow> tenant_cleared L D provider claims mc (ti_slug t)"
    using t1 t2 by (auto simp: keep_tenant_def provider_allowed_def tenant_cleared_def
        split: sum.splits if_splits)
qed

lemma check_loop_truthful:
  "check_loop L env provider claims mc ts st = (st', kept, dropped) \<Longrightarrow> truthful L D st \<Longrightarrow>
     env_within L D env \<Longrightarrow>
     truthful L D st' \<and> (\<forall>t \<in> set kept. t \<in> set ts \<and> tenant_cleared L D provider claims mc (ti_slug t))"
proof (induction L env provider claims mc ts st arbitrary: st' kept dropped rule: check_loop.induct)
  case (2 L env provider claims mc t ts st)
  obtain st1 b where k: "keep_tenant L env provider claims mc t st = (st1, b)" by fastforce
  obtain st2 kept' dropped' where l: "check_loop L env provider claims mc ts st1 = (st2, kept', dropped')"
    by (metis prod_cases3)
  note kt = keep_tenant_truthful [OF 2(3,4) k]
  from 2(1) [OF k [symmetric] l kt(1) 2(4)] kt(2) 2(2) k l show ?case
    by (auto split: if_splits)
qed simp

lemma check_loop_partition:
  "check_loop L env provider claims mc ts st = (st', kept, dropped) \<Longrightarrow>
     mset (map ti_slug ts) = mset (map ti_slug kept) + mset dropped"
proof (induction L env provider claims mc ts st arbitrary: st' kept dropped rule: check_loop.induct)
  case (2 L env provider claims mc t ts st)
  then show ?case by (auto split: prod.splits if_splits)
qed simp

lemma apply_auth_checks_truthful:
  assumes "apply_auth_checks L env ts dflt provider claims mc st = (st', kept, dflt', dropped)"
    and "truthful L D st" "env_within L D env"
  shows "truthful L D st'" "t \<in> set kept \<Longrightarrow> t \<in> set ts"
    "provider \<noteq> [] \<Longrightarrow> t \<in> set kept \<Longrightarrow> tenant_cleared L D provider claims mc (ti_slug t)"
    "provider \<noteq> [] \<Longrightarrow> dflt' \<noteq> [] \<Longrightarrow> dflt' \<in> set (slug_list kept)"
  using assms check_loop_truthful [OF _ assms(2,3), of provider claims mc ts]
  by (auto simp: apply_auth_checks_def split: if_splits prod.splits)

subsection \<open>Enrollment inside \<open>Resolve\<close>\<close>

lemma auto_add_tx_enabled:
  assumes tx: "auto_add_tx L flt nid email name dmn slug provider authorize d = Inr (d', Some u)"
  shows "u_enabled u" "get_user_with_tenants L d' email = Inr (Some u)"
proof -
  obtain t user where adm: "admitted L d email dmn slug provider authorize t user"
    and tail: "(member_has user slug \<and> d' = d \<and> Some u = user) \<or>
     (\<not> member_has user slug \<and> enroll_rows L flt nid email name slug t user d = Inr (d', Some u))"
    by (rule auto_add_tx_cases [OF tx])
  have a: "get_user_with_tenants L d email = Inr user" "\<not> is_disabled user"
    using adm by (auto simp: admitted_def)
  note uf = get_user_find [OF a(1)]
  have "u_enabled u \<and> get_user_with_tenants L d' email = Inr (Some u)"
  proof (cases "member_has user slug")
    case True
    with tail a show ?thesis by (auto simp: is_disabled_def)
  next
    case False
    with tail have er: "enroll_rows L flt nid email name slug t user d = Inr (d', Some u)" by simp
    show ?thesis
    proof (cases user)
      case None
      with er obtain e: "d' = enrolled_new d nid email name t slug"
        and g: "get_user_with_tenants L d' email = Inr (Some u)"
        by (auto elim: enroll_rows_new)
      from get_user_find [OF g] uf None show ?thesis
        by (auto simp: e [symmetric] g) (auto simp: e enrolled_new_def find_append_None new_user_def split: if_splits)
    next
      case (Some u0)
      note e = enroll_rows_existing [OF er [unfolded Some]]
      have "db_users d' = db_users d" by (simp add: e(1) enrolled_existing_def)
      with get_user_find [OF e(2)] uf Some a(2) e(2) show ?thesis
        by (auto simp: is_disabled_def)
    qed
  qed
  then show "u_enabled u" "get_user_with_tenants L d' email = Inr (Some u)" by blast+
qed

lemma policy_admits_truthful:
  assumes "policy_admits L env slug provider claims st = (st', r)"
    and "truthful L D st" "env_within L D env"
  shows "truthful L D st'"
proof -
  note c = config_lookup_truthful(1) [OF _ assms(3)]
  obtain s1 r1 where 1: "config_lookup L env ''add:'' (cfg_key slug ''auth:auto_add'') st = (s1, r1)"
    by fastforce
  obtain s2 r2 where 2: "config_lookup L env ''add:'' (cfg_key slug ''auth:providers'') s1 = (s2, r2)"
    by fastforce
  obtain s3 r3 where 3: "config_lookup L env ''add:'' (cfg_key slug (checks_key provider)) s2 = (s3, r3)"
    by fastforce
  have "truthful L D s1" "truthful L D s2" "truthful L D s3"
    using c [OF assms(2) 1] c [OF c [OF assms(2) 1] 2] c [OF c [OF c [OF assms(2) 1] 2] 3] by blast+
  with assms(1) show ?thesis
    by (simp add: policy_admits_def 1 2 3 split: sum.splits if_splits)
qed

lemma forget_user_truthful:
  "truthful L D st \<Longrightarrow> env_within L D env \<Longrightarrow> truthful L D (forget_user env email st)"
  by (simp add: forget_user_def Let_def truthful_forget env_withinD)

lemma auto_add_cases:
  assumes "auto_add L env user email provider requested claims st = (st', commit, r)"
    and "truthful L D st" "env_within L D env"
  shows "truthful L D st'"
    and "commit = None \<Longrightarrow> r = Inr user \<or> (\<exists>e. r = Inl e)"
    and "commit = Some d' \<Longrightarrow> mail_parse L email = Some email \<and> length email \<le> 254 \<and>
      \<not> (provider = ''google'' \<and> string_claim claims ''hd'' = []) \<and>
      (\<exists>slug q. (requested = [] \<or> slug = requested) \<and> \<not> member_has user slug \<and>
         enroll_call L env email provider claims slug = (d', q) \<and>
         (r = q \<or> q = Inl ErrAutoAddDenied \<and> r = Inr user))"
proof -
  obtain st1 r1 where d: "domain_lookup L env (email_domain L email) st = (st1, r1)" by fastforce
  note t1 = domain_lookup_truthful(1) [OF assms(2,3) d]
  have "truthful L D st' \<and> (commit = None \<longrightarrow> r = Inr user \<or> (\<exists>e. r = Inl e)) \<and>
      (\<forall>d'. commit = Some d' \<longrightarrow> mail_parse L email = Some email \<and> length email \<le> 254 \<and>
        \<not> (provider = ''google'' \<and> string_claim claims ''hd'' = []) \<and>
        (\<exists>slug q. (requested = [] \<or> slug = requested) \<and> \<not> member_has user slug \<and>
           enroll_call L env email provider claims slug = (d', q) \<and>
           (r = q \<or> q = Inl ErrAutoAddDenied \<and> r = Inr user)))"
  proof (cases "\<exists>t. r1 = Inr (Some t) \<and> t_enabled t \<and> (requested = [] \<or> requested = t_slug t) \<and>
      \<not> member_has user (t_slug t) \<and> mail_parse L email = Some email \<and> length email \<le> 254 \<and>
      \<not> (provider = ''google'' \<and> string_claim claims ''hd'' = []) \<and> provider \<noteq> []")
    case True
    then obtain t where t: "r1 = Inr (Some t)" "t_enabled t" "requested = [] \<or> requested = t_slug t"
      "\<not> member_has user (t_slug t)" "mail_parse L email = Some email" "length email \<le> 254"
      "\<not> (provider = ''google'' \<and> string_claim claims ''hd'' = [])" "provider \<noteq> []" by blast
    obtain st2 r2 where p: "policy_admits L env (t_slug t) provider claims st1 = (st2, r2)" by fastforce
    note t2 = policy_admits_truthful [OF p t1 assms(3)]
    obtain d' q where e: "enroll_call L env email provider claims (t_slug t) = (d', q)" by fastforce
    have a: "(st', commit, r) = (case r2 of Inl e \<Rightarrow> (st2, None, Inl e)
      | Inr False \<Rightarrow> (st2, None, Inr user)
      | Inr True \<Rightarrow> (forget_user env email st2, Some d',
         case q of Inl ErrAutoAddDenied \<Rightarrow> Inr user | Inl e \<Rightarrow> Inl e | Inr enrolled \<Rightarrow> Inr enrolled))"
      using assms(1) t by (auto simp: auto_add_def d p e split: sum.splits bool.splits)
    have q: "(case q of Inl ErrAutoAddDenied \<Rightarrow> Inr user | Inl e \<Rightarrow> Inl e | Inr enrolled \<Rightarrow> Inr enrolled) = q \<or>
        q = Inl ErrAutoAddDenied \<and>
        (case q of Inl ErrAutoAddDenied \<Rightarrow> Inr user | Inl e \<Rightarrow> Inl e | Inr enrolled \<Rightarrow> Inr enrolled) = Inr user"
      by (cases q) (auto split: err.splits)
    from a show ?thesis
      using t(3-8) t2 forget_user_truthful [OF t2 assms(3), of email] e q
      by (cases r2) (auto split: bool.splits)
  next
    case False
    with assms(1,2) t1 show ?thesis
      by (simp add: auto_add_def d split: if_splits sum.splits option.splits) blast+
  qed
  then show "truthful L D st'" "commit = None \<Longrightarrow> r = Inr user \<or> (\<exists>e. r = Inl e)"
    "commit = Some d' \<Longrightarrow> mail_parse L email = Some email \<and> length email \<le> 254 \<and>
      \<not> (provider = ''google'' \<and> string_claim claims ''hd'' = []) \<and>
      (\<exists>slug q. (requested = [] \<or> slug = requested) \<and> \<not> member_has user slug \<and>
         enroll_call L env email provider claims slug = (d', q) \<and>
         (r = q \<or> q = Inl ErrAutoAddDenied \<and> r = Inr user))"
    by blast+
qed

subsection \<open>The path to an identity\<close>

definition user_email :: "'a lib_scheme \<Rightarrow> rinput \<Rightarrow> string" where
  "user_email L inp = to_lower L (email_from_claims (in_claims inp) (in_id inp))"

definition user_provider :: "rinput \<Rightarrow> string" where
  "user_provider inp = string_claim (in_claims inp) ''provider''"

text \<open>After the gate: the lookup, the enrollment if there is one, and the admission.\<close>

lemma resolve_user_run:
  assumes "resolve_user L env inp st = (st', commit, r)" "truthful L D st" "env_within L D env"
  obtains (no_email) "st' = st" "commit = None" "r = Inr (Rejected 401 ''missing_email'' ''no email available for MT lookup'')"
  | (lookup_failed) e where "commit = None" "r = Inl e" "truthful L D st'"
  | (disabled) u where "commit = None" "r = Inr (Rejected 403 ''user_disabled'' ''user disabled in MT'')"
      "truthful L D st'" "user_read L D (user_email L inp) (Some u)" "\<not> u_enabled u"
  | (looked_up) st1 user st2 r2 where "truthful L D st1" "user_read L D (user_email L inp) user"
      "\<not> is_disabled user" "truthful L D st2"
      "(if user = None \<or> requested_tenant L (in_tenant inp) = [] \<or> \<not> member_has user (requested_tenant L (in_tenant inp))
        then auto_add L env user (user_email L inp) (user_provider inp) (requested_tenant L (in_tenant inp)) (in_claims inp) st1
        else (st1, None, Inr user)) = (st2, commit, r2)"
      "case r2 of Inl e \<Rightarrow> st' = st2 \<and> r = Inl e
        | Inr None \<Rightarrow> st' = st2 \<and> r = Inr (Rejected 401 ''membership_required''
             ''existing tenant membership or eligible auto-add required'')
        | Inr (Some u) \<Rightarrow> (\<exists>out. r = Inr out \<and> admit_user L env inp (user_email L inp) (user_provider inp)
             (requested_tenant L (in_tenant inp)) u st2 = (st', out))"
proof -
  let ?email = "user_email L inp" and ?req = "requested_tenant L (in_tenant inp)"
  note ru = assms(1) [unfolded resolve_user_def Let_def, folded user_email_def user_provider_def]
  show ?thesis
  proof (cases "?email = [] \<or> CHR ''@'' \<notin> set ?email")
    case True
    with ru no_email show ?thesis by simp
  next
    case False
    obtain st1 r1 where l: "user_lookup L env ?email st = (st1, r1)" by fastforce
    note t1 = user_lookup_truthful [OF assms(2,3) l]
    show ?thesis
    proof (cases r1)
      case (Inl e)
      with ru l False t1 show ?thesis by (intro lookup_failed [of e]) simp_all
    next
      case (Inr user)
      show ?thesis
      proof (cases "is_disabled user")
        case True
        then obtain u where "user = Some u" "\<not> u_enabled u"
          by (auto simp: is_disabled_def split: option.splits)
        with ru l False t1 Inr True disabled show ?thesis by simp
      next
        case enabled: False
        obtain st2 c r2 where e: "(if user = None \<or> ?req = [] \<or> \<not> member_has user ?req
            then auto_add L env user ?email (user_provider inp) ?req (in_claims inp) st1
            else (st1, None, Inr user)) = (st2, c, r2)" by (metis prod_cases3)
        have t2: "truthful L D st2"
        proof (cases "user = None \<or> ?req = [] \<or> \<not> member_has user ?req")
          case True
          from e [unfolded if_P [OF True]] show ?thesis
            by (rule auto_add_cases(1) [OF _ t1(1) assms(3)])
        next
          case False
          from e [unfolded if_not_P [OF False]] t1(1) show ?thesis by simp
        qed
        from ru have "(case r2 of Inl e \<Rightarrow> (st2, c, Inl e)
            | Inr None \<Rightarrow> (st2, c, Inr (Rejected 401 ''membership_required''
                 ''existing tenant membership or eligible auto-add required''))
            | Inr (Some u) \<Rightarrow> (case admit_user L env inp ?email (user_provider inp) ?req u st2 of
                 (st3, out) \<Rightarrow> (st3, c, Inr out))) = (st', commit, r)"
          unfolding if_not_P [OF False] l prod.case Inr sum.case if_not_P [OF enabled] e
          by (simp split: sum.splits option.splits)
        then have "c = commit" "case r2 of Inl e \<Rightarrow> st' = st2 \<and> r = Inl e
            | Inr None \<Rightarrow> st' = st2 \<and> r = Inr (Rejected 401 ''membership_required''
                 ''existing tenant membership or eligible auto-add required'')
            | Inr (Some u) \<Rightarrow> (\<exists>out. r = Inr out \<and>
                 admit_user L env inp ?email (user_provider inp) ?req u st2 = (st', out))"
          by (auto split: sum.splits option.splits prod.splits)
        with looked_up [OF t1(1) t1(2) [OF Inr] enabled t2] e show ?thesis by simp
      qed
    qed
  qed
qed

text \<open>An enrollment that ran either left the registry alone or was admitted by it.\<close>

lemma enroll_call_result:
  assumes "enroll_call L env email provider claims slug = (d', q)"
  shows "(\<exists>e. q = Inl e \<and> d' = re_db env ''tx'') \<or>
     (\<exists>uo t user. q = Inr uo \<and>
        admitted L (re_db env ''tx'') email (email_domain L email) slug provider
          (\<lambda>ps cs. auto_add_allowed L provider ps cs claims) t user \<and>
        (\<forall>u. uo = Some u \<longrightarrow> u_enabled u \<and> get_user_with_tenants L d' email = Inr (Some u)))"
proof (cases q)
  case (Inl e)
  with assms show ?thesis
    by (auto simp: enroll_call_def auto_add_user_def split: sum.splits)
next
  case (Inr uo)
  with assms have tx: "auto_add_tx L (re_tx env) (re_nid env) email (display_name claims email)
      (email_domain L email) slug provider (\<lambda>ps cs. auto_add_allowed L provider ps cs claims)
      (re_db env ''tx'') = Inr (d', uo)"
    by (auto simp: enroll_call_def auto_add_user_def split: sum.splits)
  then obtain t user where "admitted L (re_db env ''tx'') email (email_domain L email) slug provider
      (\<lambda>ps cs. auto_add_allowed L provider ps cs claims) t user"
    by (rule auto_add_tx_cases)
  moreover have "\<forall>u. uo = Some u \<longrightarrow> u_enabled u \<and> get_user_with_tenants L d' email = Inr (Some u)"
  proof (intro allI impI)
    fix u assume "uo = Some u"
    from auto_add_tx_enabled [OF tx [unfolded this]]
    show "u_enabled u \<and> get_user_with_tenants L d' email = Inr (Some u)" by blast
  qed
  ultimately show ?thesis using Inr by blast
qed

lemma looked_up_user:
  assumes run: "(if user = None \<or> req = [] \<or> \<not> member_has user req
        then auto_add L env user email provider req claims st1
        else (st1, None, Inr user)) = (st2, commit, Inr (Some u))"
    and "truthful L D st1" "env_within L D env" "user_read L D email user" "\<not> is_disabled user"
  shows "\<exists>d \<in> D \<union> set_option commit. get_user_with_tenants L d email = Inr (Some u) \<and> u_enabled u"
proof -
  have known: ?thesis if "user = Some u"
    using that assms(4,5) by (auto simp: user_read_def is_disabled_def)
  show ?thesis
  proof (cases "user = None \<or> req = [] \<or> \<not> member_has user req")
    case True
    note a = auto_add_cases [OF run [unfolded if_P [OF True]] assms(2,3)]
    show ?thesis
    proof (cases commit)
      case None
      with a(2) known show ?thesis by auto
    next
      case (Some d')
      with a(3) obtain slug q where q: "enroll_call L env email provider claims slug = (d', q)"
        "Inr (Some u) = q \<or> q = Inl ErrAutoAddDenied \<and> Inr (Some u) = Inr user" by blast
      show ?thesis
      proof (cases "q = Inr (Some u)")
        case True
        with enroll_call_result [OF q(1)] Some show ?thesis by auto
      next
        case False
        with q(2) known show ?thesis by auto
      qed
    qed
  next
    case False
    from run [unfolded if_not_P [OF False]] known show ?thesis by auto
  qed
qed

lemma admit_user_cases:
  assumes "admit_user L env inp email provider req u st = (st', Resolved i)"
    and "truthful L D st" "env_within L D env"
  obtains tenants dflt where "tenants \<noteq> []"
    "req \<noteq> [] \<Longrightarrow> has_slug L tenants req"
    "\<And>t. t \<in> set tenants \<Longrightarrow> ti_slug t \<in> set (u_slugs u)"
    "\<And>t. provider \<noteq> [] \<Longrightarrow> t \<in> set tenants \<Longrightarrow>
       tenant_cleared L D provider (in_claims inp) (u_checks u) (ti_slug t)"
    "provider \<noteq> [] \<Longrightarrow> dflt \<noteq> [] \<Longrightarrow> dflt \<in> set (slug_list tenants)"
    "provider = [] \<Longrightarrow> dflt = u_default u"
    "i = user_identity email (if u_name u \<noteq> [] then u_name u else string_claim (in_claims inp) ''name'')
       (if req \<noteq> [] then req else if dflt = [] then ti_slug (hd tenants) else dflt) tenants"
proof -
  obtain s2 kept dflt dropped where a:
    "apply_auth_checks L env (arrays_to_tenants (u_slugs u) (u_names u) (u_logos u) (u_dws u))
       (u_default u) provider (in_claims inp) (u_checks u) st = (s2, kept, dflt, dropped)"
    by (metis prod_cases4)
  note t = apply_auth_checks_truthful [OF a assms(2,3)]
  have k: "kept \<noteq> []" "req \<noteq> [] \<Longrightarrow> has_slug L kept req"
    "i = user_identity email (if u_name u \<noteq> [] then u_name u else string_claim (in_claims inp) ''name'')
       (if req \<noteq> [] then req else if dflt = [] then ti_slug (hd kept) else dflt) kept"
    using assms(1) by (auto simp: admit_user_def a Let_def split: if_splits)
  have "provider = [] \<Longrightarrow> dflt = u_default u"
    using a by (simp add: apply_auth_checks_def)
  then show ?thesis
    by (intro that [of kept dflt] k t ti_slug_arrays) (use t(2) in auto)
qed

lemma admit_user_truthful:
  assumes "admit_user L env inp email provider req u st = (st', out)"
    and "truthful L D st" "env_within L D env"
  shows "truthful L D st'"
proof -
  obtain s2 kept dflt dropped where a:
    "apply_auth_checks L env (arrays_to_tenants (u_slugs u) (u_names u) (u_logos u) (u_dws u))
       (u_default u) provider (in_claims inp) (u_checks u) st = (s2, kept, dflt, dropped)"
    by (metis prod_cases4)
  from assms(1) have "st' = s2" by (simp add: admit_user_def a)
  with apply_auth_checks_truthful(1) [OF a assms(2,3)] show ?thesis by simp
qed

subsection \<open>Properties\<close>

text \<open>A configuration key names its own tenant as long as the slug has no colon.\<close>

lemma index_byte_append:
  "c \<notin> set xs \<Longrightarrow> index_byte c (xs @ c # ys) = Some (length xs)"
  by (induction xs) auto

lemma load_config_key:
  "CHR '':'' \<notin> set slug \<Longrightarrow> load_config L d (cfg_key slug key) = get_config L d slug key"
  by (simp add: load_config_def cfg_key_def index_byte_append)

lemma tenant_cleared_policy:
  assumes "tenant_cleared L D provider claims mc slug" "CHR '':'' \<notin> set slug"
  shows "(\<exists>d \<in> D. \<exists>raw. get_config L d slug ''auth:providers'' = Inr raw \<and> provider_permits provider raw) \<and>
     (\<exists>d \<in> D. \<exists>raw. get_config L d slug (checks_key provider) = Inr raw \<and>
        member_passes provider raw (override_of mc slug provider) claims)"
  using assms unfolding tenant_cleared_def config_read_def load_config_key [OF assms(2)] by blast

lemma resolve_via_user:
  assumes "resolve L env inp st = (st', commit, r)" "is_user_method (in_method inp)"
    and "truthful L D st" "env_within L D env"
  obtains (gate_closed) e where "r = Inl e" "commit = None" "truthful L D st'"
  | (gate_open) st1 where "truthful L D st1" "resolve_user L env inp st1 = (st', commit, r)"
proof -
  let ?s = "re_world env ''gate'' st"
  obtain g changed q where c: "gate_check (rs_gate ?s) (re_now env) (re_started env) (revision_load env) = (g, changed, q)"
    by (metis prod_cases3)
  let ?s1 = "(if changed then purge_all ?s else ?s)\<lparr>rs_gate := g\<rparr>"
  have t: "truthful L D ?s1"
    using env_withinD(2) [OF assms(4,3)] by simp
  have r: "(st', commit, r) = (case q of Inl e \<Rightarrow> (?s1, None, Inl e) | Inr _ \<Rightarrow> resolve_user L env inp ?s1)"
    using assms(1,2) by (simp add: resolve_def Let_def c)
  show ?thesis
  proof (cases q)
    case (Inl e)
    with r t show ?thesis by (intro gate_closed [of e]) auto
  next
    case (Inr x)
    with r t show ?thesis by (intro gate_open [of ?s1]) auto
  qed
qed

lemma resolve_user_resolved:
  assumes run: "resolve_user L env inp st = (st', commit, Inr (Resolved i))"
    and D: "truthful L D st" "env_within L D env"
  obtains u st2 d where "truthful L D st2" "d \<in> D \<union> set_option commit"
    "get_user_with_tenants L d (user_email L inp) = Inr (Some u)" "u_enabled u"
    "admit_user L env inp (user_email L inp) (user_provider inp) (requested_tenant L (in_tenant inp)) u st2 =
       (st', Resolved i)"
proof -
  show ?thesis
  proof (rule resolve_user_run [OF run D], goal_cases)
    case (4 st1 user st2 r2)
    from 4(6) obtain u where u: "r2 = Inr (Some u)"
      "admit_user L env inp (user_email L inp) (user_provider inp) (requested_tenant L (in_tenant inp)) u st2 =
         (st', Resolved i)"
      by (auto split: sum.splits option.splits)
    from looked_up_user [OF 4(5) [unfolded u(1)] 4(1) D(2) 4(2,3)] that 4(4) u(2) show ?thesis by blast
  qed simp_all
qed

lemma resolve_user_truthful:
  assumes "resolve_user L env inp st = (st', commit, r)" "truthful L D st" "env_within L D env"
  shows "truthful L D st'"
proof (rule resolve_user_run [OF assms], goal_cases)
  case (4 st1 user st2 r2)
  from 4(4,6) show ?thesis
    by (auto split: sum.splits option.splits dest: admit_user_truthful [OF _ _ assms(3)])
qed (use assms(2) in simp_all)

lemma resolve_resolved:
  assumes run: "resolve L env inp st = (st', commit, Inr (Resolved i))" "is_user_method (in_method inp)"
    and D: "truthful L D st" "env_within L D env"
  obtains u st2 d where "truthful L D st2" "d \<in> D \<union> set_option commit"
    "get_user_with_tenants L d (user_email L inp) = Inr (Some u)" "u_enabled u"
    "admit_user L env inp (user_email L inp) (user_provider inp) (requested_tenant L (in_tenant inp)) u st2 =
       (st', Resolved i)"
proof (rule resolve_via_user [OF run D])
  fix st1 assume "truthful L D st1" "resolve_user L env inp st1 = (st', commit, Inr (Resolved i))"
  then show ?thesis by (elim resolve_user_resolved [OF _ _ D(2)] that)
qed simp

text \<open>What an admitted user record backs.\<close>

lemma admit_user_backed:
  assumes "admit_user L env inp (user_email L inp) (user_provider inp) req u st = (st', Resolved i)"
    and "truthful L D st" "env_within L D env"
  shows "ri_user i = user_email L inp \<and> ri_tenant_ids i \<noteq> [] \<and>
     (\<forall>slug \<in> set (ri_tenant_ids i). slug \<in> set (u_slugs u) \<and>
       (user_provider inp \<noteq> [] \<and> CHR '':'' \<notin> set slug \<longrightarrow>
         (\<exists>d1 \<in> D. \<exists>raw. get_config L d1 slug ''auth:providers'' = Inr raw \<and>
            provider_permits (user_provider inp) raw) \<and>
         (\<exists>d2 \<in> D. \<exists>raw. get_config L d2 slug (checks_key (user_provider inp)) = Inr raw \<and>
            member_passes (user_provider inp) raw
              (override_of (u_checks u) slug (user_provider inp)) (in_claims inp))))"
proof -
  obtain tenants where t: "tenants \<noteq> []"
    "\<And>t. t \<in> set tenants \<Longrightarrow> ti_slug t \<in> set (u_slugs u)"
    "\<And>t. user_provider inp \<noteq> [] \<Longrightarrow> t \<in> set tenants \<Longrightarrow>
       tenant_cleared L D (user_provider inp) (in_claims inp) (u_checks u) (ti_slug t)"
    "ri_user i = user_email L inp" "ri_tenant_ids i = slug_list tenants"
    by (rule admit_user_cases [OF assms]) (auto simp: user_identity_def)
  have "slug \<in> set (u_slugs u) \<and>
     (user_provider inp \<noteq> [] \<and> CHR '':'' \<notin> set slug \<longrightarrow>
       (\<exists>d1 \<in> D. \<exists>raw. get_config L d1 slug ''auth:providers'' = Inr raw \<and>
          provider_permits (user_provider inp) raw) \<and>
       (\<exists>d2 \<in> D. \<exists>raw. get_config L d2 slug (checks_key (user_provider inp)) = Inr raw \<and>
          member_passes (user_provider inp) raw
            (override_of (u_checks u) slug (user_provider inp)) (in_claims inp)))"
    if "slug \<in> set (ri_tenant_ids i)" for slug
  proof -
    from that obtain t where x: "t \<in> set tenants" "slug = ti_slug t"
      by (auto simp: t(5) slug_list_def)
    with tenant_cleared_policy [OF t(3) [OF _ x(1)]] t(2) [OF x(1)] show ?thesis by blast
  qed
  with t(1,4,5) show ?thesis by (simp add: slug_list_def)
qed


text \<open>
  C39. Which tenant the backend sees. For a tenant-scoped gate the identity is pinned to the
  requested tenant, which is one of the identity's tenants up to letter case. Otherwise the
  default is one of its tenants whenever the claims name a provider: a stored default that a
  check excluded falls back to the first tenant left. The headers repeat the identity's user,
  default tenant and comma-separated tenant list.
\<close>

theorem resolve_pins_tenant:
  assumes "resolve L env inp st = (st', commit, Inr (Resolved i))" "is_user_method (in_method inp)"
    and "truthful L D st" "env_within L D env"
  shows "(let req = requested_tenant L (in_tenant inp) in
      if req \<noteq> [] then ri_default i = req \<and> (\<exists>s \<in> set (ri_tenant_ids i). equal_fold L s req)
      else user_provider inp \<noteq> [] \<longrightarrow> ri_default i \<in> set (ri_tenant_ids i)) \<and>
     ri_principal i = ''User'' \<and>
     map_of (ri_headers i) ''X-Scitrera-User'' = Some (ri_user i) \<and>
     map_of (ri_headers i) ''X-Scitrera-Default-Tenant'' = Some (ri_default i) \<and>
     map_of (ri_headers i) ''X-Scitrera-Tenants'' = Some (join_with '','' (ri_tenant_ids i)) \<and>
     set (map fst (ri_headers i)) = set extra_header_names"
proof -
  let ?req = "requested_tenant L (in_tenant inp)"
  obtain u st2 d where u: "truthful L D st2" "d \<in> D \<union> set_option commit"
    "get_user_with_tenants L d (user_email L inp) = Inr (Some u)" "u_enabled u"
    "admit_user L env inp (user_email L inp) (user_provider inp) ?req u st2 = (st', Resolved i)"
    by (rule resolve_resolved [OF assms])
  obtain tenants dflt name where t: "tenants \<noteq> []" "?req \<noteq> [] \<Longrightarrow> has_slug L tenants ?req"
    "user_provider inp \<noteq> [] \<Longrightarrow> dflt \<noteq> [] \<Longrightarrow> dflt \<in> set (slug_list tenants)"
    "i = user_identity (user_email L inp) name
       (if ?req \<noteq> [] then ?req else if dflt = [] then ti_slug (hd tenants) else dflt) tenants"
    by (rule admit_user_cases [OF u(5,1) assms(4)]) blast
  have "ti_slug (hd tenants) \<in> set (slug_list tenants)"
    using t(1) by (simp add: slug_list_def)
  then show ?thesis
    using t(2,3) by (simp add: t(4) user_identity_def Let_def extra_header_names_def has_slug_def slug_list_def)
qed

text \<open>A request that leaves the registry changed has enrolled one admitted user.\<close>

lemma resolve_enrolls:
  assumes "resolve L env inp st = (st', Some d', r)" "is_user_method (in_method inp)"
    and "truthful L D st" "env_within L D env" "d' \<noteq> re_db env ''tx''"
  shows "let email = user_email L inp; d = re_db env ''tx'';
             req = requested_tenant L (in_tenant inp); provider = user_provider inp in
     mail_parse L email = Some email \<and>
     (provider = ''google'' \<longrightarrow> string_claim (in_claims inp) ''hd'' \<noteq> []) \<and>
     (\<exists>t user slug. admitted L d email (email_domain L email) slug provider
        (\<lambda>ps cs. auto_add_allowed L provider ps cs (in_claims inp)) t user \<and>
        (req = [] \<or> slug = req) \<and>
        d' = (case user of
          None \<Rightarrow> enrolled_new d (re_nid env) email (display_name (in_claims inp) email) t slug
        | Some u \<Rightarrow> enrolled_existing d u t slug))"
proof (rule resolve_via_user [OF assms(1-4)])
  let ?email = "user_email L inp" and ?d = "re_db env ''tx''"
  let ?req = "requested_tenant L (in_tenant inp)" and ?p = "user_provider inp"
  let ?auth = "\<lambda>ps cs. auto_add_allowed L ?p ps cs (in_claims inp)"
  fix st1 assume st1: "truthful L D st1" "resolve_user L env inp st1 = (st', Some d', r)"
  show ?thesis
  proof (rule resolve_user_run [OF st1(2,1) assms(4)], goal_cases)
    case (4 st1 user st2 r2)
    have a: "auto_add L env user ?email ?p ?req (in_claims inp) st1 = (st2, Some d', r2)"
      using 4(5) by (auto split: if_splits)
    from auto_add_cases(3) [OF a 4(1) assms(4) refl] obtain slug q where
      q: "mail_parse L ?email = Some ?email" "\<not> (?p = ''google'' \<and> string_claim (in_claims inp) ''hd'' = [])"
        "?req = [] \<or> slug = ?req" "enroll_call L env ?email ?p (in_claims inp) slug = (d', q)" by blast
    obtain uo where tx: "auto_add_tx L (re_tx env) (re_nid env) ?email (display_name (in_claims inp) ?email)
        (email_domain L ?email) slug ?p ?auth ?d = Inr (d', uo)"
      using q(4) assms(5) by (auto simp: enroll_call_def auto_add_user_def split: sum.splits)
    from auto_add_tx_effect [OF tx] obtain t u where
      "admitted L ?d ?email (email_domain L ?email) slug ?p ?auth t u"
      "d' = (case u of Some u \<Rightarrow> enrolled_existing ?d u t slug
         | None \<Rightarrow> enrolled_new ?d (re_nid env) ?email (display_name (in_claims inp) ?email) t slug)"
      using assms(5) by (auto split: if_splits)
    with q show ?thesis by (auto simp: Let_def split: option.splits)
  qed simp_all
qed simp

text \<open>
  C6. \<open>Resolve\<close> enrolls only who may enroll. If a request leaves the registry changed then, in
  the state its transaction read, its e-mail domain's tenant is enabled, has auto-add switched
  on, is the requested one if one was requested, and its provider allowlist and checks there
  accept the request's claims under \<open>autoAddAllowed\<close>; the user is not disabled; the address
  is exactly its parsed form; and a Google account has a hosted domain. The change is one
  enrollment into that tenant.
\<close>

theorem resolve_enrolls_admitted:
  assumes "resolve L env inp st = (st', Some d', r)" "is_user_method (in_method inp)"
    and "truthful L D st" "env_within L D env" "d' \<noteq> re_db env ''tx''"
  shows "let email = user_email L inp; d = re_db env ''tx'';
             req = requested_tenant L (in_tenant inp); provider = user_provider inp in
     mail_parse L email = Some email \<and>
     (provider = ''google'' \<longrightarrow> string_claim (in_claims inp) ''hd'' \<noteq> []) \<and>
     (\<exists>t user slug. admitted L d email (email_domain L email) slug provider
        (\<lambda>ps cs. auto_add_allowed L provider ps cs (in_claims inp)) t user \<and>
        (req = [] \<or> slug = req) \<and>
        d' = (case user of
          None \<Rightarrow> enrolled_new d (re_nid env) email (display_name (in_claims inp) email) t slug
        | Some u \<Rightarrow> enrolled_existing d u t slug))"
  by (rule resolve_enrolls [OF assms])

text \<open>
  A disabled user is locked out: if the user is disabled in every state the caches may
  reflect, no request in their name is granted an identity, whatever its claims, its requested
  tenant and the interleaving with other requests, and none changes the registry.
\<close>

theorem resolve_disabled_locked_out:
  assumes "\<And>d. d \<in> D \<Longrightarrow> \<exists>u. get_user_with_tenants L d (user_email L inp) = Inr (Some u) \<and> \<not> u_enabled u"
    and "is_user_method (in_method inp)" "truthful L D st" "env_within L D env"
    and "resolve L env inp st = (st', commit, r)"
  shows "r \<noteq> Inr (Resolved i) \<and> (commit = None \<or> commit = Some (re_db env ''tx''))"
proof (rule resolve_via_user [OF assms(5,2-4)])
  fix st1 assume st1: "truthful L D st1" "resolve_user L env inp st1 = (st', commit, r)"
  show ?thesis
  proof (rule resolve_user_run [OF st1(2,1) assms(4)], goal_cases)
    case (4 st1 user st2 r2)
    from 4(2) obtain d where d: "d \<in> D" "get_user_with_tenants L d (user_email L inp) = Inr user"
      by (auto simp: user_read_def)
    with assms(1) [OF d(1)] 4(3) show ?thesis by (auto simp: is_disabled_def)
  qed (use assms(1) in auto)
qed simp

text \<open>
  Fail closed. If the last successful revision probe is older than the gate's interval and
  the new probe fails, \<open>Resolve\<close> returns the error and grants a user nothing, whatever the
  caches hold; the failure is remembered, so the next user request probes again at any time.
\<close>

theorem resolve_fails_closed:
  assumes "is_user_method (in_method inp)" "revision_load env = Inl e"
    and "\<not> within_window (rs_gate (re_world env ''gate'' st)) (re_now env)"
  shows "\<exists>st'. resolve L env inp st = (st', None, Inl e) \<and> (\<forall>now. \<not> within_window (rs_gate st') now)"
  using assms by (simp add: resolve_def Let_def gate_check_def within_window_def)

text \<open>
  A machine principal passes through with its own identity, no tenant and all four
  user headers overridden by empty ones; the registry, the caches and the gate are not touched.
\<close>

theorem resolve_machine_cleared:
  assumes "\<not> is_user_method (in_method inp)"
  shows "\<exists>i. resolve L env inp st = (st, None, Inr (Resolved i)) \<and> ri_user i = in_id inp \<and>
     ri_principal i = in_type inp \<and> ri_tenant_ids i = [] \<and> ri_default i = [] \<and>
     map fst (ri_headers i) = extra_header_names \<and> (\<forall>v \<in> snd ` set (ri_headers i). v = [])"
  using assms by (auto simp: resolve_def machine_identity_def comp_def)

subsection \<open>A worked first login\<close>

definition demo_renv :: "mtdb \<Rightarrow> renv" where
  "demo_renv d = \<lparr>re_world = (\<lambda>_ st. st), re_db = (\<lambda>_. d), re_fault = (\<lambda>_. None),
     re_get = (\<lambda>_. \<lparr>ge_ctx = None, ge_now = 0, ge_now2 = 0, ge_started = 0, ge_done = None, ge_pick = 0\<rparr>),
     re_now = 0, re_started = 0, re_tx = (\<lambda>_. None), re_nid = ''U1''\<rparr>"

definition demo_input :: rinput where
  "demo_input = \<lparr>in_method = ''oauth'', in_id = [], in_type = ''User'',
     in_claims = [(''email'', VStr ''A@acme.com''), (''provider'', VStr ''google''), (''hd'', VStr ''acme.com''),
       (''email_verified'', VBool True), (''name'', VStr ''Ann'')],
     in_tenant = Some ''acme''\<rparr>"

definition demo_identity :: identity where
  "demo_identity = user_identity ''a@acme.com'' ''Ann'' ''acme''
     [\<lparr>ti_slug = ''acme'', ti_name = ''Acme'', ti_logo = [], ti_dws = []\<rparr>]"

definition demo_login :: "mtdb \<Rightarrow> rstate \<times> mtdb option \<times> (err + outcome)" where
  "demo_login d = resolve demo_lib (demo_renv d) demo_input (new_resolver 0 0)"

lemma demo_login_first:
  "demo_login demo_db = (fst (demo_login demo_db), Some (fst demo_enroll), Inr (Resolved demo_identity))"
  by code_simp

lemma demo_login_again:
  "demo_login (fst demo_enroll) =
     (fst (demo_login (fst demo_enroll)), None, Inr (Resolved demo_identity))"
  by code_simp

lemma demo_within: "env_within L {d} (demo_renv d)"
  by (simp add: env_within_def demo_renv_def)

lemma demo_method: "is_user_method (in_method demo_input)"
  by (simp add: demo_input_def is_user_method_def)


theorem resolve_pins_tenant_witness:
  "ri_default demo_identity = ''acme'' \<and>
   map_of (ri_headers demo_identity) ''X-Scitrera-Default-Tenant'' = Some ''acme''"
proof -
  have "requested_tenant demo_lib (in_tenant demo_input) = ''acme''" by code_simp
  with resolve_pins_tenant [OF demo_login_again [unfolded demo_login_def] demo_method truthful_new demo_within]
  show ?thesis by (simp add: Let_def)
qed

theorem resolve_enrolls_admitted_witness:
  "\<exists>t user slug. admitted demo_lib demo_db ''a@acme.com'' ''acme.com'' slug ''google''
     (\<lambda>ps cs. auto_add_allowed demo_lib ''google'' ps cs (in_claims demo_input)) t user \<and> slug = ''acme''"
proof -
  have "fst demo_enroll \<noteq> re_db (demo_renv demo_db) ''tx''" by code_simp
  note r = resolve_enrolls_admitted
    [OF demo_login_first [unfolded demo_login_def] demo_method truthful_new demo_within this]
  have e: "user_email demo_lib demo_input = ''a@acme.com''" "user_provider demo_input = ''google''"
    "requested_tenant demo_lib (in_tenant demo_input) = ''acme''"
    "email_domain demo_lib ''a@acme.com'' = ''acme.com''" by code_simp+
  have d: "re_db (demo_renv demo_db) ''tx'' = demo_db" by (simp add: demo_renv_def)
  from r show ?thesis unfolding Let_def e d by blast
qed

definition demo_disabled_db :: mtdb where
  "demo_disabled_db = demo_db\<lparr>db_users := [\<lparr>us_id = ''U9'', us_email = ''a@acme.com'', us_name = ''Ann'',
     us_enabled = False, us_default = None\<rparr>]\<rparr>"

theorem resolve_disabled_locked_out_witness:
  "snd (snd (demo_login demo_disabled_db)) \<noteq> Inr (Resolved demo_identity)"
proof -
  have "case get_user_with_tenants demo_lib demo_disabled_db (user_email demo_lib demo_input) of
      Inr (Some u) \<Rightarrow> \<not> u_enabled u | _ \<Rightarrow> False" by code_simp
  then have u: "\<exists>u. get_user_with_tenants demo_lib d (user_email demo_lib demo_input) = Inr (Some u) \<and>
      \<not> u_enabled u" if "d \<in> {demo_disabled_db}" for d
    using that by (auto split: sum.splits option.splits)
  show ?thesis
    using resolve_disabled_locked_out [OF u demo_method truthful_new demo_within]
    unfolding demo_login_def by (metis prod.collapse)
qed

theorem resolve_fails_closed_witness:
  "\<exists>st'. resolve demo_lib ((demo_renv demo_db)\<lparr>re_fault := \<lambda>_. Some (ErrOther ''down'')\<rparr>) demo_input
     (new_resolver 0 0) = (st', None, Inl (ErrOther ''down''))"
  using resolve_fails_closed [OF demo_method,
      of "(demo_renv demo_db)\<lparr>re_fault := \<lambda>_. Some (ErrOther ''down'')\<rparr>" "ErrOther ''down''"
         "new_resolver 0 0" demo_lib]
  by (auto simp: revision_load_def stmt_def demo_renv_def new_resolver_def Let_def within_window_def new_gate_def)

theorem resolve_machine_cleared_witness:
  "\<exists>i. resolve demo_lib (demo_renv demo_db) (demo_input\<lparr>in_method := ''api_key'', in_id := ''K1''\<rparr>)
     (new_resolver 0 0) = (new_resolver 0 0, None, Inr (Resolved i)) \<and> ri_user i = ''K1''"
  using resolve_machine_cleared [of "demo_input\<lparr>in_method := ''api_key'', in_id := ''K1''\<rparr>"
      demo_lib "demo_renv demo_db" "new_resolver 0 0"]
  by (auto simp: is_user_method_def demo_input_def)

end
