(* ===== verification/Admin_Validation.thy ===== *)
theory Admin_Validation
  imports Go_Values
begin

text \<open>
  \<open>internal/admin/validation.go\<close> and \<open>MembershipAuth.validate\<close>: the normal forms of slugs,
  domains and addresses, and the request bodies. A \<open>validate\<close> method that rewrites its receiver
  returns the rewritten value. Maps are visited in list order; the order decides only which of
  several errors is reported. A dash in a message is ASCII here.
\<close>

subsection \<open>Patterns\<close>

definition lower_alnum :: "char \<Rightarrow> bool" where
  "lower_alnum c = (97 \<le> byte c \<and> byte c \<le> 122 \<or> 48 \<le> byte c \<and> byte c \<le> 57)"

definition ascii_alpha :: "char \<Rightarrow> bool" where
  "ascii_alpha c = (97 \<le> byte c \<and> byte c \<le> 122 \<or> 65 \<le> byte c \<and> byte c \<le> 90)"

text \<open>\<open>^[a-z0-9](?:[a-z0-9-]{0,61}[a-z0-9])?$\<close>\<close>

definition label_re :: "string \<Rightarrow> bool" where
  "label_re s = (s \<noteq> [] \<and> length s \<le> 63 \<and> lower_alnum (hd s) \<and> lower_alnum (last s) \<and>
     list_all (\<lambda>c. lower_alnum c \<or> c = CHR ''-'') s)"

text \<open>\<open>^[a-z][a-z0-9_-]{0,63}$\<close>\<close>

definition provider_re :: "string \<Rightarrow> bool" where
  "provider_re s = (s \<noteq> [] \<and> length s \<le> 64 \<and> 97 \<le> byte (hd s) \<and> byte (hd s) \<le> 122 \<and>
     list_all (\<lambda>c. lower_alnum c \<or> c = CHR ''_'' \<or> c = CHR ''-'') (tl s))"

text \<open>\<open>^[a-zA-Z][a-zA-Z0-9_.:/-]{0,127}$\<close>\<close>

definition claim_re :: "string \<Rightarrow> bool" where
  "claim_re s = (s \<noteq> [] \<and> length s \<le> 128 \<and> ascii_alpha (hd s) \<and>
     list_all (\<lambda>c. ascii_alpha c \<or> lower_alnum c \<or> c \<in> set ''_.:/-'') (tl s))"

subsection \<open>Normal forms\<close>

definition invalid :: "string \<Rightarrow> err" where
  "invalid m = ErrProblem 400 ''invalid_request'' m"

definition missing :: err where
  "missing = ErrProblem 404 ''not_found'' ''Resource not found''"

definition text_value :: "string \<Rightarrow> nat \<Rightarrow> bool" where
  "text_value s mx = (trim_space s \<noteq> [] \<and> length s \<le> mx \<and> \<not> has_control s)"

definition slug :: "'a lib_scheme \<Rightarrow> string \<Rightarrow> err + string" where
  "slug L s =
     (let s = to_lower L (trim_space s) in
      if \<not> label_re s then Inl (invalid ''Tenant slug must be a DNS label (1-63 lowercase letters, digits or hyphens)'') else Inr s)"

definition dns_domain :: "'a lib_scheme \<Rightarrow> string \<Rightarrow> err + string" where
  "dns_domain L s =
     (case idna_ascii L (trim_suffix (trim_space (to_lower L s)) ''.'') of
        None \<Rightarrow> Inl (invalid ''Enter a domain name, without a scheme, path, port or wildcard'')
      | Some a \<Rightarrow>
          if 253 < length a \<or> CHR ''.'' \<notin> set a then Inl (invalid ''Enter a domain name, without a scheme, path, port or wildcard'')
          else if \<exists>p \<in> set (split_on CHR ''.'' a). \<not> label_re p then Inl (invalid ''Invalid domain name'')
          else Inr a)"

definition email_addr :: "'a lib_scheme \<Rightarrow> string \<Rightarrow> err + string" where
  "email_addr L s =
     (let s = to_lower L (trim_space s) in
      if mail_parse L s \<noteq> Some s \<or> 254 < length s \<or>
         (\<exists>c \<in> set s. byte c = 13 \<or> byte c = 10 \<or> byte c = 9 \<or> byte c = 32)
      then Inl (invalid ''Enter a valid email address'')
      else let cut = (case last_index CHR ''@'' s of None \<Rightarrow> 0 | Some i \<Rightarrow> i + 1) in
           andthen (dns_domain L (drop cut s)) (\<lambda>d. Inr (take cut s @ d)))"

definition user_id :: "'a lib_scheme \<Rightarrow> string \<Rightarrow> err + unit" where
  "user_id L s = guard_err (uuid_parse L s = None) (invalid ''Invalid user ID'')"

subsection \<open>Request bodies\<close>

text \<open>A raw JSON message is the value it denotes.\<close>

record tenant_input =
  tin_slug :: string
  tin_name :: string
  tin_enabled :: "bool option"
  tin_meta :: "(string, goval) gomap"

fun meta_values :: "'a lib_scheme \<Rightarrow> (string, goval) gomap \<Rightarrow> err + unit" where
  "meta_values L [] = Inr ()"
| "meta_values L ((key, raw) # rest) =
     (if key \<noteq> ''logo'' \<and> key \<noteq> ''default_workspace'' then
        Inl (invalid ''Only logo and default_workspace metadata are editable'')
      else case raw of
        VNil \<Rightarrow> meta_values L rest
      | VStr val \<Rightarrow>
          if 2048 < length val \<or> has_control val then
            Inl (invalid ''Metadata values must be strings or null'')
          else if key = ''logo'' \<and> val \<noteq> [] \<and>
            (case url_parse L val of None \<Rightarrow> True
             | Some u \<Rightarrow> up_scheme u \<noteq> ''https'' \<or> up_host u = [] \<or> up_user u)
          then Inl (invalid ''Logo must be an HTTPS URL or empty'')
          else meta_values L rest
      | _ \<Rightarrow> Inl (invalid ''Metadata values must be strings or null''))"

definition tenant_validate :: "'a lib_scheme \<Rightarrow> bool \<Rightarrow> tenant_input \<Rightarrow> err + tenant_input" where
  "tenant_validate L create t =
     andthen (if create then slug L (tin_slug t)
              else if tin_slug t \<noteq> [] then Inl (invalid ''Tenant slugs are immutable'')
              else Inr (tin_slug t)) (\<lambda>s.
     let t = t\<lparr>tin_slug := s, tin_name := trim_space (tin_name t)\<rparr> in
     andthen (guard_err (\<not> text_value (tin_name t) 200 \<or> tin_enabled t = None)
       (invalid ''Name (1-200 characters) and enabled are required'')) (\<lambda>_.
     andthen (meta_values L (tin_meta t)) (\<lambda>_. Inr t)))"

record user_input =
  uin_email :: string
  uin_name :: string
  uin_enabled :: "bool option"
  uin_default :: "string option"

definition user_validate :: "'a lib_scheme \<Rightarrow> user_input \<Rightarrow> err + user_input" where
  "user_validate L u =
     andthen (email_addr L (uin_email u)) (\<lambda>e.
     let u = u\<lparr>uin_email := e, uin_name := trim_space (uin_name u)\<rparr> in
     andthen (guard_err (\<not> text_value (uin_name u) 200 \<or> uin_enabled u = None)
       (invalid ''Name (1-200 characters) and enabled are required'')) (\<lambda>_.
     case uin_default u of
       None \<Rightarrow> Inr u
     | Some dt \<Rightarrow> if dt = [] then Inr u
                  else andthen (slug L dt) (\<lambda>s. Inr (u\<lparr>uin_default := Some s\<rparr>))))"

record policy_input =
  pin_auto :: "bool option"
  pin_providers :: "string list option"
  pin_checks :: "(string, check_map) gomap"

fun providers_ok :: "string list \<Rightarrow> string list \<Rightarrow> bool" where
  "providers_ok seen [] = True"
| "providers_ok seen (v # vs) =
     (provider_re v \<and> v \<notin> set seen \<and> providers_ok (v # seen) vs)"

text \<open>The \<open>hd\<close> rule of Google: a domain or blank, or a list of those, normalized.\<close>

definition hd_option :: "'a lib_scheme \<Rightarrow> string \<Rightarrow> err + string" where
  "hd_option L s = (if s = [] then Inr [] else dns_domain L s)"

fun hd_options :: "'a lib_scheme \<Rightarrow> goval list \<Rightarrow> err + goval list" where
  "hd_options L [] = Inr []"
| "hd_options L (VStr s # r) =
     andthen (hd_option L s) (\<lambda>n. andthen (hd_options L r) (\<lambda>ns. Inr (VStr n # ns)))"
| "hd_options L (_ # r) = Inl (invalid ''Google hosted domains must be strings'')"

definition claim_option :: "goval \<Rightarrow> bool" where
  "claim_option v = (case v of VStr s \<Rightarrow> text_value s 2048 | _ \<Rightarrow> False)"

definition check_value :: "'a lib_scheme \<Rightarrow> string \<Rightarrow> string \<Rightarrow> goval \<Rightarrow> err + goval" where
  "check_value L provider key v =
     (if \<not> claim_re key then Inl (invalid ''Invalid claim name'')
      else if provider = ''google'' \<and> key = ''hd'' then
        (case v of
           VStr s \<Rightarrow> andthen (hd_option L s) (\<lambda>n. Inr (VStr n))
         | VList xs \<Rightarrow>
             if 128 < length xs then Inl (invalid ''Too many allowed hosted domains'')
             else andthen (hd_options L xs) (\<lambda>ns. Inr (VList ns))
         | _ \<Rightarrow> Inl (invalid ''Google hd must be a domain string or list; an empty string allows registered members without hd''))
      else
        (case v of
           VStr s \<Rightarrow> if text_value s 2048 then Inr v else Inl (invalid ''Claim values must be nonempty strings'')
         | VList xs \<Rightarrow>
             if 128 < length xs then Inl (invalid ''Too many allowed claim values'')
             else if list_all claim_option xs then Inr v
             else Inl (invalid ''Claim lists must contain nonempty strings'')
         | _ \<Rightarrow> Inl (invalid (''Claim '' @ key @ '' must be a string or list of strings''))))"

fun check_values :: "'a lib_scheme \<Rightarrow> string \<Rightarrow> check_map \<Rightarrow> err + check_map" where
  "check_values L provider [] = Inr []"
| "check_values L provider ((k, v) # r) =
     andthen (check_value L provider k v) (\<lambda>n.
     andthen (check_values L provider r) (\<lambda>ns. Inr ((k, n) # ns)))"

fun provider_rules :: "'a lib_scheme \<Rightarrow> (string, check_map) gomap \<Rightarrow> err + (string, check_map) gomap" where
  "provider_rules L [] = Inr []"
| "provider_rules L ((p, cs) # r) =
     (if \<not> provider_re p \<or> 64 < length cs then Inl (invalid ''Invalid provider checks'')
      else andthen (check_values L p cs) (\<lambda>n.
           andthen (provider_rules L r) (\<lambda>ns. Inr ((p, n) # ns))))"

definition policy_validate :: "'a lib_scheme \<Rightarrow> policy_input \<Rightarrow> err + policy_input" where
  "policy_validate L p =
     andthen (case pin_providers p of None \<Rightarrow> Inr ()
              | Some vs \<Rightarrow> if 64 < length vs then Inl (invalid ''Too many providers'')
                  else guard_err (\<not> providers_ok [] vs) (invalid ''Invalid or duplicate provider name'')) (\<lambda>_.
     if 64 < length (pin_checks p) then Inl (invalid ''Too many provider checks'')
     else andthen (provider_rules L (pin_checks p)) (\<lambda>cs. Inr (p\<lparr>pin_checks := cs\<rparr>)))"

text \<open>\<open>None\<close> is an absent or null \<open>checks\<close> member.\<close>

definition membership_auth_validate ::
  "'a lib_scheme \<Rightarrow> (string, check_map) gomap option \<Rightarrow> err + (string, check_map) gomap" where
  "membership_auth_validate L checks =
     (case checks of
        None \<Rightarrow> Inl (invalid ''checks must be an object; use {} to inherit tenant rules'')
      | Some m \<Rightarrow>
          if \<exists>(p, cs) \<in> set m. cs = [] then Inl (invalid ''Provider overrides must contain claim checks; omit the provider to inherit its rules'')
          else andthen (policy_validate L \<lparr>pin_auto = None, pin_providers = None, pin_checks = m\<rparr>)
                 (\<lambda>p. Inr (pin_checks p)))"

subsection \<open>Labels are canonical\<close>

lemma label_chars:
  "label_re s \<Longrightarrow> c \<in> set s \<Longrightarrow> lower_alnum c \<or> c = CHR ''-''"
  by (auto simp: label_re_def list_all_iff)

lemma label_char_facts:
  assumes "lower_alnum c \<or> c = CHR ''-''"
  shows "byte c < 128" "\<not> is_space (byte c)" "\<not> (65 \<le> byte c \<and> byte c \<le> 90)"
    "c \<noteq> CHR '':''" "c \<noteq> CHR ''/''" "c \<noteq> CHR '',''" "c \<noteq> CHR ''.''" "c \<noteq> CHR ''@''" "c \<noteq> CHR '' ''"
  using assms by (auto simp: lower_alnum_def is_space_def byte_def)

lemma trim_space_id:
  assumes "ascii s" "\<And>c. c \<in> set s \<Longrightarrow> \<not> is_space (byte c)"
  shows "trim_space s = s"
proof -
  have r: "runes s = map (\<lambda>c. (byte c, [c])) s"
    by (rule runes_ascii [OF assms(1)])
  have d: "dropWhile (is_space \<circ> fst) xs = xs" if "set xs \<subseteq> set (runes s)" for xs
    using that assms(2) by (cases xs) (auto simp: r)
  have "rev (dropWhile (is_space \<circ> fst) (rev (dropWhile (is_space \<circ> fst) (runes s)))) = runes s"
    by (simp add: d)
  then show ?thesis
    by (simp add: trim_space_def) (simp add: r comp_def)
qed

lemma label_canonical:
  assumes "label_re s"
  shows "ascii s" "trim_space s = s" "to_lower T s = s"
proof -
  have c: "lower_alnum x \<or> x = CHR ''-''" if "x \<in> set s" for x
    using label_chars [OF assms that] .
  show a: "ascii s"
    using label_char_facts(1) [OF c] by (simp add: ascii_def list_all_iff)
  show "trim_space s = s"
    by (rule trim_space_id [OF a]) (rule label_char_facts(2) [OF c])
  show "to_lower T s = s"
    by (rule to_lower_ascii_id [OF a]) (rule label_char_facts(3) [OF c])
qed

lemma slug_Inr: "slug L s = Inr x \<longleftrightarrow> x = to_lower L (trim_space s) \<and> label_re x"
  by (auto simp: slug_def Let_def)

lemma slug_label: "label_re x \<Longrightarrow> slug L x = Inr x"
  by (simp add: slug_Inr label_canonical)

lemma dns_domain_Inr:
  assumes "dns_domain L s = Inr d"
  shows "length d \<le> 253" "CHR ''.'' \<in> set d" "p \<in> set (split_on CHR ''.'' d) \<Longrightarrow> label_re p"
  using assms by (auto simp: dns_domain_def split: option.splits if_splits)

lemma split_on_chars: "x \<in> set s \<Longrightarrow> x = c \<or> (\<exists>p \<in> set (split_on c s). x \<in> set p)"
  by (induction s) (auto split: list.splits)

lemma dns_domain_chars:
  assumes "dns_domain L s = Inr d" "x \<in> set d"
  shows "lower_alnum x \<or> x = CHR ''-'' \<or> x = CHR ''.''"
  using split_on_chars [OF assms(2), of "CHR ''.''"] dns_domain_Inr(3) [OF assms(1)] label_chars by blast

lemma dns_domain_lower:
  assumes "dns_domain L s = Inr d"
  shows "to_lower T d = d" "CHR ''@'' \<notin> set d"
proof -
  have x: "byte x < 128 \<and> \<not> (65 \<le> byte x \<and> byte x \<le> 90) \<and> x \<noteq> CHR ''@''" if "x \<in> set d" for x
    using dns_domain_chars [OF assms that] label_char_facts(1,3,8) [of x]
    by (auto simp: byte_def)
  show "to_lower T d = d"
    by (rule to_lower_ascii_id) (use x in \<open>auto simp: ascii_def list_all_iff\<close>)
  show "CHR ''@'' \<notin> set d" using x by blast
qed

lemma last_index_append_cons:
  "c \<notin> set t \<Longrightarrow> last_index c (s @ c # t) = Some (length s)"
proof (induction s)
  case Nil
  then show ?case by (simp add: last_index_None [symmetric] split: option.splits)
qed simp

subsection \<open>Checks that are enforceable\<close>

definition string_check :: "goval \<Rightarrow> bool" where
  "string_check v \<longleftrightarrow> (\<exists>s. v = VStr s) \<or> (\<exists>xs. v = VList xs \<and> (\<forall>x \<in> set xs. \<exists>s. x = VStr s))"

definition blank_check :: "goval \<Rightarrow> bool" where
  "blank_check v \<longleftrightarrow> v = VStr [] \<or> (\<exists>xs. v = VList xs \<and> VStr [] \<in> set xs)"

lemma text_value_nonempty: "text_value s n \<Longrightarrow> s \<noteq> []"
  by (auto simp: text_value_def trim_space_def)

lemma claim_option_iff: "claim_option v \<longleftrightarrow> (\<exists>s. v = VStr s \<and> text_value s 2048)"
  by (cases v) (auto simp: claim_option_def)

lemma hd_options_strings: "hd_options L xs = Inr ns \<Longrightarrow> x \<in> set ns \<Longrightarrow> \<exists>s. x = VStr s"
  by (induction L xs arbitrary: ns rule: hd_options.induct) auto

lemma check_value_Inr:
  assumes "check_value L provider k v = Inr n"
  shows "claim_re k \<and> string_check n \<and> (blank_check n \<longrightarrow> provider = ''google'' \<and> k = ''hd'')"
proof (cases "provider = ''google'' \<and> k = ''hd''")
  case True
  then have "string_check n" "claim_re k"
    using assms
    by (auto simp: check_value_def string_check_def split: goval.splits if_splits dest: hd_options_strings)
  with True show ?thesis by blast
next
  case False
  have blank: "\<not> text_value [] 2048" using text_value_nonempty by blast
  show ?thesis
  proof (cases v)
    case (VList xs)
    with False assms have "claim_re k" "n = VList xs" "\<forall>x \<in> set xs. \<exists>s. x = VStr s \<and> text_value s 2048"
      by (auto simp: check_value_def list_all_iff claim_option_iff split: if_splits)
    with blank show ?thesis by (auto simp: string_check_def blank_check_def)
  qed (use False assms blank in \<open>auto simp: check_value_def string_check_def blank_check_def split: if_splits\<close>)
qed

lemma check_values_Inr:
  "check_values L provider cs = Inr ns \<Longrightarrow> (k, n) \<in> set ns \<Longrightarrow>
     claim_re k \<and> string_check n \<and> (blank_check n \<longrightarrow> provider = ''google'' \<and> k = ''hd'')"
  by (induction L provider cs arbitrary: ns rule: check_values.induct) (auto dest: check_value_Inr)

lemma check_values_keys: "check_values L provider cs = Inr ns \<Longrightarrow> map fst ns = map fst cs"
  by (induction L provider cs arbitrary: ns rule: check_values.induct) auto

lemma provider_rules_Inr:
  "provider_rules L rs = Inr ns \<Longrightarrow> (p, cs) \<in> set ns \<Longrightarrow>
     provider_re p \<and> length cs \<le> 64 \<and> (\<forall>(k, v) \<in> set cs. claim_re k \<and> string_check v \<and>
       (blank_check v \<longrightarrow> p = ''google'' \<and> k = ''hd''))"
proof (induction L rs arbitrary: ns rule: provider_rules.induct)
  case (2 L p' cs' r)
  then obtain n ns' where n: "check_values L p' cs' = Inr n" "provider_rules L r = Inr ns'"
    "ns = (p', n) # ns'" "provider_re p'" "length cs' \<le> 64"
    by (auto split: if_splits)
  have "length n = length cs'"
    using arg_cong [OF check_values_keys [OF n(1)], of length] by simp
  with 2(1) [OF _ n(2)] 2(3) n check_values_Inr [OF n(1)] show ?case by auto
qed simp

lemma provider_rules_keys: "provider_rules L rs = Inr ns \<Longrightarrow> map fst ns = map fst rs"
  by (induction L rs arbitrary: ns rule: provider_rules.induct) (auto split: if_splits)

lemma providers_ok_iff:
  "providers_ok seen vs \<longleftrightarrow> (\<forall>v \<in> set vs. provider_re v) \<and> distinct vs \<and> set seen \<inter> set vs = {}"
  by (induction seen vs rule: providers_ok.induct) auto

lemma policy_validate_Inr:
  assumes "policy_validate L p = Inr p'"
  shows "pin_auto p' = pin_auto p" "pin_providers p' = pin_providers p"
    "map fst (pin_checks p') = map fst (pin_checks p)"
    "pin_providers p = Some vs \<Longrightarrow> distinct vs \<and> (\<forall>v \<in> set vs. provider_re v)"
    "(pr, cs) \<in> set (pin_checks p') \<Longrightarrow> provider_re pr \<and> length cs \<le> 64 \<and>
       (\<forall>(k, v) \<in> set cs. claim_re k \<and> string_check v \<and> (blank_check v \<longrightarrow> pr = ''google'' \<and> k = ''hd''))"
proof -
  obtain rs where r: "provider_rules L (pin_checks p) = Inr rs" "p' = p\<lparr>pin_checks := rs\<rparr>"
    using assms by (auto simp: policy_validate_def split: if_splits)
  show "pin_auto p' = pin_auto p" "pin_providers p' = pin_providers p"
    "map fst (pin_checks p') = map fst (pin_checks p)"
    using r provider_rules_keys by auto
  show "pin_providers p = Some vs \<Longrightarrow> distinct vs \<and> (\<forall>v \<in> set vs. provider_re v)"
    using assms by (auto simp: policy_validate_def providers_ok_iff split: if_splits)
  show "(pr, cs) \<in> set (pin_checks p') \<Longrightarrow> provider_re pr \<and> length cs \<le> 64 \<and>
       (\<forall>(k, v) \<in> set cs. claim_re k \<and> string_check v \<and> (blank_check v \<longrightarrow> pr = ''google'' \<and> k = ''hd''))"
    using provider_rules_Inr [OF r(1)] r(2) by simp
qed

end
