(* ===== verification/Admin_Store.thy ===== *)
theory Admin_Store
  imports Mt_Store Admin_Validation
begin

text \<open>
  \<open>internal/admin/store.go\<close> and \<open>membership_auth.go\<close>: the transactions of the operator API on
  the registry of \<open>Mt_Store\<close>. First the single SQL statements, each of which fires the
  revision trigger before its row changes; then the Go functions composed of them; then
  \<open>Store.read\<close> and \<open>Store.write\<close>, which run one such function in a transaction.
\<close>

subsection \<open>Statements\<close>

definition insert_tenant :: "'a lib_scheme \<Rightarrow> tenant_row \<Rightarrow> mtdb \<Rightarrow> err + mtdb" where
  "insert_tenant L r d0 = andthen (bump d0) (\<lambda>d.
     if tn_id r \<in> tn_id ` set (db_tenants d) \<or> tn_slug r \<in> tn_slug ` set (db_tenants d) \<or>
        norm_slug L (tn_slug r) \<in> (norm_slug L \<circ> tn_slug) ` set (db_tenants d)
     then Inl (ErrPq ''23505'') else Inr (d\<lparr>db_tenants := db_tenants d @ [r]\<rparr>))"

text \<open>\<open>UPDATE tenants SET name, enabled, metadata WHERE slug = s\<close>; \<open>f\<close> is the metadata expression.\<close>

definition update_tenant ::
  "string \<Rightarrow> string \<Rightarrow> bool \<Rightarrow> (goval option \<Rightarrow> goval option) \<Rightarrow> mtdb \<Rightarrow> err + mtdb" where
  "update_tenant s name enabled f d0 = andthen (bump d0) (\<lambda>d.
     Inr (d\<lparr>db_tenants := map (\<lambda>t. if tn_slug t = s
        then t\<lparr>tn_name := name, tn_enabled := enabled, tn_meta := f (tn_meta t)\<rparr> else t) (db_tenants d)\<rparr>))"

text \<open>\<open>UPDATE users SET default_tenant_slug=NULL WHERE p AND default_tenant_slug = s\<close>\<close>

definition clear_default :: "(user_row \<Rightarrow> bool) \<Rightarrow> string \<Rightarrow> mtdb \<Rightarrow> err + mtdb" where
  "clear_default p s d0 = andthen (bump d0) (\<lambda>d.
     Inr (d\<lparr>db_users := map (\<lambda>u. if p u \<and> us_default u = Some s then u\<lparr>us_default := None\<rparr> else u)
        (db_users d)\<rparr>))"

definition update_user ::
  "'a lib_scheme \<Rightarrow> string \<Rightarrow> string \<Rightarrow> string \<Rightarrow> bool \<Rightarrow> string option \<Rightarrow> mtdb \<Rightarrow> err + mtdb" where
  "update_user L uid email name enabled dflt d0 = andthen (bump d0) (\<lambda>d.
     if (\<exists>u \<in> set (db_users d). us_id u = uid) \<and>
        (\<exists>u \<in> set (db_users d). us_id u \<noteq> uid \<and>
           (us_email u = email \<or> norm_email L (us_email u) = norm_email L email))
     then Inl (ErrPq ''23505'')
     else if (\<exists>u \<in> set (db_users d). us_id u = uid) \<and>
        (\<exists>s \<in> set_option dflt. s \<noteq> [] \<and> s \<notin> tn_slug ` set (db_tenants d))
     then Inl (ErrPq ''23503'')
     else Inr (d\<lparr>db_users := map (\<lambda>u. if us_id u = uid
        then u\<lparr>us_email := email, us_name := name, us_enabled := enabled,
               us_default := (case dflt of None \<Rightarrow> us_default u
                  | Some s \<Rightarrow> if s = [] then None else Some s)\<rparr>
        else u) (db_users d)\<rparr>))"

definition delete_member :: "string \<Rightarrow> string \<Rightarrow> mtdb \<Rightarrow> err + mtdb \<times> nat" where
  "delete_member uid s d0 = andthen (bump d0) (\<lambda>d.
     let hit = (\<lambda>m. mb_user m = uid \<and> (\<exists>t \<in> set (db_tenants d). tn_slug t = s \<and> mb_tenant m = tn_id t))
     in Inr (d\<lparr>db_members := filter (\<lambda>m. \<not> hit m) (db_members d)\<rparr>, length (filter hit (db_members d))))"

definition update_member_checks :: "string \<Rightarrow> string \<Rightarrow> goval \<Rightarrow> mtdb \<Rightarrow> err + mtdb \<times> nat" where
  "update_member_checks uid s v d0 = andthen (bump d0) (\<lambda>d.
     let hit = (\<lambda>m. mb_user m = uid \<and> (\<exists>t \<in> set (db_tenants d). tn_slug t = s \<and> mb_tenant m = tn_id t))
     in Inr (d\<lparr>db_members := map (\<lambda>m. if hit m then m\<lparr>mb_checks := v\<rparr> else m) (db_members d)\<rparr>,
             length (filter hit (db_members d))))"

definition insert_domain :: "'a lib_scheme \<Rightarrow> domain_row \<Rightarrow> mtdb \<Rightarrow> err + mtdb" where
  "insert_domain L r d0 = andthen (bump d0) (\<lambda>d.
     if dm_domain r \<in> dm_domain ` set (db_domains d) \<or>
        norm_domain L (dm_domain r) \<in> (norm_domain L \<circ> dm_domain) ` set (db_domains d)
     then Inl (ErrPq ''23505'')
     else if dm_slug r \<notin> tn_slug ` set (db_tenants d) then Inl (ErrPq ''23503'')
     else Inr (d\<lparr>db_domains := db_domains d @ [r]\<rparr>))"

definition delete_domain :: "'a lib_scheme \<Rightarrow> string \<Rightarrow> string \<Rightarrow> mtdb \<Rightarrow> err + mtdb \<times> nat" where
  "delete_domain L s dmn d0 = andthen (bump d0) (\<lambda>d.
     let hit = (\<lambda>r. dm_slug r = s \<and> norm_domain L (dm_domain r) = dmn)
     in Inr (d\<lparr>db_domains := filter (\<lambda>r. \<not> hit r) (db_domains d)\<rparr>, length (filter hit (db_domains d))))"

definition upsert_config :: "config_row \<Rightarrow> mtdb \<Rightarrow> err + mtdb" where
  "upsert_config r d0 = andthen (bump d0) (\<lambda>d.
     let hit = (\<lambda>c. cf_slug c = cf_slug r \<and> cf_key c = cf_key r) in
     if cf_slug r \<notin> tn_slug ` set (db_tenants d) then Inl (ErrPq ''23503'')
     else if \<exists>c \<in> set (db_config d). hit c
     then Inr (d\<lparr>db_config := map (\<lambda>c. if hit c then c\<lparr>cf_value := cf_value r\<rparr> else c) (db_config d)\<rparr>)
     else Inr (d\<lparr>db_config := db_config d @ [r]\<rparr>))"

definition delete_config :: "string \<Rightarrow> string \<Rightarrow> mtdb \<Rightarrow> err + mtdb" where
  "delete_config s k d0 = andthen (bump d0) (\<lambda>d.
     Inr (d\<lparr>db_config := filter (\<lambda>c. \<not> (cf_slug c = s \<and> cf_key c = k)) (db_config d)\<rparr>))"

text \<open>A text parameter compared with a uuid column is cast first.\<close>

definition uuid_param :: "'a lib_scheme \<Rightarrow> string \<Rightarrow> err + string" where
  "uuid_param L s = (case pg_uuid L s of None \<Rightarrow> Inl (ErrPq ''22P02'') | Some u \<Rightarrow> Inr u)"

subsection \<open>Operations of the store\<close>

definition exists_tenant :: "faults \<Rightarrow> string \<Rightarrow> mtdb \<Rightarrow> err + unit" where
  "exists_tenant flt s d = andthen (stmt flt ''exists_tenant'' (Inr ())) (\<lambda>_.
     guard_err (s \<notin> tn_slug ` set (db_tenants d)) missing)"

definition exists_user :: "faults \<Rightarrow> string \<Rightarrow> mtdb \<Rightarrow> err + unit" where
  "exists_user flt uid d = andthen (stmt flt ''exists_user'' (Inr ())) (\<lambda>_.
     guard_err (uid \<notin> us_id ` set (db_users d)) missing)"

text \<open>\<open>jsonb_strip_nulls\<close> of a flat object, and \<open>(COALESCE(m,'{}') || new) - removed\<close>.\<close>

definition strip_nulls :: "(string, goval) gomap \<Rightarrow> goval" where
  "strip_nulls m = VMap (filter (\<lambda>(k, v). v \<noteq> VNil) m)"

definition as_array :: "goval \<Rightarrow> goval list" where
  "as_array v = (case v of VList xs \<Rightarrow> xs | _ \<Rightarrow> [v])"

definition jsonb_concat :: "goval \<Rightarrow> goval \<Rightarrow> goval" where
  "jsonb_concat a b = (case (a, b) of (VMap m, VMap n) \<Rightarrow> VMap (assign_all m n)
     | _ \<Rightarrow> VList (as_array a @ as_array b))"

definition jsonb_remove :: "goval \<Rightarrow> string list \<Rightarrow> goval" where
  "jsonb_remove v ks = (case v of
       VMap m \<Rightarrow> VMap (filter (\<lambda>(k, _). k \<notin> set ks) m)
     | VList xs \<Rightarrow> VList (filter (\<lambda>x. \<forall>k \<in> set ks. x \<noteq> VStr k) xs)
     | _ \<Rightarrow> v)"

definition merged_meta :: "(string, goval) gomap \<Rightarrow> goval option \<Rightarrow> goval option" where
  "merged_meta new m =
     Some (jsonb_remove (jsonb_concat (case m of None \<Rightarrow> VMap [] | Some v \<Rightarrow> v) (VMap new))
       (map fst (filter (\<lambda>(k, v). v = VNil) new)))"

definition save_tenant ::
  "'a lib_scheme \<Rightarrow> faults \<Rightarrow> string \<Rightarrow> string \<Rightarrow> tenant_input \<Rightarrow> bool \<Rightarrow> mtdb \<Rightarrow> err + mtdb" where
  "save_tenant L flt nid target inp create d =
     andthen (if create then Inr (tin_slug inp)
              else andthen (exists_tenant flt target d) (\<lambda>_. Inr target)) (\<lambda>s.
     let enabled = (tin_enabled inp = Some True) in
     andthen (if create
       then stmt flt ''insert_tenant'' (insert_tenant L \<lparr>tn_id = nid, tn_slug = s, tn_name = tin_name inp,
              tn_enabled = enabled, tn_meta = Some (strip_nulls (tin_meta inp))\<rparr> d)
       else stmt flt ''update_tenant'' (update_tenant s (tin_name inp) enabled (merged_meta (tin_meta inp)) d)) (\<lambda>d1.
     if \<not> enabled then stmt flt ''clear_default'' (clear_default (\<lambda>_. True) s d1) else Inr d1))"

definition valid_default :: "'a lib_scheme \<Rightarrow> faults \<Rightarrow> string \<Rightarrow> string \<Rightarrow> mtdb \<Rightarrow> err + unit" where
  "valid_default L flt uid s d =
     (if s = [] then Inr ()
      else andthen (stmt flt ''valid_default'' (uuid_param L uid)) (\<lambda>u.
           guard_err (\<not> default_member d u s) (invalid ''Default tenant must be an enabled membership'')))"

definition save_user ::
  "'a lib_scheme \<Rightarrow> faults \<Rightarrow> string \<Rightarrow> user_input \<Rightarrow> bool \<Rightarrow> mtdb \<Rightarrow> err + mtdb" where
  "save_user L flt uid inp create d =
     (let enabled = (uin_enabled inp = Some True) in
      if create then
        (if \<exists>s \<in> set_option (uin_default inp). s \<noteq> [] then
           Inl (invalid ''Create the user and membership before setting a default tenant'')
         else stmt flt ''insert_user'' (insert_user L \<lparr>us_id = uid, us_email = uin_email inp,
                us_name = uin_name inp, us_enabled = enabled, us_default = None\<rparr> d))
      else
        andthen (exists_user flt uid d) (\<lambda>_.
        andthen (case uin_default inp of None \<Rightarrow> Inr () | Some s \<Rightarrow> valid_default L flt uid s d) (\<lambda>_.
        stmt flt ''update_user'' (andthen (uuid_param L uid) (\<lambda>u.
          update_user L u (uin_email inp) (uin_name inp) enabled (uin_default inp) d)))))"

definition save_membership ::
  "'a lib_scheme \<Rightarrow> faults \<Rightarrow> string \<Rightarrow> string \<Rightarrow> bool \<Rightarrow> mtdb \<Rightarrow> err + mtdb" where
  "save_membership L flt uid s remove d =
     andthen (exists_user flt uid d) (\<lambda>_.
     andthen (exists_tenant flt s d) (\<lambda>_.
     if remove then
       andthen (stmt flt ''delete_member'' (andthen (uuid_param L uid) (\<lambda>u. delete_member u s d))) (\<lambda>(d1, n).
       andthen (guard_err (n = 0) missing) (\<lambda>_.
       stmt flt ''clear_default'' (andthen (uuid_param L uid) (\<lambda>u. clear_default (\<lambda>r. us_id r = u) s d1))))
     else stmt flt ''insert_member'' (andthen (uuid_param L uid) (\<lambda>u.
       case List.find (\<lambda>t. tn_slug t = s) (db_tenants d) of
         None \<Rightarrow> bump d
       | Some t \<Rightarrow> insert_member \<lparr>mb_user = u, mb_tenant = tn_id t, mb_checks = VMap []\<rparr> d))))"

definition save_membership_auth ::
  "'a lib_scheme \<Rightarrow> faults \<Rightarrow> string \<Rightarrow> string \<Rightarrow> (string, check_map) gomap \<Rightarrow> mtdb \<Rightarrow> err + mtdb" where
  "save_membership_auth L flt uid s checks d =
     andthen (stmt flt ''update_checks'' (andthen (uuid_param L uid) (\<lambda>u.
        update_member_checks u s (VMap (map (\<lambda>(p, m). (p, VMap m)) checks)) d))) (\<lambda>(d1, n).
     andthen (guard_err (n \<noteq> 1) missing) (\<lambda>_. Inr d1))"

definition add_domain :: "'a lib_scheme \<Rightarrow> faults \<Rightarrow> string \<Rightarrow> string \<Rightarrow> mtdb \<Rightarrow> err + mtdb" where
  "add_domain L flt s dmn d =
     andthen (exists_tenant flt s d) (\<lambda>_.
     stmt flt ''insert_domain'' (insert_domain L \<lparr>dm_slug = s, dm_domain = dmn\<rparr> d))"

definition remove_domain :: "'a lib_scheme \<Rightarrow> faults \<Rightarrow> string \<Rightarrow> string \<Rightarrow> mtdb \<Rightarrow> err + mtdb" where
  "remove_domain L flt s dmn d =
     andthen (stmt flt ''delete_domain'' (delete_domain L s dmn d)) (\<lambda>(d1, n).
     andthen (guard_err (n = 0) missing) (\<lambda>_. Inr d1))"

definition put_config ::
  "'a lib_scheme \<Rightarrow> faults \<Rightarrow> string \<Rightarrow> string \<Rightarrow> goval \<Rightarrow> mtdb \<Rightarrow> err + mtdb" where
  "put_config L flt s key v d =
     (case mp_encode L v of
        None \<Rightarrow> Inl (ErrOther ''msgpack encode'')
      | Some raw \<Rightarrow> stmt flt (''put:'' @ key)
          (upsert_config \<lparr>cf_slug = s, cf_key = key, cf_value = Some raw\<rparr> d))"

fun put_checks ::
  "'a lib_scheme \<Rightarrow> faults \<Rightarrow> string \<Rightarrow> (string, check_map) gomap \<Rightarrow> mtdb \<Rightarrow> err + mtdb" where
  "put_checks L flt s [] d = Inr d"
| "put_checks L flt s ((p, checks) # r) d =
     (let key = ''auth:checks:'' @ p in
      andthen (if checks = [] then stmt flt (''delete:'' @ key) (delete_config s key d)
               else put_config L flt s key (VMap checks) d)
        (put_checks L flt s r))"

definition save_policy ::
  "'a lib_scheme \<Rightarrow> faults \<Rightarrow> string \<Rightarrow> policy_input \<Rightarrow> mtdb \<Rightarrow> err + mtdb" where
  "save_policy L flt s p d =
     andthen (exists_tenant flt s d) (\<lambda>_.
     andthen (case pin_auto p of None \<Rightarrow> Inr d
              | Some b \<Rightarrow> put_config L flt s ''auth:auto_add'' (VBool b) d) (\<lambda>d1.
     andthen (case pin_providers p of None \<Rightarrow> Inr d1
              | Some ps \<Rightarrow> put_config L flt s ''auth:providers'' (VList (map VStr ps)) d1) (\<lambda>d2.
     put_checks L flt s (pin_checks p) d2)))"

subsection \<open>Transactions\<close>

definition map_db_error :: "err \<Rightarrow> err" where
  "map_db_error e = (case e of
       ErrNoRows \<Rightarrow> missing
     | ErrPq code \<Rightarrow>
         if code = ''23505'' then ErrProblem 409 ''duplicate'' ''That normalized email, domain or tenant slug already exists''
         else if code = ''23503'' then invalid ''Referenced tenant or user does not exist''
         else if code = ''40001'' \<or> code = ''40P01'' then
           ErrProblem 409 ''revision_conflict'' ''Concurrent change. Reload and try again.''
         else e
     | _ \<Rightarrow> e)"

definition conflict :: err where
  "conflict = ErrProblem 409 ''revision_conflict'' ''Configuration changed. Reload before saving your edits.''"

definition store_write_tx ::
  "faults \<Rightarrow> int \<Rightarrow> string \<Rightarrow> string \<Rightarrow> string \<Rightarrow> string list \<Rightarrow> (mtdb \<Rightarrow> err + mtdb) \<Rightarrow> mtdb \<Rightarrow> err + mtdb \<times> int" where
  "store_write_tx flt expected actor action resource fs op d =
     andthen (stmt flt ''begin'' (Inr ())) (\<lambda>_.
     andthen (stmt flt ''lock'' (Inr (db_revision d))) (\<lambda>rv.
     andthen (guard_err (rv \<noteq> expected) conflict) (\<lambda>_.
     andthen (case op d of Inl e \<Rightarrow> Inl (map_db_error e) | Inr d1 \<Rightarrow> Inr d1) (\<lambda>d1.
     andthen (stmt flt ''revision'' (Inr (db_revision d1))) (\<lambda>rv1.
     andthen (stmt flt ''audit'' (Inr (insert_audit \<lparr>au_operator = actor, au_action = action,
        au_resource = resource, au_fields = fs, au_revision = rv1\<rparr> d1))) (\<lambda>d2.
     case stmt flt ''commit'' (Inr ()) of Inl e \<Rightarrow> Inl (map_db_error e) | Inr _ \<Rightarrow> Inr (d2, rv1)))))))"

text \<open>The committed registry and the envelope's revision or the error.\<close>

definition store_write ::
  "faults \<Rightarrow> int \<Rightarrow> string \<Rightarrow> string \<Rightarrow> string \<Rightarrow> string list \<Rightarrow> (mtdb \<Rightarrow> err + mtdb) \<Rightarrow> mtdb \<Rightarrow>
   mtdb \<times> (err + int)" where
  "store_write flt expected actor action resource fs op d =
     (case store_write_tx flt expected actor action resource fs op d of
        Inl e \<Rightarrow> (d, Inl e) | Inr (d', rv) \<Rightarrow> (d', Inr rv))"

definition store_read :: "faults \<Rightarrow> (mtdb \<Rightarrow> err + 'v) \<Rightarrow> mtdb \<Rightarrow> err + int \<times> 'v" where
  "store_read flt f d =
     andthen (stmt flt ''begin'' (Inr ())) (\<lambda>_.
     andthen (stmt flt ''revision'' (Inr (db_revision d))) (\<lambda>rv.
     andthen (f d) (\<lambda>v.
     andthen (stmt flt ''commit'' (Inr ())) (\<lambda>_. Inr (rv, v)))))"

end
