(* ===== verification/Admin_Transactions.thy ===== *)
theory Admin_Transactions
  imports Admin_Store
begin

text \<open>
  The contract of a registry mutation, as a locale: it keeps the invariants, leaves the audit
  log alone and never lowers the revision. \<open>Store.write\<close> is the client: inside the locale it
  is proved atomic, audited and safe against lost updates. Every operation of the store is
  then interpreted as a provider.
\<close>

subsection \<open>The contract and its client\<close>

locale mutation =
  fixes op :: "mtdb \<Rightarrow> err + mtdb" and inv :: "mtdb \<Rightarrow> bool"
  assumes keeps: "op d = Inr d' \<Longrightarrow> inv d \<Longrightarrow> inv d'"
    and audit_frame: "op d = Inr d' \<Longrightarrow> db_audit d' = db_audit d"
    and revision_mono: "op d = Inr d' \<Longrightarrow> db_revision d \<le> db_revision d'"
    and inv_audit: "inv (insert_audit r d) = inv d"
begin

lemma write_cases:
  assumes "store_write flt expected actor action resource fs op d = (d', r)"
  obtains (failed) e where "r = Inl e" "d' = d"
  | (committed) d1 where "r = Inr (db_revision d')" "db_revision d = expected" "op d = Inr d1"
      "d' = insert_audit \<lparr>au_operator = actor, au_action = action, au_resource = resource,
         au_fields = fs, au_revision = db_revision d1\<rparr> d1"
proof (cases "store_write_tx flt expected actor action resource fs op d")
  case (Inl e)
  with assms show ?thesis by (intro failed [of e]) (simp_all add: store_write_def)
next
  case (Inr p)
  obtain d2 rv where p: "p = (d2, rv)" by (cases p)
  from Inr [unfolded p store_write_tx_def] obtain d1 where
    "db_revision d = expected" "op d = Inr d1" "rv = db_revision d1"
    "d2 = insert_audit \<lparr>au_operator = actor, au_action = action, au_resource = resource,
       au_fields = fs, au_revision = db_revision d1\<rparr> d1"
    by (auto split: sum.splits)
  with assms Inr p show ?thesis
    by (intro committed [of d1]) (auto simp: store_write_def insert_audit_def)
qed

lemma write_keeps:
  assumes "store_write flt expected actor action resource fs op d = (d', r)" "inv d"
  shows "inv d'"
  by (rule write_cases [OF assms(1)]) (use assms(2) in \<open>simp_all add: inv_audit keeps\<close>)

lemma write_audited:
  assumes "store_write flt expected actor action resource fs op d = (d', Inr rv)"
  shows "db_revision d = expected \<and> db_revision d' = rv \<and> expected \<le> rv \<and>
     db_audit d' = db_audit d @ [\<lparr>au_operator = actor, au_action = action, au_resource = resource,
       au_fields = fs, au_revision = rv\<rparr>]"
proof (rule write_cases [OF assms])
  fix d1 assume d1: "op d = Inr d1"
  note d1
  moreover assume "Inr rv = Inr (db_revision d')" "db_revision d = expected"
    "d' = insert_audit \<lparr>au_operator = actor, au_action = action, au_resource = resource,
         au_fields = fs, au_revision = db_revision d1\<rparr> d1"
  ultimately show ?thesis
    using revision_mono [OF d1] audit_frame [OF d1] by (simp add: insert_audit_def)
qed simp

lemma write_error: "store_write flt expected actor action resource fs op d = (d', Inl e) \<Longrightarrow> d' = d"
  by (erule write_cases) auto

end

text \<open>A mutation that runs at least one statement raises the revision.\<close>

locale bumping_mutation = mutation +
  assumes bumps: "op d = Inr d' \<Longrightarrow> db_revision d < db_revision d'"
begin

text \<open>Of two writes prepared against the same revision at most one commits.\<close>

lemma second_write_conflicts:
  assumes "store_write flt expected actor action resource fs op d = (d1, Inr rv)"
    and "db_revision d1 \<le> db_revision d2"
  shows "\<exists>e. store_write flt' expected actor' action' resource' fs' op' d2 = (d2, Inl e) \<and>
     (flt' ''begin'' = None \<and> flt' ''lock'' = None \<longrightarrow> e = conflict)"
proof (rule write_cases [OF assms(1)])
  fix d1' assume o: "op d = Inr d1'" and "db_revision d = expected"
    "d1 = insert_audit \<lparr>au_operator = actor, au_action = action, au_resource = resource,
         au_fields = fs, au_revision = db_revision d1'\<rparr> d1'"
  then have "expected < db_revision d1"
    using bumps [OF o] by (simp add: insert_audit_def)
  then have n: "db_revision d2 \<noteq> expected" using assms(2) by simp
  show ?thesis
  proof (cases "flt' ''begin'' = None \<and> flt' ''lock'' = None")
    case True
    with n show ?thesis by (simp add: store_write_def store_write_tx_def stmt_def)
  next
    case False
    then obtain e where "store_write_tx flt' expected actor' action' resource' fs' op' d2 = Inl e"
      by (cases "flt' ''begin''"; cases "flt' ''lock''") (auto simp: store_write_tx_def stmt_def)
    with False show ?thesis by (auto simp: store_write_def)
  qed
qed simp

end

subsection \<open>What each statement does\<close>

lemma bump_frame: "bump d = Inr d' \<Longrightarrow> d' = d\<lparr>db_revision := db_revision d + 1\<rparr>"
  by (rule bump_Inr)

lemma insert_tenant_Inr:
  assumes "insert_tenant L r d = Inr d'"
  shows "d' = d\<lparr>db_revision := db_revision d + 1, db_tenants := db_tenants d @ [r]\<rparr>"
    "tn_id r \<notin> tn_id ` set (db_tenants d)" "tn_slug r \<notin> tn_slug ` set (db_tenants d)"
    "norm_slug L (tn_slug r) \<notin> (norm_slug L \<circ> tn_slug) ` set (db_tenants d)"
  using assms unfolding insert_tenant_def by (auto dest!: bump_frame split: if_split_asm)

lemma update_tenant_Inr:
  "update_tenant s n b f d = Inr d' \<Longrightarrow>
     d' = d\<lparr>db_revision := db_revision d + 1, db_tenants := map (\<lambda>t. if tn_slug t = s
        then t\<lparr>tn_name := n, tn_enabled := b, tn_meta := f (tn_meta t)\<rparr> else t) (db_tenants d)\<rparr>"
  unfolding update_tenant_def by (auto dest!: bump_frame)

lemma clear_default_Inr:
  "clear_default p s d = Inr d' \<Longrightarrow>
     d' = d\<lparr>db_revision := db_revision d + 1, db_users :=
        map (\<lambda>u. if p u \<and> us_default u = Some s then u\<lparr>us_default := None\<rparr> else u) (db_users d)\<rparr>"
  unfolding clear_default_def by (auto dest!: bump_frame)

lemma update_user_Inr:
  assumes "update_user L uid email name enabled dflt d = Inr d'"
  shows "d' = d\<lparr>db_revision := db_revision d + 1, db_users := map (\<lambda>u. if us_id u = uid
        then u\<lparr>us_email := email, us_name := name, us_enabled := enabled,
               us_default := (case dflt of None \<Rightarrow> us_default u
                  | Some s \<Rightarrow> if s = [] then None else Some s)\<rparr>
        else u) (db_users d)\<rparr>"
    "x \<in> set (db_users d) \<Longrightarrow> us_id x = uid \<Longrightarrow> y \<in> set (db_users d) \<Longrightarrow> us_id y \<noteq> uid \<Longrightarrow>
       us_email y \<noteq> email \<and> norm_email L (us_email y) \<noteq> norm_email L email"
    "x \<in> set (db_users d) \<Longrightarrow> us_id x = uid \<Longrightarrow> dflt = Some s \<Longrightarrow> s \<noteq> [] \<Longrightarrow> s \<in> tn_slug ` set (db_tenants d)"
  using assms unfolding update_user_def by (auto dest!: bump_frame split: if_split_asm)

lemma delete_member_Inr:
  "delete_member uid s d = Inr (d', n) \<Longrightarrow>
     d' = d\<lparr>db_revision := db_revision d + 1, db_members := filter (\<lambda>m. \<not> (mb_user m = uid \<and>
        (\<exists>t \<in> set (db_tenants d). tn_slug t = s \<and> mb_tenant m = tn_id t))) (db_members d)\<rparr>"
  unfolding delete_member_def Let_def by (auto dest!: bump_frame)

lemma update_member_checks_Inr:
  "update_member_checks uid s v d = Inr (d', n) \<Longrightarrow>
     d' = d\<lparr>db_revision := db_revision d + 1, db_members := map (\<lambda>m. if mb_user m = uid \<and>
        (\<exists>t \<in> set (db_tenants d). tn_slug t = s \<and> mb_tenant m = tn_id t)
        then m\<lparr>mb_checks := v\<rparr> else m) (db_members d)\<rparr>"
  unfolding update_member_checks_def Let_def by (auto dest!: bump_frame)

lemma insert_domain_Inr:
  assumes "insert_domain L r d = Inr d'"
  shows "d' = d\<lparr>db_revision := db_revision d + 1, db_domains := db_domains d @ [r]\<rparr>"
    "dm_domain r \<notin> dm_domain ` set (db_domains d)"
    "norm_domain L (dm_domain r) \<notin> (norm_domain L \<circ> dm_domain) ` set (db_domains d)"
    "dm_slug r \<in> tn_slug ` set (db_tenants d)"
  using assms unfolding insert_domain_def by (auto dest!: bump_frame split: if_split_asm)

lemma delete_domain_Inr:
  "delete_domain L s dmn d = Inr (d', n) \<Longrightarrow>
     d' = d\<lparr>db_revision := db_revision d + 1, db_domains := filter (\<lambda>r. \<not> (dm_slug r = s \<and>
        norm_domain L (dm_domain r) = dmn)) (db_domains d)\<rparr>"
  unfolding delete_domain_def Let_def by (auto dest!: bump_frame)

lemma upsert_config_Inr:
  assumes "upsert_config r d = Inr d'"
  shows "d' = d\<lparr>db_revision := db_revision d + 1, db_config :=
       (if \<exists>c \<in> set (db_config d). cf_slug c = cf_slug r \<and> cf_key c = cf_key r
        then map (\<lambda>c. if cf_slug c = cf_slug r \<and> cf_key c = cf_key r then c\<lparr>cf_value := cf_value r\<rparr> else c) (db_config d)
        else db_config d @ [r])\<rparr>"
    "cf_slug r \<in> tn_slug ` set (db_tenants d)"
  using assms unfolding upsert_config_def Let_def by (auto dest!: bump_frame split: if_split_asm)

lemma delete_config_Inr:
  "delete_config s k d = Inr d' \<Longrightarrow>
     d' = d\<lparr>db_revision := db_revision d + 1,
            db_config := filter (\<lambda>c. \<not> (cf_slug c = s \<and> cf_key c = k)) (db_config d)\<rparr>"
  unfolding delete_config_def by (auto dest!: bump_frame)

lemmas statement_effects = bump_frame insert_tenant_Inr(1) update_tenant_Inr clear_default_Inr
  insert_user_Inr(1) update_user_Inr(1) insert_member_Inr(1) delete_member_Inr
  update_member_checks_Inr insert_domain_Inr(1) delete_domain_Inr upsert_config_Inr(1)
  delete_config_Inr

subsection \<open>Each operation keeps the invariants\<close>

lemma stmt_InrD: "stmt flt l r = Inr x \<Longrightarrow> r = Inr x"
  by simp

lemma distinct_map_update_one:
  "distinct (map f xs) \<Longrightarrow> distinct (map k xs) \<Longrightarrow> (\<And>x. x \<in> set xs \<Longrightarrow> k x \<noteq> i \<Longrightarrow> f x \<noteq> v) \<Longrightarrow>
     distinct (map (\<lambda>x. if k x = i then v else f x) xs)"
proof (induction xs)
  case (Cons x xs)
  show ?case
  proof (cases "k x = i")
    case True
    from Cons.prems(2) have "k x \<notin> k ` set xs" by simp
    with True have other: "\<And>y. y \<in> set xs \<Longrightarrow> k y \<noteq> i" by (metis imageI)
    then have m: "map (\<lambda>x. if k x = i then v else f x) xs = map f xs" by simp
    have "v \<notin> set (map f xs)" using Cons.prems(3) other by force
    with True m Cons.prems(1) show ?thesis by (simp del: map_eq_conv)
  next
    case False
    with Cons show ?thesis by (auto simp: image_iff split: if_splits)
  qed
qed simp

lemma default_member_users [simp]:
  "default_member (d\<lparr>db_users := us\<rparr>) = default_member d"
  "default_member (d\<lparr>db_revision := r\<rparr>) = default_member d"
  "default_member (d\<lparr>db_domains := ds\<rparr>) = default_member d"
  "default_member (d\<lparr>db_config := cs\<rparr>) = default_member d"
  by (simp_all add: default_member_def fun_eq_iff)

lemma insert_tenant_ok:
  assumes "insert_tenant L r d = Inr d'" "registry_ok L d"
  shows "registry_ok L d'"
proof -
  note e = insert_tenant_Inr [OF assms(1)]
  have "keys_ok L d'" "refs_ok d'"
    using assms(2) e(2-4) by (auto simp: e(1) registry_ok_def keys_ok_def refs_ok_def)
  moreover have "default_member d uid s \<Longrightarrow> default_member d' uid s" for uid s
    by (erule default_member_mono) (auto simp: e(1))
  ultimately show ?thesis
    using assms(2) by (auto simp: registry_ok_def defaults_ok_def e(1))
qed

lemma update_tenant_keys:
  assumes "update_tenant s n b f d = Inr d'" "keys_ok L d" "refs_ok d"
  shows "keys_ok L d'" "refs_ok d'"
proof -
  note e = update_tenant_Inr [OF assms(1)]
  have m: "map tn_id (db_tenants d') = map tn_id (db_tenants d)"
    "map tn_slug (db_tenants d') = map tn_slug (db_tenants d)"
    "map (norm_slug L \<circ> tn_slug) (db_tenants d') = map (norm_slug L \<circ> tn_slug) (db_tenants d)"
    by (simp_all add: e)
  have s: "tn_id ` set (db_tenants d') = tn_id ` set (db_tenants d)"
    "tn_slug ` set (db_tenants d') = tn_slug ` set (db_tenants d)"
    using m(1,2) by (metis list.set_map)+
  show "keys_ok L d'" using assms(2) unfolding keys_ok_def m by (simp add: e)
  show "refs_ok d'" using assms(3) unfolding refs_ok_def s by (simp add: e)
qed

lemma update_tenant_default:
  assumes "update_tenant s n b f d = Inr d'" "default_member d uid s'" "s' \<noteq> s \<or> b"
  shows "default_member d' uid s'"
proof -
  note e = update_tenant_Inr [OF assms(1)]
  from assms(2) obtain t m where t: "t \<in> set (db_tenants d)" "m \<in> set (db_members d)" "tn_slug t = s'"
    "tn_enabled t" "mb_user m = uid" "mb_tenant m = tn_id t"
    unfolding default_member_def by blast
  obtain t' where t': "t' \<in> set (db_tenants d')" "tn_slug t' = s'" "tn_enabled t'" "tn_id t' = tn_id t"
  proof
    let ?t = "if tn_slug t = s then t\<lparr>tn_name := n, tn_enabled := b, tn_meta := f (tn_meta t)\<rparr> else t"
    show "?t \<in> set (db_tenants d')" using t(1) by (simp add: e)
    show "tn_slug ?t = s'" "tn_enabled ?t" "tn_id ?t = tn_id t" using t assms(3) by auto
  qed
  moreover have "m \<in> set (db_members d')" using t(2) by (simp add: e)
  ultimately show ?thesis unfolding default_member_def using t(5,6) by metis
qed

lemma clear_default_keys:
  assumes "clear_default p s d = Inr d'" "keys_ok L d" "refs_ok d"
  shows "keys_ok L d'" "refs_ok d'"
proof -
  note e = clear_default_Inr [OF assms(1)]
  have m: "map us_id (db_users d') = map us_id (db_users d)"
    "map us_email (db_users d') = map us_email (db_users d)"
    "map (norm_email L \<circ> us_email) (db_users d') = map (norm_email L \<circ> us_email) (db_users d)"
    by (simp_all add: e)
  have s: "us_id ` set (db_users d') = us_id ` set (db_users d)"
    using m(1) by (metis list.set_map)
  show "keys_ok L d'" using assms(2) unfolding keys_ok_def m by (simp add: e)
  show "refs_ok d'" using assms(3) unfolding refs_ok_def s by (auto simp: e)
qed

lemma clear_default_users:
  assumes "clear_default p s d = Inr d'" "u' \<in> set (db_users d')" "us_default u' = Some s'"
  shows "\<exists>u \<in> set (db_users d). us_id u = us_id u' \<and> us_default u = Some s' \<and> (s' = s \<longrightarrow> \<not> p u)"
proof -
  from assms(2) clear_default_Inr [OF assms(1)] obtain u where
    "u \<in> set (db_users d)" "u' = (if p u \<and> us_default u = Some s then u\<lparr>us_default := None\<rparr> else u)"
    by auto
  with assms(3) show ?thesis by (auto split: if_splits)
qed

lemma clear_default_member:
  "clear_default p s d = Inr d' \<Longrightarrow> default_member d' uid s' = default_member d uid s'"
  by (drule clear_default_Inr) (simp add: default_member_def)

lemma save_tenant_ok:
  assumes "save_tenant L flt nid target inp create d = Inr d'" "registry_ok L d"
  shows "registry_ok L d'"
proof -
  let ?s = "if create then tin_slug inp else target" and ?b = "tin_enabled inp = Some True"
  obtain d1 where d1: "if create
      then insert_tenant L \<lparr>tn_id = nid, tn_slug = ?s, tn_name = tin_name inp,
              tn_enabled = ?b, tn_meta = Some (strip_nulls (tin_meta inp))\<rparr> d = Inr d1
      else update_tenant ?s (tin_name inp) ?b (merged_meta (tin_meta inp)) d = Inr d1"
    and d': "if \<not> ?b then clear_default (\<lambda>_. True) ?s d1 = Inr d' else d' = d1"
    using assms(1) by (auto simp: save_tenant_def Let_def split: if_splits)
  have k1: "keys_ok L d1 \<and> refs_ok d1"
  proof (cases create)
    case True
    with d1 insert_tenant_ok assms(2) show ?thesis by (auto simp: registry_ok_def)
  next
    case False
    with d1 update_tenant_keys assms(2) show ?thesis by (auto simp: registry_ok_def)
  qed
  then have k: "keys_ok L d' \<and> refs_ok d'"
    using d' clear_default_keys by (auto split: if_splits)
  have u1: "db_users d1 = db_users d"
    using d1 by (auto dest: insert_tenant_Inr(1) update_tenant_Inr split: if_splits)
  have m1: "default_member d1 uid s'" if "default_member d uid s'" "s' \<noteq> ?s \<or> ?b" for uid s'
  proof (cases create)
    case True
    with d1 have "insert_tenant L \<lparr>tn_id = nid, tn_slug = tin_slug inp, tn_name = tin_name inp,
              tn_enabled = ?b, tn_meta = Some (strip_nulls (tin_meta inp))\<rparr> d = Inr d1" by simp
    note e = insert_tenant_Inr(1) [OF this]
    from that(1) show ?thesis by (rule default_member_mono) (auto simp: e)
  next
    case False
    with d1 that show ?thesis by (auto intro: update_tenant_default)
  qed
  have old: "default_member d (us_id u) s'" if "u \<in> set (db_users d)" "us_default u = Some s'" for u s'
    using assms(2) that by (auto simp: registry_ok_def defaults_ok_def)
  have "defaults_ok d'"
  proof (cases ?b)
    case True
    with d' m1 old u1 show ?thesis by (auto simp: defaults_ok_def)
  next
    case False
    with d' have c: "clear_default (\<lambda>_. True) ?s d1 = Inr d'" by simp
    show ?thesis
      unfolding defaults_ok_def clear_default_member [OF c]
    proof (intro ballI)
      fix u' s' assume "u' \<in> set (db_users d')" "s' \<in> set_option (us_default u')"
      then obtain u where "u \<in> set (db_users d)" "us_id u = us_id u'" "us_default u = Some s'" "s' \<noteq> ?s"
        using clear_default_users [OF c, of u' s'] u1 by auto
      with old m1 show "default_member d1 (us_id u') s'" by metis
    qed
  qed
  with k show ?thesis by (simp add: registry_ok_def)
qed

lemma update_user_ok:
  assumes "update_user L uid email name enabled dflt d = Inr d'" "registry_ok L d"
    and "\<And>s. dflt = Some s \<Longrightarrow> s \<noteq> [] \<Longrightarrow> default_member d uid s"
  shows "registry_ok L d'"
proof -
  note e = update_user_Inr [OF assms(1)]
  have k: "keys_ok L d" "refs_ok d" "defaults_ok d" using assms(2) by (auto simp: registry_ok_def)
  let ?f = "\<lambda>u. if us_id u = uid
        then u\<lparr>us_email := email, us_name := name, us_enabled := enabled,
               us_default := (case dflt of None \<Rightarrow> us_default u
                  | Some s \<Rightarrow> if s = [] then None else Some s)\<rparr> else u"
  have u: "db_users d' = map ?f (db_users d)" by (simp add: e(1))
  have ids: "map us_id (db_users d') = map us_id (db_users d)" by (simp add: u)
  have "distinct (map us_email (db_users d'))" "distinct (map (norm_email L \<circ> us_email) (db_users d'))"
  proof -
    have "distinct (map us_id (db_users d))" "distinct (map us_email (db_users d))"
      "distinct (map (norm_email L \<circ> us_email) (db_users d))" using k(1) by (auto simp: keys_ok_def)
    note dist = this
    have other: "us_email y \<noteq> email \<and> norm_email L (us_email y) \<noteq> norm_email L email"
      if "\<exists>x \<in> set (db_users d). us_id x = uid" "y \<in> set (db_users d)" "us_id y \<noteq> uid" for y
      using e(2) that by blast
    have m1: "map us_email (db_users d') = map (\<lambda>u. if us_id u = uid then email else us_email u) (db_users d)"
      and m2: "map (norm_email L \<circ> us_email) (db_users d') =
        map (\<lambda>u. if us_id u = uid then norm_email L email else (norm_email L \<circ> us_email) u) (db_users d)"
      by (simp_all add: u)
    show "distinct (map us_email (db_users d'))"
    proof (cases "\<exists>x \<in> set (db_users d). us_id x = uid")
      case True
      show ?thesis unfolding m1
        by (rule distinct_map_update_one [OF dist(2,1)]) (use other [OF True] in blast)
    next
      case False
      then have "map us_email (db_users d') = map us_email (db_users d)" by (auto simp: m1)
      with dist show ?thesis by simp
    qed
    show "distinct (map (norm_email L \<circ> us_email) (db_users d'))"
    proof (cases "\<exists>x \<in> set (db_users d). us_id x = uid")
      case True
      show ?thesis unfolding m2
        by (rule distinct_map_update_one [OF dist(3,1)]) (use other [OF True] in auto)
    next
      case False
      then have "map (norm_email L \<circ> us_email) (db_users d') = map (norm_email L \<circ> us_email) (db_users d)"
        by (auto simp: m2)
      with dist show ?thesis by simp
    qed
  qed
  with k(1) ids have "keys_ok L d'" by (simp add: keys_ok_def) (simp add: e(1))
  moreover have "refs_ok d'"
  proof -
    have "us_id ` set (db_users d') = us_id ` set (db_users d)" using ids by (metis list.set_map)
    moreover have "s \<in> tn_slug ` set (db_tenants d)" if "x \<in> set (db_users d)" "us_default (?f x) = Some s" for x s
      using that e(3) [of x s] k(2) by (auto simp: refs_ok_def split: if_splits option.splits)
    ultimately show ?thesis using k(2) unfolding refs_ok_def u by (auto simp: e(1))
  qed
  moreover have "defaults_ok d'"
  proof -
    have "default_member d (us_id x) s" if "x \<in> set (db_users d)" "us_default (?f x) = Some s" for x s
      using that assms(3) [of s] k(3) by (auto simp: defaults_ok_def split: if_splits option.splits)
    moreover have "default_member d' = default_member d" by (simp add: e(1))
    ultimately show ?thesis unfolding defaults_ok_def u by auto
  qed
  ultimately show ?thesis by (simp add: registry_ok_def)
qed

lemma save_user_ok:
  assumes "save_user L flt uid inp create d = Inr d'" "registry_ok L d"
  shows "registry_ok L d'"
proof (cases create)
  case True
  then have i: "insert_user L \<lparr>us_id = uid, us_email = uin_email inp, us_name = uin_name inp,
      us_enabled = (uin_enabled inp = Some True), us_default = None\<rparr> d = Inr d'"
    using assms(1) by (auto simp: save_user_def Let_def split: if_splits)
  note e = insert_user_Inr [OF i]
  have "defaults_ok d'"
    using assms(2) by (auto simp: e(1) registry_ok_def defaults_ok_def)
  with e(2,3) assms(2) show ?thesis by (simp add: registry_ok_def)
next
  case False
  then obtain u where u: "uuid_param L uid = Inr u"
    "update_user L u (uin_email inp) (uin_name inp) (uin_enabled inp = Some True) (uin_default inp) d = Inr d'"
    and v: "(case uin_default inp of None \<Rightarrow> Inr () | Some s \<Rightarrow> valid_default L flt uid s d) = Inr ()"
    using assms(1) by (auto simp: save_user_def Let_def)
  show ?thesis
    by (rule update_user_ok [OF u(2) assms(2)]) (use v u(1) in \<open>auto simp: valid_default_def split: if_splits\<close>)
qed

lemma save_membership_ok:
  assumes "save_membership L flt uid s remove d = Inr d'" "registry_ok L d"
  shows "registry_ok L d'"
proof (cases remove)
  case False
  then obtain u where "(case List.find (\<lambda>t. tn_slug t = s) (db_tenants d) of None \<Rightarrow> bump d
      | Some t \<Rightarrow> insert_member \<lparr>mb_user = u, mb_tenant = tn_id t, mb_checks = VMap []\<rparr> d) = Inr d'"
    using assms(1) by (auto simp: save_membership_def)
  with assms(2) show ?thesis
    by (auto simp: registry_ok_def dest: bump_frame insert_member_keys insert_member_refs insert_member_defaults
        split: option.splits)
next
  case True
  then obtain u d1 n where dm: "delete_member u s d = Inr (d1, n)"
    and cd: "clear_default (\<lambda>r. us_id r = u) s d1 = Inr d'"
    using assms(1) by (auto simp: save_membership_def)
  note e = delete_member_Inr [OF dm]
  have ok: "keys_ok L d" "refs_ok d" "defaults_ok d" using assms(2) by (auto simp: registry_ok_def)
  have "keys_ok L d1" "refs_ok d1"
    using ok by (auto simp: e keys_ok_def refs_ok_def distinct_map_filter)
  then have k: "keys_ok L d'" "refs_ok d'" using clear_default_keys [OF cd] by blast+
  have "default_member d1 uid' s'" if "default_member d uid' s'" "\<not> (uid' = u \<and> s' = s)" for uid' s'
  proof -
    from that(1) obtain t m where t: "t \<in> set (db_tenants d)" "m \<in> set (db_members d)" "tn_slug t = s'"
      "tn_enabled t" "mb_user m = uid'" "mb_tenant m = tn_id t"
      unfolding default_member_def by blast
    have uniq: "t' = t" if "t' \<in> set (db_tenants d)" "tn_id t' = tn_id t" for t'
      by (rule distinct_map_unique [of tn_id "db_tenants d"]) (use ok(1) t(1) that in \<open>simp_all add: keys_ok_def\<close>)
    have "\<not> (mb_user m = u \<and> (\<exists>t0 \<in> set (db_tenants d). tn_slug t0 = s \<and> mb_tenant m = tn_id t0))"
    proof (intro notI, elim conjE bexE)
      fix t0 assume a: "mb_user m = u" "t0 \<in> set (db_tenants d)" "tn_slug t0 = s" "mb_tenant m = tn_id t0"
      from uniq [OF a(2)] a(4) t(6) have "t0 = t" by simp
      with a t(3,5) that(2) show False by simp
    qed
    with t(2) have "m \<in> set (db_members d1)" by (simp add: e)
    moreover have "t \<in> set (db_tenants d1)" using t(1) by (simp add: e)
    ultimately show ?thesis using t unfolding default_member_def by blast
  qed
  note kept = this
  have "defaults_ok d'"
    unfolding defaults_ok_def clear_default_member [OF cd]
  proof (intro ballI)
    fix r' s' assume "r' \<in> set (db_users d')" "s' \<in> set_option (us_default r')"
    then obtain r where r: "r \<in> set (db_users d1)" "us_id r = us_id r'" "us_default r = Some s'"
      "s' = s \<longrightarrow> us_id r \<noteq> u"
      using clear_default_users [OF cd, of r' s'] by auto
    then have "default_member d (us_id r) s'" using ok(3) by (auto simp: defaults_ok_def e)
    with kept r(2,4) show "default_member d1 (us_id r') s'" by auto
  qed
  with k show ?thesis by (simp add: registry_ok_def)
qed

lemma save_membership_auth_ok:
  assumes "save_membership_auth L flt uid s checks d = Inr d'" "registry_ok L d"
  shows "registry_ok L d'"
proof -
  from assms(1) obtain u n where
    "update_member_checks u s (VMap (map (\<lambda>(p, m). (p, VMap m)) checks)) d = Inr (d', n)"
    by (auto simp: save_membership_auth_def)
  note e = update_member_checks_Inr [OF this]
  have m: "map (\<lambda>m. (mb_user m, mb_tenant m)) (db_members d') = map (\<lambda>m. (mb_user m, mb_tenant m)) (db_members d)"
    by (auto simp: e)
  have s: "(\<lambda>m. (mb_user m, mb_tenant m)) ` set (db_members d') = (\<lambda>m. (mb_user m, mb_tenant m)) ` set (db_members d)"
    using m by (metis list.set_map)
  have "keys_ok L d'" using assms(2) unfolding registry_ok_def keys_ok_def m by (simp add: e)
  moreover have "refs_ok d'"
    using assms(2) by (auto simp: registry_ok_def refs_ok_def e)
  moreover have "default_member d uid' s' \<Longrightarrow> default_member d' uid' s'" for uid' s'
  proof -
    assume "default_member d uid' s'"
    then obtain t m where t: "t \<in> set (db_tenants d)" "m \<in> set (db_members d)" "tn_slug t = s'"
      "tn_enabled t" "mb_user m = uid'" "mb_tenant m = tn_id t" unfolding default_member_def by blast
    have "(mb_user m, mb_tenant m) \<in> (\<lambda>m. (mb_user m, mb_tenant m)) ` set (db_members d')"
      unfolding s using t(2) by (rule imageI)
    then obtain m' where m': "m' \<in> set (db_members d')" "mb_user m' = mb_user m" "mb_tenant m' = mb_tenant m"
      by (auto simp: eq_commute)
    moreover have "t \<in> set (db_tenants d')" using t(1) by (simp add: e)
    ultimately show ?thesis using t(3-6) unfolding default_member_def by metis
  qed
  ultimately show ?thesis using assms(2) by (auto simp: registry_ok_def defaults_ok_def e)
qed

lemma add_domain_ok:
  assumes "add_domain L flt s dmn d = Inr d'" "registry_ok L d"
  shows "registry_ok L d'"
proof -
  from assms(1) have i: "insert_domain L \<lparr>dm_slug = s, dm_domain = dmn\<rparr> d = Inr d'"
    by (auto simp: add_domain_def)
  note e = insert_domain_Inr [OF this]
  have "keys_ok L d'" using assms(2) e(2,3) by (simp add: e(1) registry_ok_def keys_ok_def)
  moreover have "refs_ok d'" using assms(2) e(4) by (simp add: e(1) registry_ok_def refs_ok_def)
  moreover have "defaults_ok d'" using assms(2) by (simp add: e(1) registry_ok_def defaults_ok_def)
  ultimately show ?thesis by (simp add: registry_ok_def)
qed

lemma remove_domain_ok:
  assumes "remove_domain L flt s dmn d = Inr d'" "registry_ok L d"
  shows "registry_ok L d'"
proof -
  from assms(1) obtain n where "delete_domain L s dmn d = Inr (d', n)"
    by (auto simp: remove_domain_def)
  note e = delete_domain_Inr [OF this]
  show ?thesis
    using assms(2) by (simp add: e registry_ok_def keys_ok_def refs_ok_def defaults_ok_def distinct_map_filter)
qed

lemma upsert_config_ok:
  assumes "upsert_config r d = Inr d'" "registry_ok L d"
  shows "registry_ok L d'"
proof -
  note e = upsert_config_Inr [OF assms(1)]
  have "distinct (map (\<lambda>c. (cf_slug c, cf_key c)) (db_config d'))"
  proof (cases "\<exists>c \<in> set (db_config d). cf_slug c = cf_slug r \<and> cf_key c = cf_key r")
    case True
    then have "map (\<lambda>c. (cf_slug c, cf_key c)) (db_config d') = map (\<lambda>c. (cf_slug c, cf_key c)) (db_config d)"
      by (simp add: e(1))
    with assms(2) show ?thesis by (simp add: registry_ok_def keys_ok_def)
  next
    case False
    with assms(2) show ?thesis by (auto simp: e(1) registry_ok_def keys_ok_def)
  qed
  then have "keys_ok L d'" using assms(2) by (simp add: registry_ok_def keys_ok_def) (simp add: e(1))
  moreover have "\<forall>c \<in> set (db_config d'). cf_slug c \<in> tn_slug ` set (db_tenants d)"
    using assms(2) e(2) by (auto simp: e(1) registry_ok_def refs_ok_def)
  then have "refs_ok d'" using assms(2) by (simp add: registry_ok_def refs_ok_def) (simp add: e(1))
  moreover have "defaults_ok d'" using assms(2) by (simp add: e(1) registry_ok_def defaults_ok_def)
  ultimately show ?thesis by (simp add: registry_ok_def)
qed

lemma delete_config_ok:
  "delete_config s k d = Inr d' \<Longrightarrow> registry_ok L d \<Longrightarrow> registry_ok L d'"
  by (drule delete_config_Inr)
    (simp add: registry_ok_def keys_ok_def refs_ok_def defaults_ok_def distinct_map_filter)

lemma put_config_Inr:
  "put_config L flt s k v d = Inr d' \<Longrightarrow>
     \<exists>raw. mp_encode L v = Some raw \<and> upsert_config \<lparr>cf_slug = s, cf_key = k, cf_value = Some raw\<rparr> d = Inr d'"
  by (auto simp: put_config_def split: option.splits)

lemma put_checks_ok:
  "put_checks L flt s cs d = Inr d' \<Longrightarrow> registry_ok L d \<Longrightarrow> registry_ok L d'"
proof (induction cs arbitrary: d)
  case (Cons c r)
  obtain p checks where c: "c = (p, checks)" by (cases c)
  let ?k = "''auth:checks:'' @ p"
  from Cons.prems(1) obtain d1 where d1: "put_checks L flt s r d1 = Inr d'"
    "delete_config s ?k d = Inr d1 \<or> put_config L flt s ?k (VMap checks) d = Inr d1"
    unfolding c put_checks.simps Let_def by (auto split: if_splits)
  from d1(2) Cons.prems(2) have "registry_ok L d1"
    by (auto dest: delete_config_ok dest!: put_config_Inr intro: upsert_config_ok)
  with d1(1) show ?case by (rule Cons.IH)
qed simp

lemma save_policy_steps:
  assumes "save_policy L flt s p d = Inr d'"
  obtains d1 d2 where
    "case pin_auto p of None \<Rightarrow> d1 = d | Some b \<Rightarrow> put_config L flt s ''auth:auto_add'' (VBool b) d = Inr d1"
    "case pin_providers p of None \<Rightarrow> d2 = d1
      | Some ps \<Rightarrow> put_config L flt s ''auth:providers'' (VList (map VStr ps)) d1 = Inr d2"
    "put_checks L flt s (pin_checks p) d2 = Inr d'"
  using assms by (auto simp: save_policy_def split: option.splits)

lemma save_policy_ok:
  assumes "save_policy L flt s p d = Inr d'" "registry_ok L d"
  shows "registry_ok L d'"
proof (rule save_policy_steps [OF assms(1)])
  fix d1 d2
  assume 1: "case pin_auto p of None \<Rightarrow> d1 = d | Some b \<Rightarrow> put_config L flt s ''auth:auto_add'' (VBool b) d = Inr d1"
    and 2: "case pin_providers p of None \<Rightarrow> d2 = d1
      | Some ps \<Rightarrow> put_config L flt s ''auth:providers'' (VList (map VStr ps)) d1 = Inr d2"
    and 3: "put_checks L flt s (pin_checks p) d2 = Inr d'"
  from 1 assms(2) have "registry_ok L d1"
    by (auto split: option.splits dest!: put_config_Inr intro: upsert_config_ok)
  with 2 have "registry_ok L d2"
    by (auto split: option.splits dest!: put_config_Inr intro: upsert_config_ok)
  with 3 show ?thesis by (rule put_checks_ok)
qed

subsection \<open>Each operation as a provider\<close>

lemma put_config_frame:
  "put_config L flt s k v d = Inr d' \<Longrightarrow> db_audit d' = db_audit d \<and> db_revision d' = db_revision d + 1"
  by (drule put_config_Inr) (auto dest!: upsert_config_Inr(1))

lemma put_checks_frame:
  "put_checks L flt s cs d = Inr d' \<Longrightarrow>
     db_audit d' = db_audit d \<and> db_revision d' = db_revision d + int (length cs)"
proof (induction cs arbitrary: d)
  case (Cons c r)
  obtain p checks where c: "c = (p, checks)" by (cases c)
  let ?k = "''auth:checks:'' @ p"
  from Cons.prems obtain d1 where d1: "put_checks L flt s r d1 = Inr d'"
    "delete_config s ?k d = Inr d1 \<or> put_config L flt s ?k (VMap checks) d = Inr d1"
    unfolding c put_checks.simps Let_def by (auto split: if_splits)
  from d1(2) have "db_audit d1 = db_audit d \<and> db_revision d1 = db_revision d + 1"
    by (auto dest: put_config_frame delete_config_Inr)
  with Cons.IH [OF d1(1)] show ?case by simp
qed simp

lemma save_policy_frame:
  assumes "save_policy L flt s p d = Inr d'"
  shows "db_audit d' = db_audit d \<and> db_revision d' = db_revision d + int (length (pin_checks p)) +
    (if pin_auto p = None then 0 else 1) + (if pin_providers p = None then 0 else 1)"
  by (rule save_policy_steps [OF assms])
    (auto split: option.splits dest!: put_config_frame put_checks_frame)

interpretation save_policy: mutation "save_policy L flt s p" "registry_ok L" for L flt s p
  by unfold_locales
    (auto dest: save_policy_ok save_policy_frame simp: registry_ok_def insert_audit_def)

lemma save_tenant_frame:
  assumes "save_tenant L flt nid target inp create d = Inr d'"
  shows "db_audit d' = db_audit d \<and> db_revision d < db_revision d'"
  using assms unfolding save_tenant_def Let_def
  by (auto split: if_splits dest!: insert_tenant_Inr(1) update_tenant_Inr clear_default_Inr)

interpretation save_tenant: bumping_mutation "save_tenant L flt nid target inp create" "registry_ok L"
  for L flt nid target inp create
  by unfold_locales
    (auto dest: save_tenant_ok save_tenant_frame simp: registry_ok_def insert_audit_def)

lemma save_user_frame:
  assumes "save_user L flt uid inp create d = Inr d'"
  shows "db_audit d' = db_audit d \<and> db_revision d < db_revision d'"
  using assms unfolding save_user_def Let_def
  by (auto split: if_splits dest!: insert_user_Inr(1) update_user_Inr(1))

interpretation save_user: bumping_mutation "save_user L flt uid inp create" "registry_ok L"
  for L flt uid inp create
  by unfold_locales
    (auto dest: save_user_ok save_user_frame simp: registry_ok_def insert_audit_def)

lemma save_membership_frame:
  assumes "save_membership L flt uid s remove d = Inr d'"
  shows "db_audit d' = db_audit d \<and> db_revision d < db_revision d'"
  using assms unfolding save_membership_def
  by (auto split: if_splits option.splits
      dest!: delete_member_Inr clear_default_Inr insert_member_Inr(1) bump_frame)

interpretation save_membership: bumping_mutation "save_membership L flt uid s remove" "registry_ok L"
  for L flt uid s remove
  by unfold_locales
    (auto dest: save_membership_ok save_membership_frame simp: registry_ok_def insert_audit_def)

lemma save_membership_auth_frame:
  assumes "save_membership_auth L flt uid s checks d = Inr d'"
  shows "db_audit d' = db_audit d \<and> db_revision d < db_revision d'"
  using assms unfolding save_membership_auth_def by (auto dest!: update_member_checks_Inr)

interpretation save_membership_auth: bumping_mutation "save_membership_auth L flt uid s checks" "registry_ok L"
  for L flt uid s checks
  by unfold_locales
    (auto dest: save_membership_auth_ok save_membership_auth_frame simp: registry_ok_def insert_audit_def)

lemma add_domain_frame:
  assumes "add_domain L flt s dmn d = Inr d'"
  shows "db_audit d' = db_audit d \<and> db_revision d < db_revision d'"
  using assms unfolding add_domain_def by (auto dest!: insert_domain_Inr(1))

interpretation add_domain: bumping_mutation "add_domain L flt s dmn" "registry_ok L" for L flt s dmn
  by unfold_locales
    (auto dest: add_domain_ok add_domain_frame simp: registry_ok_def insert_audit_def)

lemma remove_domain_frame:
  assumes "remove_domain L flt s dmn d = Inr d'"
  shows "db_audit d' = db_audit d \<and> db_revision d < db_revision d'"
  using assms unfolding remove_domain_def by (auto dest!: delete_domain_Inr)

interpretation remove_domain: bumping_mutation "remove_domain L flt s dmn" "registry_ok L" for L flt s dmn
  by unfold_locales
    (auto dest: remove_domain_ok remove_domain_frame simp: registry_ok_def insert_audit_def)

end
