(* ===== verification/Admin_Queries.thy ===== *)
theory Admin_Queries
  imports Admin_Transactions
begin

text \<open>
  The read side of the operator API (\<open>tenants\<close>, \<open>users\<close>, \<open>domains\<close>, \<open>policy\<close>,
  \<open>membershipAuth\<close>), and the proof that a saved policy is what the admin API and the resolver
  then read.
\<close>

subsection \<open>Views\<close>

record tenant_view =
  tv_id :: string
  tv_slug :: string
  tv_name :: string
  tv_enabled :: bool
  tv_meta :: "(string, goval) gomap"

record user_view =
  uv_id :: string
  uv_email :: string
  uv_name :: string
  uv_enabled :: bool
  uv_default :: string
  uv_memberships :: "string list"

record policy_view =
  pv_auto :: bool
  pv_providers :: "string list"
  pv_checks :: "(string, goval) gomap"

record list_filters =
  fl_query :: string
  fl_enabled :: string
  fl_tenant :: string

definition no_filters :: list_filters where
  "no_filters = \<lparr>fl_query = [], fl_enabled = [], fl_tenant = []\<rparr>"

text \<open>\<open>LIMIT l OFFSET o\<close>\<close>

definition page :: "nat \<Rightarrow> nat \<Rightarrow> 'x list \<Rightarrow> 'x list" where
  "page l o' xs = take l (drop o' xs)"

definition enabled_filter :: "string \<Rightarrow> bool \<Rightarrow> bool" where
  "enabled_filter f b = (f = [] \<or> b = (f = ''true''))"

definition matches :: "'a lib_scheme \<Rightarrow> string \<Rightarrow> string list \<Rightarrow> bool" where
  "matches L q xs = (q = [] \<or> (\<exists>x \<in> set xs. contains (pg_lower L x) (pg_lower L q)))"

text \<open>
  The two presentation keys that are present and not null. The API stores strings there; a
  value written by the platform that is itself an object would lose its nested nulls too.
\<close>

definition shown_meta :: "goval option \<Rightarrow> (string, goval) gomap" where
  "shown_meta m = concat (map (\<lambda>k. case m of
       Some (VMap kvs) \<Rightarrow> (case map_of kvs k of None \<Rightarrow> [] | Some v \<Rightarrow> if v = VNil then [] else [(k, v)])
     | _ \<Rightarrow> []) [''logo'', ''default_workspace''])"

definition view_tenant :: "tenant_row \<Rightarrow> tenant_view" where
  "view_tenant t = \<lparr>tv_id = tn_id t, tv_slug = tn_slug t, tv_name = tn_name t,
     tv_enabled = tn_enabled t, tv_meta = shown_meta (tn_meta t)\<rparr>"

definition list_tenants ::
  "'a lib_scheme \<Rightarrow> string \<Rightarrow> nat \<Rightarrow> nat \<Rightarrow> list_filters \<Rightarrow> mtdb \<Rightarrow> tenant_view list" where
  "list_tenants L s l off fs d =
     map view_tenant (page l off (sort_key (\<lambda>t. pg_key L (tn_slug t))
       (filter (\<lambda>t. (s = [] \<or> tn_slug t = s) \<and> matches L (fl_query fs) [tn_name t, tn_slug t] \<and>
          enabled_filter (fl_enabled fs) (tn_enabled t)) (db_tenants d))))"

definition tenants_query ::
  "'a lib_scheme \<Rightarrow> faults \<Rightarrow> string \<Rightarrow> nat \<Rightarrow> nat \<Rightarrow> list_filters \<Rightarrow> mtdb \<Rightarrow> err + tenant_view list" where
  "tenants_query L flt s l off fs d =
     andthen (stmt flt ''tenants'' (Inr (list_tenants L s l off fs d))) (\<lambda>out.
     if s \<noteq> [] then (case out of [] \<Rightarrow> Inl missing | t # _ \<Rightarrow> Inr [t]) else Inr out)"

text \<open>All memberships of a user, of disabled tenants too, \<open>ORDER BY t.slug\<close>.\<close>

definition memberships :: "'a lib_scheme \<Rightarrow> mtdb \<Rightarrow> string \<Rightarrow> string list" where
  "memberships L d uid = map tn_slug (sort_key (\<lambda>t. pg_key L (tn_slug t))
     [t. m \<leftarrow> filter (\<lambda>m. mb_user m = uid) (db_members d),
         t \<leftarrow> filter (\<lambda>t. tn_id t = mb_tenant m) (db_tenants d)])"

definition view_user :: "'a lib_scheme \<Rightarrow> mtdb \<Rightarrow> user_row \<Rightarrow> user_view" where
  "view_user L d u = \<lparr>uv_id = us_id u, uv_email = us_email u, uv_name = us_name u,
     uv_enabled = us_enabled u, uv_default = (case us_default u of None \<Rightarrow> [] | Some s \<Rightarrow> s),
     uv_memberships = memberships L d (us_id u)\<rparr>"

definition list_users ::
  "'a lib_scheme \<Rightarrow> string \<Rightarrow> nat \<Rightarrow> nat \<Rightarrow> list_filters \<Rightarrow> mtdb \<Rightarrow> user_view list" where
  "list_users L uid l off fs d =
     map (view_user L d) (page l off (sort_key (\<lambda>u. pg_key L (us_email u))
       (filter (\<lambda>u. (uid = [] \<or> us_id u = uid) \<and> matches L (fl_query fs) [us_email u, us_name u] \<and>
          enabled_filter (fl_enabled fs) (us_enabled u) \<and>
          (fl_tenant fs = [] \<or> fl_tenant fs \<in> set (memberships L d (us_id u)))) (db_users d))))"

definition users_query ::
  "'a lib_scheme \<Rightarrow> faults \<Rightarrow> string \<Rightarrow> nat \<Rightarrow> nat \<Rightarrow> list_filters \<Rightarrow> mtdb \<Rightarrow> err + user_view list" where
  "users_query L flt uid l off fs d =
     andthen (stmt flt ''users'' (Inr (list_users L uid l off fs d))) (\<lambda>out.
     if uid \<noteq> [] then (case out of [] \<Rightarrow> Inl missing | u # _ \<Rightarrow> Inr [u]) else Inr out)"

definition domains_query :: "'a lib_scheme \<Rightarrow> faults \<Rightarrow> string \<Rightarrow> mtdb \<Rightarrow> err + string list" where
  "domains_query L flt s d =
     andthen (exists_tenant flt s d) (\<lambda>_.
     stmt flt ''domains'' (Inr (sort_key (pg_key L)
       (map dm_domain (filter (\<lambda>r. dm_slug r = s) (db_domains d))))))"

fun provider_names :: "goval list \<Rightarrow> err + string list" where
  "provider_names [] = Inr []"
| "provider_names (VStr s # r) = andthen (provider_names r) (\<lambda>ns. Inr (s # ns))"
| "provider_names (_ # r) = Inl (ErrOther ''invalid provider list'')"

definition checks_prefix :: string where
  "checks_prefix = ''auth:checks:''"

text \<open>The loop over the auth rows, \<open>ORDER BY key\<close>.\<close>

fun policy_rows :: "'a lib_scheme \<Rightarrow> config_row list \<Rightarrow> policy_view \<Rightarrow> err + policy_view" where
  "policy_rows L [] p = Inr p"
| "policy_rows L (c # cs) p =
     (case cf_value c of
        None \<Rightarrow> policy_rows L cs p
      | Some raw \<Rightarrow>
          if raw = [] then policy_rows L cs p
          else case mp_decode L raw of
            None \<Rightarrow> Inl (ErrOther ''invalid MessagePack auth config'')
          | Some v \<Rightarrow>
              if cf_key c = ''auth:auto_add'' then policy_rows L cs (p\<lparr>pv_auto := as_bool v\<rparr>)
              else if cf_key c = ''auth:providers'' then
                (case v of
                   VList xs \<Rightarrow> andthen (provider_names xs) (\<lambda>ns.
                     policy_rows L cs (p\<lparr>pv_providers := pv_providers p @ ns\<rparr>))
                 | VNil \<Rightarrow> policy_rows L cs p
                 | _ \<Rightarrow> Inl (ErrOther ''invalid provider list''))
              else policy_rows L cs
                (p\<lparr>pv_checks := AList.update (drop (length checks_prefix) (cf_key c)) v (pv_checks p)\<rparr>))"

definition auth_key :: "string \<Rightarrow> bool" where
  "auth_key k = (k = ''auth:providers'' \<or> k = ''auth:auto_add'' \<or> has_prefix k checks_prefix)"

definition policy_query :: "'a lib_scheme \<Rightarrow> faults \<Rightarrow> string \<Rightarrow> mtdb \<Rightarrow> err + policy_view" where
  "policy_query L flt s d =
     andthen (exists_tenant flt s d) (\<lambda>_.
     andthen (stmt flt ''policy'' (Inr (sort_key (\<lambda>c. pg_key L (cf_key c))
       (filter (\<lambda>c. cf_slug c = s \<and> auth_key (cf_key c)) (db_config d))))) (\<lambda>rows.
     policy_rows L rows \<lparr>pv_auto = False, pv_providers = [], pv_checks = []\<rparr>))"

definition membership_auth_query ::
  "'a lib_scheme \<Rightarrow> faults \<Rightarrow> string \<Rightarrow> string \<Rightarrow> mtdb \<Rightarrow> err + (string, check_map) gomap" where
  "membership_auth_query L flt uid s d =
     andthen (stmt flt ''membership_auth'' (uuid_param L uid)) (\<lambda>u.
     case [m. m \<leftarrow> db_members d, mb_user m = u,
              t \<leftarrow> db_tenants d, tn_id t = mb_tenant m \<and> tn_slug t = s] of
       [] \<Rightarrow> Inl missing
     | m # _ \<Rightarrow> (case member_checks (mb_checks m) of
         None \<Rightarrow> Inl (ErrOther ''json'') | Some cs \<Rightarrow> Inr cs))"

subsection \<open>A saved policy is what is read\<close>

text \<open>The key's stored bytes, if the row exists.\<close>

definition config_at :: "mtdb \<Rightarrow> string \<Rightarrow> string \<Rightarrow> string option option" where
  "config_at d s k = map_option cf_value (List.find (\<lambda>c. cf_slug c = s \<and> cf_key c = k) (db_config d))"

lemma get_config_at:
  "get_config L d s k = (case config_at d s k of
     Some (Some raw) \<Rightarrow> if raw = [] then Inr VNil
       else (case mp_decode L raw of None \<Rightarrow> Inl (ErrOther ''msgpack decode'') | Some v \<Rightarrow> Inr v)
   | _ \<Rightarrow> Inr VNil)"
  by (auto simp: get_config_def config_at_def split: option.splits)

lemma find_map_upd:
  "(\<And>c. P c \<Longrightarrow> P (g c)) \<Longrightarrow> (\<And>c. \<not> P c \<Longrightarrow> \<not> P (g c)) \<Longrightarrow>
     List.find P (map g xs) = map_option g (List.find P xs)"
  by (induction xs) auto

lemma find_append:
  "List.find P (xs @ ys) = (case List.find P xs of Some x \<Rightarrow> Some x | None \<Rightarrow> List.find P ys)"
  by (induction xs) auto

lemma config_at_upsert:
  assumes "upsert_config r d = Inr d'"
  shows "config_at d' s k = (if s = cf_slug r \<and> k = cf_key r then Some (cf_value r) else config_at d s k)"
proof -
  note e = upsert_config_Inr(1) [OF assms]
  let ?P = "\<lambda>c. cf_slug c = s \<and> cf_key c = k" and ?hit = "\<lambda>c. cf_slug c = cf_slug r \<and> cf_key c = cf_key r"
  let ?g = "\<lambda>c. if ?hit c then c\<lparr>cf_value := cf_value r\<rparr> else c"
  show ?thesis
  proof (cases "\<exists>c \<in> set (db_config d). ?hit c")
    case True
    have m: "List.find ?P (map ?g (db_config d)) = map_option ?g (List.find ?P (db_config d))"
      by (rule find_map_upd) auto
    have at: "config_at d' s k = map_option cf_value (map_option ?g (List.find ?P (db_config d)))"
      using True m by (simp add: e config_at_def)
    show ?thesis
    proof (cases "List.find ?P (db_config d)")
      case None
      with True have "\<not> (s = cf_slug r \<and> k = cf_key r)" by (auto simp: find_None_iff)
      with at None show ?thesis by (simp add: config_at_def [of d])
    next
      case (Some c)
      with find_SomeD [OF Some] at show ?thesis by (auto simp: config_at_def)
    qed
  next
    case False
    then have "List.find ?hit (db_config d) = None" by (auto simp: find_None_iff)
    with False show ?thesis
      by (auto simp: e config_at_def find_append split: option.splits)
  qed
qed

lemma config_at_delete:
  assumes "delete_config s0 k0 d = Inr d'"
  shows "config_at d' s k = (if s = s0 \<and> k = k0 then None else config_at d s k)"
proof -
  have f: "List.find P (filter (\<lambda>c. \<not> Q c) xs) = List.find P xs" if "\<And>c. P c \<Longrightarrow> \<not> Q c"
    for P Q :: "config_row \<Rightarrow> bool" and xs
    using that by (induction xs) auto
  note e = delete_config_Inr [OF assms]
  show ?thesis
  proof (cases "s = s0 \<and> k = k0")
    case True
    then show ?thesis by (auto simp: e config_at_def find_None_iff)
  next
    case False
    then have "List.find (\<lambda>c. cf_slug c = s \<and> cf_key c = k)
        (filter (\<lambda>c. \<not> (cf_slug c = s0 \<and> cf_key c = k0)) (db_config d)) =
      List.find (\<lambda>c. cf_slug c = s \<and> cf_key c = k) (db_config d)"
      by (intro f) auto
    with False show ?thesis by (simp only: e config_at_def) simp
  qed
qed

lemma config_at_put:
  assumes "put_config L flt s0 k0 v d = Inr d'"
  shows "config_at d' s k = (if s = s0 \<and> k = k0 then Some (mp_encode L v) else config_at d s k)"
  using put_config_Inr [OF assms] by (auto simp: config_at_upsert)

lemma config_at_put_checks:
  "put_checks L flt s0 cs d = Inr d' \<Longrightarrow> wf_map cs \<Longrightarrow>
     config_at d' s k =
       (if s = s0 then
          (case if has_prefix k checks_prefix then map_of cs (drop (length checks_prefix) k) else None of
             None \<Rightarrow> config_at d s k
           | Some m \<Rightarrow> if m = [] then None else Some (mp_encode L (VMap m)))
        else config_at d s k)"
proof (induction cs arbitrary: d)
  case (Cons c r)
  obtain p m where c: "c = (p, m)" by (cases c)
  let ?k = "''auth:checks:'' @ p"
  from Cons.prems(1) obtain d1 where d1: "put_checks L flt s0 r d1 = Inr d'"
    "if m = [] then delete_config s0 ?k d = Inr d1 else put_config L flt s0 ?k (VMap m) d = Inr d1"
    unfolding c put_checks.simps Let_def by (auto split: if_splits)
  have one: "config_at d1 s k = (if s = s0 \<and> k = ?k then (if m = [] then None else Some (mp_encode L (VMap m)))
      else config_at d s k)"
    using d1(2) by (auto simp: config_at_delete config_at_put split: if_splits)
  have key: "k = ?k \<longleftrightarrow> has_prefix k checks_prefix \<and> drop (length checks_prefix) k = p"
    unfolding has_prefix_def checks_prefix_def by (metis append_eq_conv_conj append_take_drop_id)
  have "map_of r p = None" using Cons.prems(2) c by (auto simp: map_of_eq_None_iff)
  moreover have "wf_map r" using Cons.prems(2) c by simp
  ultimately show ?case
    using Cons.IH [OF d1(1)] one key by (auto simp: c split: option.splits)
qed simp

text \<open>What a saved policy prescribes for a key; \<open>None\<close> leaves the key alone.\<close>

definition policy_at :: "policy_input \<Rightarrow> string \<Rightarrow> goval option" where
  "policy_at p k =
     (if has_prefix k checks_prefix then
        map_option (\<lambda>m. if m = [] then VNil else VMap m)
          (map_of (pin_checks p) (drop (length checks_prefix) k))
      else if k = ''auth:auto_add'' then map_option VBool (pin_auto p)
      else if k = ''auth:providers'' then map_option (\<lambda>ps. VList (map VStr ps)) (pin_providers p)
      else None)"

text \<open>The codec reads back what it wrote, for the values this policy stores.\<close>

definition codec_ok :: "'a lib_scheme \<Rightarrow> goval \<Rightarrow> bool" where
  "codec_ok L v = (case mp_encode L v of None \<Rightarrow> True | Some raw \<Rightarrow> raw \<noteq> [] \<and> mp_decode L raw = Some v)"

lemma put_config_encodes: "put_config L flt s k v d = Inr d' \<Longrightarrow> mp_encode L v \<noteq> None"
  by (auto dest: put_config_Inr)

lemma put_checks_encodes:
  "put_checks L flt s cs d = Inr d' \<Longrightarrow> (p, m) \<in> set cs \<Longrightarrow> m \<noteq> [] \<Longrightarrow> mp_encode L (VMap m) \<noteq> None"
proof (induction cs arbitrary: d)
  case (Cons c r)
  obtain p' m' where c: "c = (p', m')" by (cases c)
  from Cons.prems(1) obtain d1 where "put_checks L flt s r d1 = Inr d'"
    "m' \<noteq> [] \<longrightarrow> put_config L flt s (''auth:checks:'' @ p') (VMap m') d = Inr d1"
    unfolding c put_checks.simps Let_def by (auto split: if_splits)
  with Cons.IH Cons.prems(2,3) c put_config_encodes show ?case by fastforce
qed simp

lemma not_checks_keys:
  "\<not> has_prefix ''auth:auto_add'' checks_prefix" "\<not> has_prefix ''auth:providers'' checks_prefix"
  by (simp_all add: has_prefix_def checks_prefix_def)

lemma save_policy_config_at:
  assumes "save_policy L flt s p d = Inr d'" "wf_map (pin_checks p)"
  shows "config_at d' s' k =
    (if s' \<noteq> s then config_at d s' k else
     case policy_at p k of None \<Rightarrow> config_at d s' k
     | Some v \<Rightarrow> if v = VNil then None else Some (mp_encode L v))"
proof (rule save_policy_steps [OF assms(1)])
  fix d1 d2
  assume 1: "case pin_auto p of None \<Rightarrow> d1 = d | Some b \<Rightarrow> put_config L flt s ''auth:auto_add'' (VBool b) d = Inr d1"
    and 2: "case pin_providers p of None \<Rightarrow> d2 = d1
      | Some ps \<Rightarrow> put_config L flt s ''auth:providers'' (VList (map VStr ps)) d1 = Inr d2"
    and 3: "put_checks L flt s (pin_checks p) d2 = Inr d'"
  have c1: "config_at d1 s' k = (if s' = s \<and> k = ''auth:auto_add'' \<and> pin_auto p \<noteq> None
      then Some (mp_encode L (VBool (the (pin_auto p)))) else config_at d s' k)"
    using 1 by (auto simp: config_at_put split: option.splits)
  have c2: "config_at d2 s' k = (if s' = s \<and> k = ''auth:providers'' \<and> pin_providers p \<noteq> None
      then Some (mp_encode L (VList (map VStr (the (pin_providers p))))) else config_at d1 s' k)"
    using 2 by (auto simp: config_at_put split: option.splits)
  show ?thesis
    unfolding config_at_put_checks [OF 3 assms(2)] c2 c1
    by (cases "has_prefix k checks_prefix")
      (auto simp: policy_at_def not_checks_keys split: option.splits)
qed

lemma save_policy_read:
  assumes "save_policy L flt s p d = Inr d'" "wf_map (pin_checks p)"
    and "\<And>k v. policy_at p k = Some v \<Longrightarrow> codec_ok L v"
  shows "get_config L d' s' k = (if s' \<noteq> s then get_config L d s' k else
     case policy_at p k of None \<Rightarrow> get_config L d s' k | Some v \<Rightarrow> Inr v)"
proof (cases "s' = s \<and> policy_at p k \<noteq> None")
  case False
  then show ?thesis
    by (auto simp: get_config_at save_policy_config_at [OF assms(1,2)])
next
  case True
  then obtain v where v: "s' = s" "policy_at p k = Some v" by auto
  have "mp_encode L v \<noteq> None" if "v \<noteq> VNil"
  proof (rule save_policy_steps [OF assms(1)])
    fix d1 d2
    assume "case pin_auto p of None \<Rightarrow> d1 = d | Some b \<Rightarrow> put_config L flt s ''auth:auto_add'' (VBool b) d = Inr d1"
      "case pin_providers p of None \<Rightarrow> d2 = d1
        | Some ps \<Rightarrow> put_config L flt s ''auth:providers'' (VList (map VStr ps)) d1 = Inr d2"
      "put_checks L flt s (pin_checks p) d2 = Inr d'"
    with v(2) that show ?thesis
      by (auto simp: policy_at_def split: if_splits option.splits
          dest: put_config_encodes put_checks_encodes [OF _ map_of_SomeD])
  qed
  with v assms(3) [OF v(2)] show ?thesis
    by (auto simp: get_config_at save_policy_config_at [OF assms(1,2)] codec_ok_def split: option.splits)
qed

end
