(* ===== verification/Admin_Server.thy ===== *)
theory Admin_Server
  imports Admin_Queries
begin

text \<open>
  \<open>internal/admin/server.go\<close>, \<open>session.go\<close> and \<open>browser_sessions.go\<close>: one request to the
  operator API as a function from the server's state (registry, operator sessions, and the log
  of revocations sent to the browser-session store) to the next state and the response.

  A request is its method, path, host, headers, query values, cookies and body. JSON, media
  types, base64 and SHA-256 are parameters. \<open>admin_env\<close> holds what one request meets: clocks,
  fresh random values, the rate limiter's answer, statement failures, the session store's
  answers. A response keeps the status and code of a problem, not its text.
\<close>

subsection \<open>Requests, responses, state\<close>

record http_req =
  rq_method :: string
  rq_path :: string
  rq_host :: string
  rq_header :: "string \<Rightarrow> string"            \<comment> \<open>\<open>Header.Get\<close>\<close>
  rq_query :: "string \<Rightarrow> string"             \<comment> \<open>\<open>URL.Query().Get\<close>\<close>
  rq_cookie :: "string \<Rightarrow> string option"
  rq_body :: string

text \<open>The first JSON value of a body: malformed, incomplete, or a value and what follows it.\<close>

datatype 'v json_read = JBad | JShort | JValue 'v string

record admin_lib = lib +
  sha256 :: "string \<Rightarrow> string"
  b64url :: "string \<Rightarrow> string"                \<comment> \<open>\<open>base64.RawURLEncoding.EncodeToString\<close>\<close>
  media_type :: "string \<Rightarrow> string option"     \<comment> \<open>\<open>mime.ParseMediaType\<close>\<close>
  json_tenant :: "string \<Rightarrow> tenant_input json_read"
  json_user :: "string \<Rightarrow> user_input json_read"
  json_policy :: "string \<Rightarrow> policy_input json_read"
  json_overrides :: "string \<Rightarrow> (string, check_map) gomap option json_read"
  json_member :: "string \<Rightarrow> string json_read"        \<comment> \<open>member \<open>domain\<close> or \<open>tenant_slug\<close>\<close>
  json_login :: "string \<Rightarrow> (string \<times> string) json_read"

record admin_session =
  as_token_hash :: string
  as_operator :: string
  as_credential :: string
  as_csrf_hash :: string
  as_expires :: int

record admin_cfg =
  ac_origin :: string
  ac_host :: string
  ac_secure :: bool
  ac_ttl :: int
  ac_operators :: "(string, string) gomap"      \<comment> \<open>operator name to SHA-256 of its token\<close>
  ac_ui :: bool
  ac_store :: "string option"                   \<comment> \<open>name of the browser-session store\<close>
  ac_manager :: bool                            \<comment> \<open>it implements \<open>login.SessionManager\<close>\<close>

record admin_sys =
  ad_db :: mtdb
  ad_sessions :: "admin_session list"
  ad_revoked :: "(string \<times> string option) list"  \<comment> \<open>revocations sent: address, session ID or all\<close>

record admin_env =
  ae_now :: int
  ae_db_now :: int                              \<comment> \<open>\<open>CURRENT_TIMESTAMP\<close>\<close>
  ae_allow :: bool
  ae_token :: string
  ae_uuid :: string
  ae_fault :: faults
  ae_store_fault :: bool                        \<comment> \<open>the session store call fails\<close>

datatype admin_data =
    DStatus nat
  | DTenants "tenant_view list"
  | DDomains "string list"
  | DPolicy policy_view
  | DOverrides "(string, check_map) gomap"
  | DUsers "user_view list"
  | DMemberships "string list"

datatype admin_resp =
    RProblem nat string
  | RRedirect string
  | RUi
  | RLogin string string string                 \<comment> \<open>operator, cookie value, CSRF token\<close>
  | RMe string string
  | RSignedOut
  | RSaved int
  | RData int admin_data
  | RSessions bool string
  | RRevoked

definition api_prefix :: string where
  "api_prefix = ''/api/auth-admin/v1''"

definition problem_of :: "err \<Rightarrow> admin_resp" where
  "problem_of e = (case map_db_error e of
     ErrProblem st code _ \<Rightarrow> RProblem st code | _ \<Rightarrow> RProblem 500 ''internal_error'')"

subsection \<open>Bodies and headers\<close>

definition json_blank :: "string \<Rightarrow> bool" where
  "json_blank s = list_all (\<lambda>c. byte c = 32 \<or> byte c = 9 \<or> byte c = 10 \<or> byte c = 13) s"

definition decode_body :: "'a admin_lib_scheme \<Rightarrow> http_req \<Rightarrow> (string \<Rightarrow> 'v json_read) \<Rightarrow> err + 'v" where
  "decode_body A r parse =
     (if media_type A (rq_header r ''Content-Type'') \<noteq> Some ''application/json'' then
        Inl (ErrProblem 415 ''content_type'' ''Content-Type must be application/json'')
      else case parse (take 65536 (rq_body r)) of
        JBad \<Rightarrow> Inl (invalid ''Invalid JSON request'')
      | JShort \<Rightarrow>
          if 65536 < length (rq_body r) then Inl (ErrProblem 413 ''too_large'' ''Request body exceeds 64KiB'')
          else Inl (invalid ''Invalid JSON request'')
      | JValue v rest \<Rightarrow>
          if json_blank rest \<and> length (rq_body r) \<le> 65536 then Inr v
          else Inl (invalid ''Expected one JSON object''))"

definition expected_revision :: "http_req \<Rightarrow> err + int" where
  "expected_revision r =
     (let v = rq_header r ''If-Match'' in
      if length v < 3 \<or> hd v \<noteq> CHR 0x22 \<or> last v \<noteq> CHR 0x22 then
        Inl (ErrProblem 428 ''revision_required'' ''Send the quoted revision in If-Match'')
      else case parse_int64 (butlast (tl v)) of
        None \<Rightarrow> Inl (invalid ''Invalid revision'')
      | Some n \<Rightarrow> if n < 0 then Inl (invalid ''Invalid revision'') else Inr n)"

subsection \<open>Mutations\<close>

text \<open>The closure \<open>mutate\<close> that the handler passes to \<open>Store.write\<close>.\<close>

datatype admin_mutation =
    SaveTenant string tenant_input bool
  | AddDomain string string
  | RemoveDomain string string
  | SavePolicy string policy_input
  | SaveUser string user_input bool
  | SaveMembership string string bool
  | SaveOverrides string string "(string, check_map) gomap"

definition run_mutation ::
  "'a lib_scheme \<Rightarrow> faults \<Rightarrow> string \<Rightarrow> admin_mutation \<Rightarrow> mtdb \<Rightarrow> err + mtdb" where
  "run_mutation L flt nid m = (case m of
       SaveTenant target inp create \<Rightarrow> save_tenant L flt nid target inp create
     | AddDomain s dmn \<Rightarrow> add_domain L flt s dmn
     | RemoveDomain s dmn \<Rightarrow> remove_domain L flt s dmn
     | SavePolicy s p \<Rightarrow> save_policy L flt s p
     | SaveUser uid inp create \<Rightarrow> save_user L flt uid inp create
     | SaveMembership uid s remove \<Rightarrow> save_membership L flt uid s remove
     | SaveOverrides uid s cs \<Rightarrow> save_membership_auth L flt uid s cs)"

text \<open>The mutation, its audited fields and its audited resource.\<close>

definition plan_write ::
  "'a admin_lib_scheme \<Rightarrow> admin_env \<Rightarrow> http_req \<Rightarrow> string \<Rightarrow> err + admin_mutation \<times> string list \<times> string" where
  "plan_write A env r path =
     (let parts = split_on CHR ''/'' path; m = rq_method r; n = length parts;
          is = (\<lambda>i s. i < n \<and> parts ! i = s) in
      if (path = ''tenants'' \<and> m = ''POST'') \<or> (n = 2 \<and> is 0 ''tenants'' \<and> m = ''PUT'') then
        (let create = (path = ''tenants'') in
         andthen (andthen (decode_body A r (json_tenant A)) (tenant_validate A create)) (\<lambda>body.
         let target = (if create then tin_slug body else parts ! 1) in
         Inr (SaveTenant target body create,
              [''name'', ''enabled''] @ map (\<lambda>(k, _). ''metadata:'' @ k) (tin_meta body),
              if create then ''tenants/'' @ target else path)))
      else if n = 3 \<and> is 0 ''tenants'' \<and> is 2 ''domains'' \<and> m = ''POST'' then
        andthen (andthen (decode_body A r (json_member A)) (dns_domain A)) (\<lambda>dmn.
        Inr (AddDomain (parts ! 1) dmn, [''domains''], path))
      else if n = 4 \<and> is 0 ''tenants'' \<and> is 2 ''domains'' \<and> m = ''DELETE'' then
        andthen (dns_domain A (parts ! 3)) (\<lambda>dmn.
        Inr (RemoveDomain (parts ! 1) dmn, [''domains''], path))
      else if n = 3 \<and> is 0 ''tenants'' \<and> is 2 ''auth'' \<and> m = ''PUT'' then
        andthen (andthen (decode_body A r (json_policy A)) (policy_validate A)) (\<lambda>body.
        Inr (SavePolicy (parts ! 1) body,
             (if pin_auto body = None then [] else [''auth:auto_add'']) @
             (if pin_providers body = None then [] else [''auth:providers'']) @
             map (\<lambda>(p, _). ''auth:checks:'' @ p) (pin_checks body), path))
      else if (path = ''users'' \<and> m = ''POST'') \<or> (n = 2 \<and> is 0 ''users'' \<and> m = ''PUT'') then
        (let create = (path = ''users'') in
         andthen (andthen (decode_body A r (json_user A)) (user_validate A)) (\<lambda>body.
         andthen (if create then Inr (ae_uuid env)
                  else andthen (user_id A (parts ! 1)) (\<lambda>_. Inr (parts ! 1))) (\<lambda>uid.
         Inr (SaveUser uid body create,
              [''email'', ''name'', ''enabled''] @ (if uin_default body = None then [] else [''default_tenant_slug'']),
              if create then ''users/'' @ uid else path))))
      else if n = 3 \<and> is 0 ''users'' \<and> is 2 ''memberships'' \<and> m = ''POST'' then
        andthen (andthen (decode_body A r (json_member A)) (slug A)) (\<lambda>s.
        andthen (user_id A (parts ! 1)) (\<lambda>_.
        Inr (SaveMembership (parts ! 1) s False, [''memberships''], path)))
      else if n = 5 \<and> is 0 ''users'' \<and> is 2 ''memberships'' \<and> is 4 ''auth'' \<and> m = ''PUT'' then
        andthen (andthen (decode_body A r (json_overrides A)) (membership_auth_validate A)) (\<lambda>cs.
        andthen (user_id A (parts ! 1)) (\<lambda>_.
        andthen (slug A (parts ! 3)) (\<lambda>s.
        Inr (SaveOverrides (parts ! 1) s cs, [''membership:auth_checks''], path))))
      else if n = 4 \<and> is 0 ''users'' \<and> is 2 ''memberships'' \<and> m = ''DELETE'' then
        andthen (user_id A (parts ! 1)) (\<lambda>_.
        Inr (SaveMembership (parts ! 1) (parts ! 3) True, [''memberships'', ''default_tenant_slug''], path))
      else Inl (ErrProblem 405 ''method_not_allowed'' ''Unsupported configuration operation''))"

definition api_write ::
  "'a admin_lib_scheme \<Rightarrow> admin_env \<Rightarrow> string \<Rightarrow> http_req \<Rightarrow> string \<Rightarrow> mtdb \<Rightarrow> mtdb \<times> (err + int)" where
  "api_write A env actor r path d =
     (case andthen (expected_revision r) (\<lambda>rv. andthen (plan_write A env r path) (\<lambda>p. Inr (rv, p))) of
        Inl e \<Rightarrow> (d, Inl e)
      | Inr (rv, m, fs, resource) \<Rightarrow>
          store_write (ae_fault env) rv actor (rq_method r) resource (sort fs)
            (run_mutation A (ae_fault env) (ae_uuid env) m) d)"

subsection \<open>Reads\<close>

definition page_number :: "http_req \<Rightarrow> string \<Rightarrow> nat \<Rightarrow> nat option" where
  "page_number r k dflt =
     (let raw = rq_query r k in
      if raw = [] then Some dflt
      else case parse_int64 raw of None \<Rightarrow> None | Some n \<Rightarrow> if n < 0 then None else Some (nat n))"

definition pagination :: "http_req \<Rightarrow> err + nat \<times> nat" where
  "pagination r =
     (case (page_number r ''limit'' 100, page_number r ''offset'' 0) of
        (Some l, Some off) \<Rightarrow>
          if l < 1 \<or> 200 < l \<or> 1000000 < off
          then Inl (invalid ''Limit must be 1-200 and offset at most 1000000'') else Inr (l, off)
      | _ \<Rightarrow> Inl (invalid ''Invalid pagination''))"

definition filters_of :: "'a lib_scheme \<Rightarrow> http_req \<Rightarrow> string \<Rightarrow> err + list_filters" where
  "filters_of L r path =
     (if path \<noteq> ''users'' \<and> path \<noteq> ''tenants'' then Inr no_filters
      else let q = trim_space (rq_query r ''q''); en = rq_query r ''enabled''; tn = rq_query r ''tenant'' in
      if (q \<noteq> [] \<and> \<not> text_value q 200) \<or> (en \<noteq> [] \<and> en \<noteq> ''true'' \<and> en \<noteq> ''false'')
      then Inl (invalid ''Invalid search or enabled filter'')
      else if tn = [] then Inr \<lparr>fl_query = q, fl_enabled = en, fl_tenant = []\<rparr>
      else if path \<noteq> ''users'' then Inl (invalid ''Tenant filter applies to users only'')
      else andthen (slug L tn) (\<lambda>s. Inr \<lparr>fl_query = q, fl_enabled = en, fl_tenant = s\<rparr>))"

definition read_data ::
  "'a lib_scheme \<Rightarrow> faults \<Rightarrow> string \<Rightarrow> nat \<Rightarrow> nat \<Rightarrow> list_filters \<Rightarrow> mtdb \<Rightarrow> err + admin_data" where
  "read_data L flt path l off fs d =
     (let parts = split_on CHR ''/'' path; n = length parts; is = (\<lambda>i s. i < n \<and> parts ! i = s);
          at = (\<lambda>i. parts ! i) in
      if path = ''status'' then Inr (DStatus 1)
      else if path = ''tenants'' then andthen (tenants_query L flt [] l off fs d) (\<lambda>x. Inr (DTenants x))
      else if n = 2 \<and> is 0 ''tenants'' then
        andthen (tenants_query L flt (at 1) 1 0 no_filters d) (\<lambda>x. Inr (DTenants x))
      else if n = 3 \<and> is 0 ''tenants'' \<and> is 2 ''domains'' then
        andthen (domains_query L flt (at 1) d) (\<lambda>x. Inr (DDomains x))
      else if n = 3 \<and> is 0 ''tenants'' \<and> is 2 ''auth'' then
        andthen (policy_query L flt (at 1) d) (\<lambda>x. Inr (DPolicy x))
      else if n = 5 \<and> is 0 ''users'' \<and> is 2 ''memberships'' \<and> is 4 ''auth'' then
        andthen (user_id L (at 1)) (\<lambda>_. andthen (slug L (at 3)) (\<lambda>s.
        andthen (membership_auth_query L flt (at 1) s d) (\<lambda>x. Inr (DOverrides x))))
      else if path = ''users'' then andthen (users_query L flt [] l off fs d) (\<lambda>x. Inr (DUsers x))
      else if n = 2 \<and> is 0 ''users'' then
        andthen (user_id L (at 1)) (\<lambda>_.
        andthen (users_query L flt (at 1) 1 0 no_filters d) (\<lambda>x. Inr (DUsers x)))
      else if n = 3 \<and> is 0 ''users'' \<and> is 2 ''memberships'' then
        andthen (user_id L (at 1)) (\<lambda>_.
        andthen (users_query L flt (at 1) 1 0 no_filters d) (\<lambda>x. Inr (DMemberships (uv_memberships (hd x)))))
      else Inl missing)"

definition api_read :: "'a lib_scheme \<Rightarrow> faults \<Rightarrow> http_req \<Rightarrow> string \<Rightarrow> mtdb \<Rightarrow> err + int \<times> admin_data" where
  "api_read L flt r path d =
     andthen (pagination r) (\<lambda>(l, off).
     andthen (filters_of L r path) (\<lambda>fs.
     store_read flt (read_data L flt path l off fs) d))"

subsection \<open>Operator sessions\<close>

definition cookie_name :: "admin_cfg \<Rightarrow> string" where
  "cookie_name cfg = (if ac_secure cfg then ''__Host-auth_admin'' else ''auth_admin_local'')"

definition unauthorized :: "string \<Rightarrow> err" where
  "unauthorized m = ErrProblem 401 ''unauthorized'' m"

definition current ::
  "'a admin_lib_scheme \<Rightarrow> admin_cfg \<Rightarrow> admin_env \<Rightarrow> http_req \<Rightarrow> admin_session list \<Rightarrow> err + admin_session" where
  "current A cfg env r ss =
     (case rq_cookie r (cookie_name cfg) of
        None \<Rightarrow> Inl (unauthorized ''Sign in with an operator token'')
      | Some v \<Rightarrow>
          if length v \<noteq> 43 then Inl (unauthorized ''Sign in with an operator token'')
          else andthen (stmt (ae_fault env) ''session'' (Inr ())) (\<lambda>_.
          case List.find (\<lambda>x. as_token_hash x = sha256 A v \<and> ae_db_now env < as_expires x) ss of
            None \<Rightarrow> Inl (unauthorized ''Session expired. Sign in again.'')
          | Some x \<Rightarrow>
              if map_of (ac_operators cfg) (as_operator x) \<noteq> Some (as_credential x)
              then Inl (unauthorized ''Operator credentials changed. Sign in again.'')
              else Inr x))"

definition csrf_of :: "'a admin_lib_scheme \<Rightarrow> string \<Rightarrow> string" where
  "csrf_of A token = b64url A (sha256 A (''csrf:'' @ token))"

text \<open>The transaction of a sign-in: expired rows go, the old cookie's row goes, the new row comes.\<close>

definition login_tx ::
  "'a admin_lib_scheme \<Rightarrow> admin_cfg \<Rightarrow> admin_env \<Rightarrow> http_req \<Rightarrow> string \<Rightarrow> string \<Rightarrow>
   admin_session list \<Rightarrow> err + admin_session list" where
  "login_tx A cfg env r operator credential ss =
     andthen (stmt (ae_fault env) ''begin'' (Inr ())) (\<lambda>_.
     andthen (stmt (ae_fault env) ''expire'' (Inr (filter (\<lambda>x. ae_db_now env < as_expires x) ss))) (\<lambda>s1.
     andthen (case rq_cookie r (cookie_name cfg) of None \<Rightarrow> Inr s1
              | Some old \<Rightarrow> stmt (ae_fault env) ''replace''
                  (Inr (filter (\<lambda>x. as_token_hash x \<noteq> sha256 A old) s1))) (\<lambda>s2.
     andthen (stmt (ae_fault env) ''insert''
       (if sha256 A (ae_token env) \<in> as_token_hash ` set s2 then Inl (ErrPq ''23505'')
        else Inr (s2 @ [\<lparr>as_token_hash = sha256 A (ae_token env), as_operator = operator,
               as_credential = credential, as_csrf_hash = sha256 A (csrf_of A (ae_token env)),
               as_expires = ae_now env + ac_ttl cfg\<rparr>]))) (\<lambda>s3.
     andthen (stmt (ae_fault env) ''commit'' (Inr ())) (\<lambda>_. Inr s3)))))"

definition admin_login ::
  "'a admin_lib_scheme \<Rightarrow> admin_cfg \<Rightarrow> admin_env \<Rightarrow> http_req \<Rightarrow> admin_sys \<Rightarrow> admin_sys \<times> admin_resp" where
  "admin_login A cfg env r sys =
     (if \<not> ae_allow env then (sys, RProblem 429 ''rate_limited'')
      else case decode_body A r (json_login A) of
        Inl e \<Rightarrow> (sys, problem_of e)
      | Inr (operator, token) \<Rightarrow>
      (case map_of (ac_operators cfg) operator of
         None \<Rightarrow> (sys, RProblem 401 ''unauthorized'')
       | Some expected \<Rightarrow>
      if expected \<noteq> sha256 A token then (sys, RProblem 401 ''unauthorized'')
      else case login_tx A cfg env r operator expected (ad_sessions sys) of
        Inl e \<Rightarrow> (sys, problem_of e)
      | Inr ss \<Rightarrow> (sys\<lparr>ad_sessions := ss\<rparr>, RLogin operator (ae_token env) (csrf_of A (ae_token env)))))"

definition admin_logout ::
  "'a admin_lib_scheme \<Rightarrow> admin_cfg \<Rightarrow> admin_env \<Rightarrow> http_req \<Rightarrow> admin_sys \<Rightarrow> admin_sys \<times> admin_resp" where
  "admin_logout A cfg env r sys =
     (let v = (case rq_cookie r (cookie_name cfg) of None \<Rightarrow> [] | Some v \<Rightarrow> v) in
      case stmt (ae_fault env) ''logout'' (Inr ()) of
        Inl e \<Rightarrow> (sys, problem_of e)
      | Inr _ \<Rightarrow> (sys\<lparr>ad_sessions := filter (\<lambda>x. as_token_hash x \<noteq> sha256 A v) (ad_sessions sys)\<rparr>, RSignedOut))"

definition admin_me ::
  "'a admin_lib_scheme \<Rightarrow> admin_cfg \<Rightarrow> http_req \<Rightarrow> admin_session \<Rightarrow> admin_resp" where
  "admin_me A cfg r cur =
     (let v = (case rq_cookie r (cookie_name cfg) of None \<Rightarrow> [] | Some v \<Rightarrow> v)
      in RMe (as_operator cur) (csrf_of A v))"

subsection \<open>Browser sessions\<close>

text \<open>
  An audit row outside a registry mutation: it carries the current revision and bumps nothing.
  \<open>l\<close> tells the two calls of one request apart.
\<close>

definition session_audit ::
  "faults \<Rightarrow> string \<Rightarrow> string \<Rightarrow> string \<Rightarrow> string \<Rightarrow> mtdb \<Rightarrow> err + mtdb" where
  "session_audit flt l actor action resource d =
     stmt flt (''session_audit:'' @ l) (Inr (insert_audit \<lparr>au_operator = actor, au_action = action,
        au_resource = resource, au_fields = [''sessions''], au_revision = db_revision d\<rparr> d))"

definition management_id :: "string \<Rightarrow> bool" where
  "management_id s = (length s = 64 \<and>
     list_all (\<lambda>c. is_digit c \<or> 97 \<le> byte c \<and> byte c \<le> 102) s)"

text \<open>Limit and offset of a session listing: any out-of-range value is an error.\<close>

definition session_pagination :: "http_req \<Rightarrow> bool" where
  "session_pagination r =
     (let num = (\<lambda>k d. if rq_query r k = [] then Some d else parse_int64 (rq_query r k)) in
      case (num ''limit'' 50, num ''offset'' 0) of
        (Some l, Some off) \<Rightarrow> 1 \<le> l \<and> l \<le> 200 \<and> 0 \<le> off \<and> off \<le> 1000000
      | _ \<Rightarrow> False)"

text \<open>
  The two stores share no transaction: the request is audited, then the store is told to
  revoke one session (\<open>Some\<close> id) or all of them, then the completion is audited.
\<close>

definition revoke_sessions ::
  "admin_env \<Rightarrow> string \<Rightarrow> string \<Rightarrow> string \<Rightarrow> string option \<Rightarrow> admin_sys \<Rightarrow> admin_sys \<times> admin_resp" where
  "revoke_sessions env actor uid addr target sys =
     (let action = (if target = None then ''session.revoke_all'' else ''session.revoke'');
          resource = ''users/'' @ uid @ ''/sessions'' in
      case session_audit (ae_fault env) ''requested'' actor (action @ ''.requested'') resource (ad_db sys) of
        Inl e \<Rightarrow> (sys, problem_of e)
      | Inr d1 \<Rightarrow>
      (let sys1 = sys\<lparr>ad_db := d1, ad_revoked := ad_revoked sys @ [(addr, target)]\<rparr> in
       if ae_store_fault env then (sys1, RProblem 503 ''session_store_unavailable'')
       else case session_audit (ae_fault env) ''completed'' actor (action @ ''.completed'') resource d1 of
         Inl e \<Rightarrow> (sys1, problem_of e)
       | Inr d2 \<Rightarrow> (sys1\<lparr>ad_db := d2\<rparr>, RRevoked)))"

definition user_sessions ::
  "'a admin_lib_scheme \<Rightarrow> admin_cfg \<Rightarrow> admin_env \<Rightarrow> string \<Rightarrow> http_req \<Rightarrow> string list \<Rightarrow>
   admin_sys \<Rightarrow> admin_sys \<times> admin_resp" where
  "user_sessions A cfg env actor r parts sys =
     (let m = rq_method r; n = length parts; uid = parts ! 1;
          store = (case ac_store cfg of None \<Rightarrow> ''disabled'' | Some s \<Rightarrow> s) in
      if 4 < n then (sys, problem_of missing)
      else if user_id A uid \<noteq> Inr () then (sys, RProblem 400 ''invalid_request'')
      else if (m \<noteq> ''GET'' \<and> m \<noteq> ''DELETE'') \<or> (m = ''GET'' \<and> n \<noteq> 3)
      then (sys, RProblem 405 ''method_not_allowed'')
      else case stmt (ae_fault env) ''email'' (uuid_param A uid) of
        Inl e \<Rightarrow> (sys, problem_of e)
      | Inr u \<Rightarrow>
      (case List.find (\<lambda>x. us_id x = u) (db_users (ad_db sys)) of
        None \<Rightarrow> (sys, problem_of missing)
      | Some row \<Rightarrow>
       if m = ''GET'' then
         (sys, if \<not> session_pagination r then RProblem 400 ''invalid_request''
               else if ac_manager cfg \<and> ae_store_fault env then RProblem 503 ''session_store_unavailable''
               else RSessions (ac_manager cfg) store)
       else if \<not> ac_manager cfg then (sys, RProblem 409 ''session_management_unavailable'')
       else if n = 4 \<and> \<not> management_id (parts ! 3) then (sys, RProblem 400 ''invalid_request'')
       else revoke_sessions env actor uid (to_lower A (trim_space (us_email row)))
              (if n = 4 then Some (parts ! 3) else None) sys))"

subsection \<open>The handler\<close>

definition api ::
  "'a admin_lib_scheme \<Rightarrow> admin_cfg \<Rightarrow> admin_env \<Rightarrow> string \<Rightarrow> http_req \<Rightarrow> admin_sys \<Rightarrow> admin_sys \<times> admin_resp" where
  "api A cfg env actor r sys =
     (if \<not> has_prefix (rq_path r) (api_prefix @ ''/'') then (sys, problem_of missing)
      else let path = trim_prefix (rq_path r) (api_prefix @ ''/''); parts = split_on CHR ''/'' path in
      if 3 \<le> length parts \<and> parts ! 0 = ''users'' \<and> parts ! 2 = ''sessions'' then
        user_sessions A cfg env actor r parts sys
      else if rq_method r = ''GET'' then
        (sys, case api_read A (ae_fault env) r path (ad_db sys) of
           Inl e \<Rightarrow> problem_of e | Inr (rv, x) \<Rightarrow> RData rv x)
      else case api_write A env actor r path (ad_db sys) of
        (d', Inl e) \<Rightarrow> (sys\<lparr>ad_db := d'\<rparr>, problem_of e)
      | (d', Inr rv) \<Rightarrow> (sys\<lparr>ad_db := d'\<rparr>, RSaved rv))"

definition origin_rejected :: "admin_cfg \<Rightarrow> http_req \<Rightarrow> bool" where
  "origin_rejected cfg r =
     (let origin = rq_header r ''Origin'';
          write = (rq_method r \<noteq> ''GET'' \<and> rq_method r \<noteq> ''HEAD'');
          public = (rq_path r = ''/'' \<or> has_prefix (rq_path r) ''/admin/'') in
      (origin \<noteq> [] \<and> origin \<noteq> ac_origin cfg) \<or> (write \<and> origin \<noteq> ac_origin cfg) \<or>
      (rq_header r ''Sec-Fetch-Site'' = ''cross-site'' \<and> (write \<or> \<not> public)))"

definition serve ::
  "'a admin_lib_scheme \<Rightarrow> admin_cfg \<Rightarrow> admin_env \<Rightarrow> http_req \<Rightarrow> admin_sys \<Rightarrow> admin_sys \<times> admin_resp" where
  "serve A cfg env r sys =
     (let m = rq_method r; path = rq_path r; write = (m \<noteq> ''GET'' \<and> m \<noteq> ''HEAD'') in
      if rq_host r \<noteq> ac_host cfg then (sys, RProblem 403 ''invalid_host'')
      else if origin_rejected cfg r then (sys, RProblem 403 ''origin_rejected'')
      else if path = ''/'' then (sys, RRedirect ''/admin/'')
      else if has_prefix path ''/admin/'' \<and> ac_ui cfg then
        (if write then (sys, RProblem 405 ''method_not_allowed'') else (sys, RUi))
      else if path = api_prefix @ ''/session'' \<and> m = ''POST'' then admin_login A cfg env r sys
      else case current A cfg env r (ad_sessions sys) of
        Inl e \<Rightarrow> (sys, problem_of e)
      | Inr cur \<Rightarrow>
      if write \<and> sha256 A (rq_header r ''X-CSRF-Token'') \<noteq> as_csrf_hash cur then
        (sys, RProblem 403 ''csrf_rejected'')
      else if path = api_prefix @ ''/session/me'' \<and> m = ''GET'' then (sys, admin_me A cfg r cur)
      else if path = api_prefix @ ''/session'' \<and> m = ''DELETE'' then admin_logout A cfg env r sys
      else api A cfg env (as_operator cur) r sys)"

end
