(* ===== verification/Admin_Safety.thy ===== *)
theory Admin_Safety
  imports Admin_Server
begin

text \<open>
  What the operator API guarantees: who can change the registry, what every change leaves
  behind, sign-in, and the audit trail of browser-session revocations.
\<close>

subsection \<open>Every mutation is a provider of the contract\<close>

interpretation run_mutation: mutation "run_mutation L flt nid m" "registry_ok L" for L flt nid m
proof (unfold_locales, goal_cases)
  case (1 d d')
  then show ?case
    by (cases m) (auto simp: run_mutation_def intro: save_tenant.keeps save_user.keeps save_policy.keeps
        save_membership.keeps save_membership_auth.keeps add_domain.keeps remove_domain.keeps)
next
  case (2 d d')
  then show ?case
    by (cases m) (auto simp: run_mutation_def dest: save_tenant.audit_frame save_user.audit_frame
        save_policy.audit_frame save_membership.audit_frame save_membership_auth.audit_frame
        add_domain.audit_frame remove_domain.audit_frame)
next
  case (3 d d')
  then show ?case
    by (cases m) (auto simp: run_mutation_def dest: save_tenant.revision_mono save_user.revision_mono
        save_policy.revision_mono save_membership.revision_mono save_membership_auth.revision_mono
        add_domain.revision_mono remove_domain.revision_mono)
next
  case (4 r d)
  show ?case by (rule save_policy.inv_audit)
qed

lemma plan_write_method:
  "plan_write A env r path = Inr p \<Longrightarrow> rq_method r \<in> {''POST'', ''PUT'', ''DELETE''}"
  by (auto simp: plan_write_def Let_def split: if_split_asm)

lemma api_write_cases:
  assumes "api_write A env actor r path d = (d', res)"
  obtains (failed) e where "res = Inl e" "d' = d"
  | (committed) m fs resource where "res = Inr (db_revision d')" "rq_method r \<in> {''POST'', ''PUT'', ''DELETE''}"
      "expected_revision r = Inr (db_revision d)" "plan_write A env r path = Inr (m, fs, resource)"
      "store_write (ae_fault env) (db_revision d) actor (rq_method r) resource (sort fs)
         (run_mutation A (ae_fault env) (ae_uuid env) m) d = (d', res)"
proof (cases "andthen (expected_revision r) (\<lambda>rv. andthen (plan_write A env r path) (\<lambda>p. Inr (rv, p)))")
  case (Inl e)
  with assms show ?thesis by (intro failed [of e]) (simp_all add: api_write_def)
next
  case (Inr q)
  then obtain rv m fs resource where q: "q = (rv, m, fs, resource)" "expected_revision r = Inr rv"
    "plan_write A env r path = Inr (m, fs, resource)" by (cases q) auto
  have w: "store_write (ae_fault env) rv actor (rq_method r) resource (sort fs)
      (run_mutation A (ae_fault env) (ae_uuid env) m) d = (d', res)"
    using assms Inr q(1) by (simp add: api_write_def)
  show ?thesis
  proof (cases res)
    case (Inl e)
    with w run_mutation.write_error show ?thesis by (intro failed [of e]) auto
  next
    case res: (Inr rv')
    note a = run_mutation.write_audited [OF w [unfolded res]]
    show ?thesis
      by (rule committed [of m fs resource]) (use a w q res plan_write_method [OF q(3)] in auto)
  qed
qed

lemma api_write_committed:
  assumes "api_write A env actor r path d = (d', Inr rv)"
  shows "expected_revision r = Inr (db_revision d) \<and> db_revision d' = rv \<and> db_revision d \<le> rv \<and>
     (\<exists>row. db_audit d' = db_audit d @ [row] \<and> au_operator row = actor \<and>
        au_action row = rq_method r \<and> au_revision row = rv)"
  by (rule api_write_cases [OF assms]) (auto dest!: run_mutation.write_audited)

lemma api_write_keeps:
  assumes "api_write A env actor r path d = (d', res)" "registry_ok A d"
  shows "registry_ok A d'"
  by (rule api_write_cases [OF assms(1)]) (use assms(2) in \<open>auto dest: run_mutation.write_keeps\<close>)

subsection \<open>Requests that pass the guards\<close>

text \<open>A live session of the request's cookie whose operator's credential is unchanged.\<close>

definition live_session ::
  "'a admin_lib_scheme \<Rightarrow> admin_cfg \<Rightarrow> admin_env \<Rightarrow> http_req \<Rightarrow> admin_session list \<Rightarrow> admin_session \<Rightarrow> bool" where
  "live_session A cfg env r ss x \<longleftrightarrow> x \<in> set ss \<and> ae_db_now env < as_expires x \<and>
     (\<exists>v. rq_cookie r (cookie_name cfg) = Some v \<and> as_token_hash x = sha256 A v) \<and>
     map_of (ac_operators cfg) (as_operator x) = Some (as_credential x)"

lemma current_live: "current A cfg env r ss = Inr x \<Longrightarrow> live_session A cfg env r ss x"
  unfolding current_def live_session_def
  by (auto split: option.splits if_splits dest: find_SomeD)

lemma problem_not_revoked [simp]:
  "problem_of e \<noteq> RRevoked" "RRevoked \<noteq> problem_of e" "problem_of e \<noteq> RSaved rv"
  "problem_of e \<noteq> RLogin x y z" "problem_of e \<noteq> RSignedOut"
  by (auto simp: problem_of_def split: err.splits)

text \<open>The address under which the sessions of user \<open>uid\<close> are kept.\<close>

definition session_address :: "'a lib_scheme \<Rightarrow> mtdb \<Rightarrow> string \<Rightarrow> string \<Rightarrow> bool" where
  "session_address L d uid addr \<longleftrightarrow> (\<exists>row \<in> set (db_users d).
     uuid_param L uid = Inr (us_id row) \<and> addr = to_lower L (trim_space (us_email row)))"

lemma user_sessions_revoke:
  assumes "user_sessions A cfg env actor r parts sys = (sys', resp)"
  shows "sys' = sys \<and> resp \<noteq> RRevoked \<and> (\<forall>rv. resp \<noteq> RSaved rv) \<or> rq_method r = ''DELETE'' \<and>
    (\<exists>addr. session_address A (ad_db sys) (parts ! 1) addr \<and>
       revoke_sessions env actor (parts ! 1) addr (if length parts = 4 then Some (parts ! 3) else None) sys =
       (sys', resp))"
proof (cases "4 < length parts \<or> user_id A (parts ! 1) \<noteq> Inr () \<or> rq_method r \<noteq> ''DELETE''")
  case True
  then show ?thesis
    using assms by (auto simp: user_sessions_def Let_def split: if_split_asm sum.splits option.splits)
next
  case False
  then have m: "rq_method r = ''DELETE''" by blast
  from False have g: "\<not> 4 < length parts" "\<not> user_id A (parts ! 1) \<noteq> Inr ()" by blast+
  show ?thesis
  proof (cases "stmt (ae_fault env) ''email'' (uuid_param A (parts ! 1))")
    case (Inl e)
    with assms g m have "sys' = sys" "resp = problem_of e" by (simp_all add: user_sessions_def Let_def)
    then show ?thesis by simp
  next
    case (Inr u)
    show ?thesis
    proof (cases "List.find (\<lambda>x. us_id x = u) (db_users (ad_db sys))")
      case None
      with assms g m Inr show ?thesis by (auto simp: user_sessions_def Let_def stmt_none)
    next
      case (Some row)
      from Inr find_SomeD [OF Some]
      have "session_address A (ad_db sys) (parts ! 1) (to_lower A (trim_space (us_email row)))"
        by (auto simp: session_address_def)
      moreover have "(if \<not> ac_manager cfg then (sys, RProblem 409 ''session_management_unavailable'')
        else if length parts = 4 \<and> \<not> management_id (parts ! 3) then (sys, RProblem 400 ''invalid_request'')
        else revoke_sessions env actor (parts ! 1) (to_lower A (trim_space (us_email row)))
              (if length parts = 4 then Some (parts ! 3) else None) sys) = (sys', resp)"
        using assms g m Inr Some unfolding user_sessions_def Let_def by (simp add: stmt_none)
      ultimately show ?thesis using m by (auto split: if_split_asm)
    qed
  qed
qed

definition session_rows :: "string \<Rightarrow> string \<Rightarrow> int \<Rightarrow> string list \<Rightarrow> audit_row list" where
  "session_rows actor resource rv actions = map (\<lambda>a. \<lparr>au_operator = actor, au_action = a,
     au_resource = resource, au_fields = [''sessions''], au_revision = rv\<rparr>) actions"

lemma revoke_sessions_cases:
  assumes "revoke_sessions env actor uid addr target sys = (sys', resp)"
  shows "(\<forall>rv. resp \<noteq> RSaved rv) \<and> ((sys' = sys \<and> resp \<noteq> RRevoked) \<or>
    (ad_sessions sys' = ad_sessions sys \<and> ad_revoked sys' = ad_revoked sys @ [(addr, target)] \<and>
     ad_db sys' = (ad_db sys)\<lparr>db_audit := db_audit (ad_db sys) @
       session_rows actor (''users/'' @ uid @ ''/sessions'') (db_revision (ad_db sys))
         (let a = (if target = None then ''session.revoke_all'' else ''session.revoke'') in
          if resp = RRevoked then [a @ ''.requested'', a @ ''.completed''] else [a @ ''.requested''])\<rparr> \<and>
     (ae_store_fault env \<longrightarrow> resp \<noteq> RRevoked)))"
proof (cases "ae_fault env ''session_audit:requested''")
  case (Some e)
  with assms show ?thesis
    by (auto simp: revoke_sessions_def session_audit_def stmt_def Let_def)
next
  case None
  show ?thesis
  proof (cases "ae_store_fault env")
    case True
    with None assms show ?thesis
      by (auto simp: revoke_sessions_def session_audit_def stmt_def Let_def session_rows_def insert_audit_def)
  next
    case False
    show ?thesis
    proof (cases "ae_fault env ''session_audit:completed''")
      case (Some e)
      with None False assms show ?thesis
        by (auto simp: revoke_sessions_def session_audit_def stmt_def Let_def session_rows_def insert_audit_def)
    next
      case none: None
      with None False assms show ?thesis
        by (auto simp: revoke_sessions_def session_audit_def stmt_def Let_def session_rows_def insert_audit_def)
    qed
  qed
qed

text \<open>What one API request can do to the server's state.\<close>

lemma api_cases:
  assumes "api A cfg env actor r sys = (sys', resp)"
  obtains (same) "sys' = sys" "\<And>rv. resp \<noteq> RSaved rv" "resp \<noteq> RRevoked"
  | (revoked) uid addr target where "rq_method r = ''DELETE''" "session_address A (ad_db sys) uid addr"
      "revoke_sessions env actor uid addr target sys = (sys', resp)" "\<And>rv. resp \<noteq> RSaved rv"
  | (written) path d' rv where "rq_method r \<in> {''POST'', ''PUT'', ''DELETE''}"
      "api_write A env actor r path (ad_db sys) = (d', Inr rv)" "resp = RSaved rv"
      "sys' = sys\<lparr>ad_db := d'\<rparr>"
proof -
  let ?path = "trim_prefix (rq_path r) (api_prefix @ ''/'')"
  let ?parts = "split_on CHR ''/'' ?path"
  note api = assms [unfolded api_def Let_def]
  consider (foreign) "\<not> has_prefix (rq_path r) (api_prefix @ ''/'')"
    | (sessions) "has_prefix (rq_path r) (api_prefix @ ''/'')"
        "3 \<le> length ?parts \<and> ?parts ! 0 = ''users'' \<and> ?parts ! 2 = ''sessions''"
    | (get) "has_prefix (rq_path r) (api_prefix @ ''/'')"
        "\<not> (3 \<le> length ?parts \<and> ?parts ! 0 = ''users'' \<and> ?parts ! 2 = ''sessions'')" "rq_method r = ''GET''"
    | (other) "has_prefix (rq_path r) (api_prefix @ ''/'')"
        "\<not> (3 \<le> length ?parts \<and> ?parts ! 0 = ''users'' \<and> ?parts ! 2 = ''sessions'')" "rq_method r \<noteq> ''GET''"
    by blast
  then show ?thesis
  proof cases
    case foreign
    with api have "sys' = sys" "resp = problem_of missing" by simp_all
    then show ?thesis by (intro same) simp_all
  next
    case sessions
    have us: "user_sessions A cfg env actor r ?parts sys = (sys', resp)"
      using api by (simp only: sessions not_True_eq_False if_False if_True simp_thms)
    from user_sessions_revoke [OF us] show ?thesis
    proof
      assume "sys' = sys \<and> resp \<noteq> RRevoked \<and> (\<forall>rv. resp \<noteq> RSaved rv)"
      then show ?thesis by (intro same) blast+
    next
      assume "rq_method r = ''DELETE'' \<and> (\<exists>addr. session_address A (ad_db sys) (?parts ! 1) addr \<and>
        revoke_sessions env actor (?parts ! 1) addr
        (if length ?parts = 4 then Some (?parts ! 3) else None) sys = (sys', resp))"
      then obtain addr where a: "rq_method r = ''DELETE''"
        "session_address A (ad_db sys) (?parts ! 1) addr" "revoke_sessions env actor (?parts ! 1) addr
        (if length ?parts = 4 then Some (?parts ! 3) else None) sys = (sys', resp)" by blast
      show ?thesis by (rule revoked [OF a]) (use revoke_sessions_cases [OF a(3)] in blast)
    qed
  next
    case get
    then have "sys' = sys" "resp = (case api_read A (ae_fault env) r ?path (ad_db sys) of
        Inl e \<Rightarrow> problem_of e | Inr (rv, x) \<Rightarrow> RData rv x)"
      using api unfolding if_not_P [OF get(2)] prod.inject by (auto simp: get(1,3))
    then show ?thesis by (intro same) (auto split: sum.splits prod.splits)
  next
    case other
    obtain d' res where w: "api_write A env actor r ?path (ad_db sys) = (d', res)" by fastforce
    have e: "(case res of Inl e \<Rightarrow> (sys\<lparr>ad_db := d'\<rparr>, problem_of e) | Inr rv \<Rightarrow> (sys\<lparr>ad_db := d'\<rparr>, RSaved rv)) = (sys', resp)"
      using api unfolding if_not_P [OF other(2)] by (simp add: other(1,3) w split: sum.splits)
    show ?thesis
    proof (cases res)
      case (Inl x)
      with w have "d' = ad_db sys" by (auto elim: api_write_cases)
      with e Inl show ?thesis by (intro same) auto
    next
      case (Inr rv)
      with w have "rq_method r \<in> {''POST'', ''PUT'', ''DELETE''}" by (auto elim: api_write_cases)
      with e Inr w show ?thesis by (intro written [of ?path d' rv]) auto
    qed
  qed
qed


lemma revoke_sessions_no_login:
  "revoke_sessions env actor uid addr target sys = (sys', resp) \<Longrightarrow>
     (\<forall>x y z. resp \<noteq> RLogin x y z) \<and> resp \<noteq> RSignedOut"
  unfolding revoke_sessions_def Let_def by (auto split: sum.splits if_split_asm)

lemma user_sessions_no_login:
  assumes "user_sessions A cfg env actor r parts sys = (sys', resp)"
  shows "(\<forall>x y z. resp \<noteq> RLogin x y z) \<and> resp \<noteq> RSignedOut"
  using assms unfolding user_sessions_def Let_def
  by (auto split: if_split_asm sum.splits option.splits dest: revoke_sessions_no_login)

lemma api_no_login:
  assumes "api A cfg env actor r sys = (sys', resp)"
  shows "(\<forall>x y z. resp \<noteq> RLogin x y z) \<and> resp \<noteq> RSignedOut"
  using assms unfolding api_def Let_def
  by (auto split: if_split_asm sum.splits prod.splits dest: user_sessions_no_login)

text \<open>The guards every change of the registry has passed, and the operator it is made by.\<close>

definition authorized ::
  "'a admin_lib_scheme \<Rightarrow> admin_cfg \<Rightarrow> admin_env \<Rightarrow> http_req \<Rightarrow> admin_sys \<Rightarrow> string \<Rightarrow> bool" where
  "authorized A cfg env r sys operator \<longleftrightarrow>
     rq_host r = ac_host cfg \<and> rq_header r ''Origin'' = ac_origin cfg \<and>
     (\<exists>x. live_session A cfg env r (ad_sessions sys) x \<and> as_operator x = operator \<and>
        sha256 A (rq_header r ''X-CSRF-Token'') = as_csrf_hash x)"

lemma serve_cases:
  assumes "serve A cfg env r sys = (sys', resp)"
  obtains (same) "sys' = sys" "\<And>rv. resp \<noteq> RSaved rv" "resp \<noteq> RRevoked" "\<And>x y z. resp \<noteq> RLogin x y z"
      "resp \<noteq> RSignedOut"
  | (login) "rq_method r = ''POST''" "rq_path r = api_prefix @ ''/session''"
      "rq_host r = ac_host cfg" "rq_header r ''Origin'' = ac_origin cfg"
      "admin_login A cfg env r sys = (sys', resp)"
  | (logout) operator where "rq_method r = ''DELETE''" "authorized A cfg env r sys operator"
      "admin_logout A cfg env r sys = (sys', resp)"
  | (api) cur where "rq_method r \<noteq> ''GET''" "rq_method r \<noteq> ''HEAD''"
      "current A cfg env r (ad_sessions sys) = Inr cur"
      "authorized A cfg env r sys (as_operator cur)" "api A cfg env (as_operator cur) r sys = (sys', resp)"
proof -
  let ?m = "rq_method r"
  let ?path = "rq_path r"
  let ?w = "?m \<noteq> ''GET'' \<and> ?m \<noteq> ''HEAD''"
  note step = assms [unfolded serve_def Let_def]
  show ?thesis
  proof (cases "rq_host r \<noteq> ac_host cfg \<or> origin_rejected cfg r \<or> ?path = ''/'' \<or>
      has_prefix ?path ''/admin/'' \<and> ac_ui cfg")
    case True
    with step show ?thesis by (intro same) (auto split: if_split_asm)
  next
    case False
    then have g: "rq_host r = ac_host cfg" "\<not> origin_rejected cfg r" "?path \<noteq> ''/''"
      "\<not> (has_prefix ?path ''/admin/'' \<and> ac_ui cfg)" by blast+
    then have origin: "rq_header r ''Origin'' = ac_origin cfg" if ?w
      using that by (auto simp: origin_rejected_def Let_def)
    note step = step [unfolded if_not_P [OF g(2)] if_not_P [OF g(3)] if_not_P [OF g(4)] g(1)
      simp_thms not_True_eq_False if_False]
    show ?thesis
    proof (cases "?path = api_prefix @ ''/session'' \<and> ?m = ''POST''")
      case True
      then show ?thesis by (intro login) (use step g origin in auto)
    next
      case not_login: False
      note step = step [unfolded if_not_P [OF not_login]]
      show ?thesis
      proof (cases "current A cfg env r (ad_sessions sys)")
        case (Inl e)
        with step show ?thesis by (intro same) auto
      next
        case (Inr cur)
        note step = step [unfolded Inr sum.case]
        show ?thesis
        proof (cases "?w \<and> sha256 A (rq_header r ''X-CSRF-Token'') \<noteq> as_csrf_hash cur")
          case True
          from step [unfolded if_P [OF True]] show ?thesis by (intro same) auto
        next
          case ok: False
          note step = step [unfolded if_not_P [OF ok]]
          have auth: "authorized A cfg env r sys (as_operator cur)" if ?w
            using that ok origin g(1) current_live [OF Inr] unfolding authorized_def by blast
          show ?thesis
          proof (cases "?path = api_prefix @ ''/session/me'' \<and> ?m = ''GET''")
            case True
            from step [unfolded if_P [OF True]] show ?thesis
              by (intro same) (auto simp: admin_me_def Let_def)
          next
            case False
            note step = step [unfolded if_not_P [OF False]]
            show ?thesis
            proof (cases "?path = api_prefix @ ''/session'' \<and> ?m = ''DELETE''")
              case True
              with step auth show ?thesis by (intro logout [of "as_operator cur"]) auto
            next
              case False
              note step = step [unfolded if_not_P [OF False]]
              show ?thesis
              proof (cases ?w)
                case True
                with step auth Inr show ?thesis by (intro api [of cur]) auto
              next
                case False
                show ?thesis
                proof (rule api_cases [OF step])
                  assume "sys' = sys" "\<And>rv. resp \<noteq> RSaved rv" "resp \<noteq> RRevoked"
                  moreover have "(\<forall>x y z. resp \<noteq> RLogin x y z) \<and> resp \<noteq> RSignedOut"
                    by (rule api_no_login [OF step])
                  ultimately show ?thesis by (intro same) auto
                qed (use False in auto)
              qed
            qed
          qed
        qed
      qed
    qed
  qed
qed

end
