(* ===== verification/Admin_Guarantees.thy ===== *)
theory Admin_Guarantees
  imports Admin_Safety Enrollment
begin

text \<open>
  The operator API's guarantees as properties of \<open>serve\<close>: who can change the registry, what
  every change leaves behind, lost updates, sign-in and sign-out, the audit trail of
  browser-session revocations, and policies read back as they were saved.
\<close>

subsection \<open>What sign-in and sign-out touch\<close>

lemma login_tx_Inr:
  assumes "login_tx A cfg env r operator credential ss = Inr ss'"
  shows "\<exists>keep. ss' = filter keep ss @ [\<lparr>as_token_hash = sha256 A (ae_token env), as_operator = operator,
      as_credential = credential, as_csrf_hash = sha256 A (csrf_of A (ae_token env)),
      as_expires = ae_now env + ac_ttl cfg\<rparr>] \<and>
    sha256 A (ae_token env) \<notin> as_token_hash ` set (filter keep ss) \<and>
    (\<forall>x. keep x \<longrightarrow> ae_db_now env < as_expires x)"
proof (cases "rq_cookie r (cookie_name cfg)")
  case None
  with assms show ?thesis
    unfolding login_tx_def
    by (intro exI [of _ "\<lambda>x. ae_db_now env < as_expires x"]) (auto split: if_split_asm)
next
  case (Some old)
  with assms show ?thesis
    unfolding login_tx_def
    by (intro exI [of _ "\<lambda>x. ae_db_now env < as_expires x \<and> as_token_hash x \<noteq> sha256 A old"])
      (auto split: if_split_asm)
qed

lemma admin_login_cases:
  assumes "admin_login A cfg env r sys = (sys', resp)"
  obtains (failed) "sys' = sys" "\<And>x y z. resp \<noteq> RLogin x y z" "resp \<noteq> RRevoked" "\<And>rv. resp \<noteq> RSaved rv"
      "resp \<noteq> RSignedOut"
  | (signed_in) operator token ss where "ae_allow env" "decode_body A r (json_login A) = Inr (operator, token)"
      "map_of (ac_operators cfg) operator = Some (sha256 A token)"
      "login_tx A cfg env r operator (sha256 A token) (ad_sessions sys) = Inr ss"
      "sys' = sys\<lparr>ad_sessions := ss\<rparr>" "resp = RLogin operator (ae_token env) (csrf_of A (ae_token env))"
proof (cases "\<exists>operator token ss. ae_allow env \<and> decode_body A r (json_login A) = Inr (operator, token) \<and>
      map_of (ac_operators cfg) operator = Some (sha256 A token) \<and>
      login_tx A cfg env r operator (sha256 A token) (ad_sessions sys) = Inr ss")
  case True
  then obtain operator token ss where o: "ae_allow env" "decode_body A r (json_login A) = Inr (operator, token)"
      "map_of (ac_operators cfg) operator = Some (sha256 A token)"
      "login_tx A cfg env r operator (sha256 A token) (ad_sessions sys) = Inr ss" by blast
  show ?thesis by (rule signed_in [OF o]) (use assms o in \<open>simp_all add: admin_login_def\<close>)
next
  case False
  with assms show ?thesis
    by (intro failed) (auto simp: admin_login_def split: if_split_asm sum.splits option.splits prod.splits)
qed

lemma admin_logout_cases:
  assumes "admin_logout A cfg env r sys = (sys', resp)"
  shows "ad_db sys' = ad_db sys \<and> ad_revoked sys' = ad_revoked sys \<and> set (ad_sessions sys') \<subseteq> set (ad_sessions sys) \<and>
    resp \<noteq> RRevoked \<and> (\<forall>rv. resp \<noteq> RSaved rv) \<and> (\<forall>x y z. resp \<noteq> RLogin x y z) \<and>
    (resp = RSignedOut \<longrightarrow> ad_sessions sys' = filter (\<lambda>x. as_token_hash x \<noteq>
       sha256 A (case rq_cookie r (cookie_name cfg) of None \<Rightarrow> [] | Some v \<Rightarrow> v)) (ad_sessions sys))"
  using assms by (auto simp: admin_logout_def Let_def split: sum.splits)

lemma api_frame:
  assumes "api A cfg env actor r sys = (sys', resp)"
  shows "ad_sessions sys' = ad_sessions sys"
  by (rule api_cases [OF assms]) (auto dest: revoke_sessions_cases)

text \<open>
  One step of the server, read off the response: a problem changes nothing but the audit log,
  every effect belongs to an authorized request.
\<close>

lemma serve_registry:
  assumes "serve A cfg env r sys = (sys', resp)"
  obtains (none) "ad_db sys' = ad_db sys" "ad_revoked sys' = ad_revoked sys" "\<And>rv. resp \<noteq> RSaved rv"
      "resp \<noteq> RRevoked"
  | (revoked) operator uid addr target where "authorized A cfg env r sys operator" "rq_method r = ''DELETE''"
      "session_address A (ad_db sys) uid addr"
      "revoke_sessions env operator uid addr target sys = (sys', resp)"
      "ad_revoked sys' = ad_revoked sys @ [(addr, target)]"
  | (written) operator path rv where "authorized A cfg env r sys operator"
      "api_write A env operator r path (ad_db sys) = (ad_db sys', Inr rv)" "resp = RSaved rv"
      "ad_revoked sys' = ad_revoked sys"
proof (rule serve_cases [OF assms])
  assume "admin_login A cfg env r sys = (sys', resp)"
  then show ?thesis by (rule admin_login_cases) (rule none; simp)+
next
  fix operator assume "admin_logout A cfg env r sys = (sys', resp)"
  from admin_logout_cases [OF this] show ?thesis by (auto intro: none)
next
  fix cur assume auth: "authorized A cfg env r sys (as_operator cur)"
    and a: "api A cfg env (as_operator cur) r sys = (sys', resp)"
  show ?thesis
  proof (rule api_cases [OF a])
    fix uid addr target
    assume m: "rq_method r = ''DELETE''" "session_address A (ad_db sys) uid addr" and rv: "revoke_sessions env (as_operator cur) uid addr target sys = (sys', resp)"
    from revoke_sessions_cases [OF rv] show ?thesis
      by (auto intro: none revoked [OF auth m rv])
  next
    assume "sys' = sys" "\<And>rv. resp \<noteq> RSaved rv" "resp \<noteq> RRevoked"
    then show ?thesis by (intro none) simp_all
  qed (auto intro: written [OF auth])
qed (rule none; simp)

subsection \<open>Changes are authorized, atomic and audited\<close>

text \<open>C5. Whatever request reaches the server, the registry changes (or a revocation reaches
  the browser-session store) only if the Host and Origin are exactly the configured ones, a live
  session of the request's cookie belongs to an operator whose credential is still configured,
  and the CSRF token is that session's; and the change leaves new audit rows, all in that
  operator's name.\<close>

theorem registry_change_authorized:
  assumes "serve A cfg env r sys = (sys', resp)"
    and "ad_db sys' \<noteq> ad_db sys \<or> ad_revoked sys' \<noteq> ad_revoked sys"
  shows "\<exists>operator rows. authorized A cfg env r sys operator \<and> rows \<noteq> [] \<and>
    db_audit (ad_db sys') = db_audit (ad_db sys) @ rows \<and> (\<forall>row \<in> set rows. au_operator row = operator)"
proof (rule serve_registry [OF assms(1)])
  fix operator path rv
  assume "authorized A cfg env r sys operator"
    "api_write A env operator r path (ad_db sys) = (ad_db sys', Inr rv)"
  with api_write_committed show ?thesis by fastforce
next
  fix operator uid addr target
  assume a: "authorized A cfg env r sys operator" and n: "ad_revoked sys' = ad_revoked sys @ [(addr, target)]"
    and rv: "revoke_sessions env operator uid addr target sys = (sys', resp)"
  from revoke_sessions_cases [OF rv] n obtain actions rv' where
    "ad_db sys' = (ad_db sys)\<lparr>db_audit := db_audit (ad_db sys) @
       session_rows operator (''users/'' @ uid @ ''/sessions'') rv' actions\<rparr>" "actions \<noteq> []"
    by (auto simp: Let_def split: if_split_asm)
  with a show ?thesis by (auto simp: session_rows_def intro!: exI [of _ operator])
qed (use assms(2) in simp)

lemma revoke_sessions_registry:
  assumes "revoke_sessions env actor uid addr target sys = (sys', resp)"
  shows "\<exists>rows. ad_db sys' = (ad_db sys)\<lparr>db_audit := db_audit (ad_db sys) @ rows\<rparr>"
proof -
  have "\<exists>rows. ad_db sys = (ad_db sys)\<lparr>db_audit := db_audit (ad_db sys) @ rows\<rparr>"
    by (rule exI [of _ "[]"]) simp
  with revoke_sessions_cases [OF assms] show ?thesis by auto
qed

text \<open>C7. A request answered by a new revision was sent against the revision the registry had,
  and left exactly one audit row: the operator, the method, the new revision. Any other answer
  leaves every table but the audit log as it was. The registry's keys, references and default
  tenants stay consistent.\<close>

theorem registry_writes_atomic:
  assumes "serve A cfg env r sys = (sys', resp)" "registry_ok A (ad_db sys)"
  shows "registry_ok A (ad_db sys') \<and>
    (case resp of
       RSaved rv \<Rightarrow> expected_revision r = Inr (db_revision (ad_db sys)) \<and>
         db_revision (ad_db sys) \<le> rv \<and> db_revision (ad_db sys') = rv \<and>
         (\<exists>row. db_audit (ad_db sys') = db_audit (ad_db sys) @ [row] \<and>
            authorized A cfg env r sys (au_operator row) \<and>
            au_action row = rq_method r \<and> au_revision row = rv)
     | _ \<Rightarrow> \<exists>rows. ad_db sys' = (ad_db sys)\<lparr>db_audit := db_audit (ad_db sys) @ rows\<rparr>)"
proof (rule serve_registry [OF assms(1)])
  assume "ad_db sys' = ad_db sys" and n: "\<And>rv. resp \<noteq> RSaved rv"
  then have "\<exists>rows. ad_db sys' = (ad_db sys)\<lparr>db_audit := db_audit (ad_db sys) @ rows\<rparr>"
    by (intro exI [of _ "[]"]) simp
  with \<open>ad_db sys' = ad_db sys\<close> assms(2) n show ?thesis by (simp split: admin_resp.split)
next
  fix operator uid addr target
  assume rv: "revoke_sessions env operator uid addr target sys = (sys', resp)"
  from revoke_sessions_registry [OF this] obtain rows where
    e: "ad_db sys' = (ad_db sys)\<lparr>db_audit := db_audit (ad_db sys) @ rows\<rparr>" ..
  moreover have "registry_ok A (ad_db sys')"
    using assms(2) unfolding e by (simp add: registry_ok_def keys_ok_def refs_ok_def defaults_ok_def default_member_def)
  ultimately show ?thesis using revoke_sessions_cases [OF rv] by (auto split: admin_resp.split)
next
  fix operator path rv
  assume a: "authorized A cfg env r sys operator" "resp = RSaved rv"
    and w: "api_write A env operator r path (ad_db sys) = (ad_db sys', Inr rv)"
  from api_write_committed [OF w] api_write_keeps [OF w assms(2)] a show ?thesis by auto
qed

subsection \<open>Lost updates\<close>

lemma serve_revision_mono:
  assumes "serve A cfg env r sys = (sys', resp)"
  shows "db_revision (ad_db sys) \<le> db_revision (ad_db sys')"
proof (rule serve_registry [OF assms])
  fix operator uid addr target
  assume "revoke_sessions env operator uid addr target sys = (sys', resp)"
  from revoke_sessions_registry [OF this] show ?thesis by auto
qed (auto dest: api_write_committed)

text \<open>A history: the requests the server handles one after the other.\<close>

fun serve_all ::
  "'a admin_lib_scheme \<Rightarrow> admin_cfg \<Rightarrow> (admin_env \<times> http_req) list \<Rightarrow> admin_sys \<Rightarrow> admin_sys" where
  "serve_all A cfg [] sys = sys"
| "serve_all A cfg ((env, r) # h) sys = serve_all A cfg h (fst (serve A cfg env r sys))"

lemma serve_all_revision_mono:
  "db_revision (ad_db sys) \<le> db_revision (ad_db (serve_all A cfg h sys))"
proof (induction h arbitrary: sys)
  case (Cons x h)
  obtain env r where x: "x = (env, r)" by (cases x)
  have "db_revision (ad_db sys) \<le> db_revision (ad_db (fst (serve A cfg env r sys)))"
    by (rule serve_revision_mono) (rule surjective_pairing)
  also have "\<dots> \<le> db_revision (ad_db (serve_all A cfg h (fst (serve A cfg env r sys))))"
    by (rule Cons.IH)
  finally show ?case by (simp add: x)
qed simp

lemma run_mutation_bumps:
  assumes "run_mutation L flt nid m d = Inr d'"
    and "\<forall>s p. m = SavePolicy s p \<longrightarrow> pin_auto p \<noteq> None \<or> pin_providers p \<noteq> None \<or> pin_checks p \<noteq> []"
  shows "db_revision d < db_revision d'"
  using assms
  by (cases m) (auto simp: run_mutation_def dest: save_tenant_frame save_user_frame save_membership_frame
      save_membership_auth_frame add_domain_frame remove_domain_frame dest!: save_policy_frame)

lemma plan_write_fields:
  assumes "plan_write A env r path = Inr (m, fs, resource)" "fs \<noteq> []" "m = SavePolicy s p"
  shows "pin_auto p \<noteq> None \<or> pin_providers p \<noteq> None \<or> pin_checks p \<noteq> []"
  using assms by (auto simp: plan_write_def Let_def split: if_split_asm)

text \<open>C8. No lost update: once a write that names at least one field has been committed, no later
  write prepared against the same revision succeeds, whatever requests came in between.\<close>

theorem no_lost_update:
  assumes "serve A cfg env r sys = (sys1, RSaved rv)"
    and "au_fields (last (db_audit (ad_db sys1))) \<noteq> []"
    and "expected_revision r' = expected_revision r"
    and "serve A cfg env' r' (serve_all A cfg h sys1) = (sys2, resp)"
  shows "resp \<noteq> RSaved rv' \<and> db_revision (ad_db sys) < rv"
proof -
  obtain operator path where "api_write A env operator r path (ad_db sys) = (ad_db sys1, Inr rv)"
    by (rule serve_registry [OF assms(1)]) (auto dest: revoke_sessions_cases)
  then obtain m fs resource where e: "expected_revision r = Inr (db_revision (ad_db sys))" and
    p: "plan_write A env r path = Inr (m, fs, resource)" and
    w: "store_write (ae_fault env) (db_revision (ad_db sys)) operator (rq_method r) resource (sort fs)
         (run_mutation A (ae_fault env) (ae_uuid env) m) (ad_db sys) = (ad_db sys1, Inr rv)"
    by (rule api_write_cases) auto
  have "fs \<noteq> []" using run_mutation.write_audited [OF w] assms(2) by (auto simp: sort_key_def)
  have rev: "db_revision (ad_db sys1) = rv" using run_mutation.write_audited [OF w] by blast
  have bumped: "db_revision (ad_db sys) < rv"
  proof (rule run_mutation.write_cases [OF w])
    fix d1 assume d1: "run_mutation A (ae_fault env) (ae_uuid env) m (ad_db sys) = Inr d1"
      "ad_db sys1 = insert_audit \<lparr>au_operator = operator, au_action = rq_method r, au_resource = resource,
         au_fields = sort fs, au_revision = db_revision d1\<rparr> d1"
    have "db_revision (ad_db sys) < db_revision d1"
      using run_mutation_bumps [OF d1(1)] plan_write_fields [OF p \<open>fs \<noteq> []\<close>] by blast
    with d1(2) rev show ?thesis by (simp add: insert_audit_def)
  qed simp
  have "resp \<noteq> RSaved rv'"
  proof
    assume "resp = RSaved rv'"
    then obtain operator' path' where
      "api_write A env' operator' r' path' (ad_db (serve_all A cfg h sys1)) = (ad_db sys2, Inr rv')"
      using serve_registry [OF assms(4)] revoke_sessions_cases by (metis admin_resp.inject(5))
    from api_write_committed [OF this] assms(3) e
    have "db_revision (ad_db (serve_all A cfg h sys1)) = db_revision (ad_db sys)" by simp
    with serve_all_revision_mono [of sys1 A cfg h] bumped rev show False by simp
  qed
  with bumped show ?thesis by simp
qed

subsection \<open>Sign-in and sign-out\<close>

text \<open>C22. A session row the registry did not have before a request can only come from a sign-in:
  a POST of the exact origin that the rate limiter let through, whose token hashes to the
  credential configured for that operator. The row expires after the configured lifetime, and the
  registry itself is untouched.\<close>

theorem login_sound:
  assumes "serve A cfg env r sys = (sys', resp)" "x \<in> set (ad_sessions sys')" "x \<notin> set (ad_sessions sys)"
  shows "rq_method r = ''POST'' \<and> rq_path r = api_prefix @ ''/session'' \<and> rq_host r = ac_host cfg \<and>
    rq_header r ''Origin'' = ac_origin cfg \<and> ae_allow env \<and>
    (\<exists>token. decode_body A r (json_login A) = Inr (as_operator x, token) \<and>
       map_of (ac_operators cfg) (as_operator x) = Some (sha256 A token) \<and> as_credential x = sha256 A token) \<and>
    as_expires x = ae_now env + ac_ttl cfg \<and>
    resp = RLogin (as_operator x) (ae_token env) (csrf_of A (ae_token env)) \<and> ad_db sys' = ad_db sys"
proof (rule serve_cases [OF assms(1)])
  assume g: "rq_method r = ''POST''" "rq_path r = api_prefix @ ''/session''" "rq_host r = ac_host cfg"
    "rq_header r ''Origin'' = ac_origin cfg" and l: "admin_login A cfg env r sys = (sys', resp)"
  show ?thesis
  proof (rule admin_login_cases [OF l])
    fix operator token ss
    assume s: "ae_allow env" "decode_body A r (json_login A) = Inr (operator, token)"
      "map_of (ac_operators cfg) operator = Some (sha256 A token)" "sys' = sys\<lparr>ad_sessions := ss\<rparr>"
      "resp = RLogin operator (ae_token env) (csrf_of A (ae_token env))"
      and tx: "login_tx A cfg env r operator (sha256 A token) (ad_sessions sys) = Inr ss"
    from login_tx_Inr [OF tx] assms(2,3) s(4) have "x = \<lparr>as_token_hash = sha256 A (ae_token env),
      as_operator = operator, as_credential = sha256 A token,
      as_csrf_hash = sha256 A (csrf_of A (ae_token env)), as_expires = ae_now env + ac_ttl cfg\<rparr>"
      by auto
    with g s show ?thesis by simp
  qed (use assms(2,3) in simp)
next
  fix operator assume "admin_logout A cfg env r sys = (sys', resp)"
  with assms(2,3) admin_logout_cases show ?thesis by blast
next
  fix cur assume "api A cfg env (as_operator cur) r sys = (sys', resp)"
  with assms(2,3) api_frame show ?thesis by metis
qed (use assms(2,3) in simp)

lemma serve_signed_in:
  assumes "serve A cfg env r sys = (sys', RLogin x y z)"
  shows "admin_login A cfg env r sys = (sys', RLogin x y z)"
  by (rule serve_cases [OF assms]) (use admin_logout_cases api_no_login in blast)+

lemma serve_signed_out:
  assumes "serve A cfg env r sys = (sys', RSignedOut)"
  obtains operator where "authorized A cfg env r sys operator" "admin_logout A cfg env r sys = (sys', RSignedOut)"
proof (rule serve_cases [OF assms])
  assume l: "admin_login A cfg env r sys = (sys', RSignedOut)"
  show ?thesis by (rule admin_login_cases [OF l]) simp_all
next
  fix cur assume "api A cfg env (as_operator cur) r sys = (sys', RSignedOut)"
  from api_no_login [OF this] show ?thesis by simp
qed (use that in simp_all)

lemma find_last: "(\<And>x. x \<in> set xs \<Longrightarrow> \<not> P x) \<Longrightarrow> P y \<Longrightarrow> List.find P (xs @ [y]) = Some y"
  by (induction xs) auto

text \<open>C37. Sign-in round trip: with the cookie and the CSRF token of the answer, and until the
  session's lifetime ends, the next API request is handled in that operator's name.\<close>

theorem login_then_authorized:
  assumes "serve A cfg env r sys = (sys1, RLogin operator cookie csrf)" "length cookie = 43"
    and "rq_host r' = ac_host cfg" "rq_header r' ''Origin'' = ac_origin cfg"
    and "rq_header r' ''Sec-Fetch-Site'' \<noteq> ''cross-site''"
    and "rq_cookie r' (cookie_name cfg) = Some cookie" "rq_header r' ''X-CSRF-Token'' = csrf"
    and "rq_path r' = api_prefix @ ''/'' @ p" "p \<noteq> ''session''" "p \<noteq> ''session/me''"
    and "ae_db_now env' < ae_now env + ac_ttl cfg" "ae_fault env' ''session'' = None"
  shows "authorized A cfg env' r' sys1 operator \<and> serve A cfg env' r' sys1 = api A cfg env' operator r' sys1"
proof -
  from assms(1) have l: "admin_login A cfg env r sys = (sys1, RLogin operator cookie csrf)"
    by (rule serve_signed_in)
  then obtain token ss where m: "map_of (ac_operators cfg) operator = Some (sha256 A token)"
    and tx: "login_tx A cfg env r operator (sha256 A token) (ad_sessions sys) = Inr ss"
    and s: "sys1 = sys\<lparr>ad_sessions := ss\<rparr>" "cookie = ae_token env" "csrf = csrf_of A (ae_token env)"
    by (rule admin_login_cases) auto
  let ?x = "\<lparr>as_token_hash = sha256 A cookie, as_operator = operator, as_credential = sha256 A token,
    as_csrf_hash = sha256 A csrf, as_expires = ae_now env + ac_ttl cfg\<rparr>"
  from login_tx_Inr [OF tx] obtain keep where ss: "ss = filter keep (ad_sessions sys) @ [?x]"
    "sha256 A cookie \<notin> as_token_hash ` set (filter keep (ad_sessions sys))" by (auto simp: s)
  have "List.find (\<lambda>x. as_token_hash x = sha256 A cookie \<and> ae_db_now env' < as_expires x) ss = Some ?x"
    unfolding ss(1) by (rule find_last) (use ss(2) assms(11) in force)+
  with m s(1) assms(2,6,12) have cur: "current A cfg env' r' (ad_sessions sys1) = Inr ?x"
    by (simp add: current_def stmt_def)
  moreover have "\<not> origin_rejected cfg r'" using assms(4,5) by (simp add: origin_rejected_def)
  moreover have "\<not> has_prefix (rq_path r') ''/admin/''" "rq_path r' \<noteq> ''/''"
    "rq_path r' \<noteq> api_prefix @ ''/session''" "rq_path r' \<noteq> api_prefix @ ''/session/me''"
    using assms(8-10) by (simp_all add: has_prefix_def api_prefix_def)
  ultimately have "serve A cfg env' r' sys1 = api A cfg env' operator r' sys1"
    using assms(3,7) by (simp add: serve_def)
  moreover have "authorized A cfg env' r' sys1 operator"
    unfolding authorized_def using current_live [OF cur] assms(3,4,7) by (intro conjI exI [of _ ?x]) simp_all
  ultimately show ?thesis by simp
qed

text \<open>Sign-out ends the session on the server: no later request carrying the same cookie is
  authorized in anybody's name, before a new sign-in.\<close>

theorem logout_ends_session:
  assumes "serve A cfg env r sys = (sys1, RSignedOut)"
    and "rq_cookie r' (cookie_name cfg) = rq_cookie r (cookie_name cfg)"
  shows "\<not> authorized A cfg env' r' sys1 operator \<and> ad_db sys1 = ad_db sys \<and>
    (\<exists>name. authorized A cfg env r sys name)"
proof -
  from assms(1) obtain name where a: "authorized A cfg env r sys name"
    and l: "admin_logout A cfg env r sys = (sys1, RSignedOut)"
    by (rule serve_signed_out)
  then obtain v where "rq_cookie r (cookie_name cfg) = Some v"
    by (auto simp: authorized_def live_session_def)
  with admin_logout_cases [OF l] assms(2) have "\<not> authorized A cfg env' r' sys1 operator"
    by (auto simp: authorized_def live_session_def)
  with a admin_logout_cases [OF l] show ?thesis by blast
qed

subsection \<open>Revocations of browser sessions\<close>

text \<open>C38. A revocation reaches the browser-session store only under the normalized address of
  the named user, after the request has been audited; the completion is audited exactly when the
  operator is told that it succeeded, never after a failure of the store; and the rest of the
  registry, its revision included, is unchanged.\<close>

theorem revocation_audited:
  assumes "serve A cfg env r sys = (sys', resp)" "ad_revoked sys' \<noteq> ad_revoked sys"
  shows "\<exists>operator uid addr target. authorized A cfg env r sys operator \<and> rq_method r = ''DELETE'' \<and>
    session_address A (ad_db sys) uid addr \<and> ad_revoked sys' = ad_revoked sys @ [(addr, target)] \<and>
    (let action = (if target = None then ''session.revoke_all'' else ''session.revoke'') in
     ad_db sys' = (ad_db sys)\<lparr>db_audit := db_audit (ad_db sys) @
       session_rows operator (''users/'' @ uid @ ''/sessions'') (db_revision (ad_db sys))
         ([action @ ''.requested''] @ (if resp = RRevoked then [action @ ''.completed''] else []))\<rparr>) \<and>
    (ae_store_fault env \<longrightarrow> resp \<noteq> RRevoked)"
proof (rule serve_registry [OF assms(1)])
  fix operator uid addr target
  assume *: "authorized A cfg env r sys operator" "rq_method r = ''DELETE''"
    "session_address A (ad_db sys) uid addr" "ad_revoked sys' = ad_revoked sys @ [(addr, target)]"
    and rv: "revoke_sessions env operator uid addr target sys = (sys', resp)"
  have "(let action = (if target = None then ''session.revoke_all'' else ''session.revoke'') in
     ad_db sys' = (ad_db sys)\<lparr>db_audit := db_audit (ad_db sys) @
       session_rows operator (''users/'' @ uid @ ''/sessions'') (db_revision (ad_db sys))
         ([action @ ''.requested''] @ (if resp = RRevoked then [action @ ''.completed''] else []))\<rparr>) \<and>
    (ae_store_fault env \<longrightarrow> resp \<noteq> RRevoked)"
    using revoke_sessions_cases [OF rv] *(4) by (auto simp: Let_def split: if_split_asm)
  with * show ?thesis by blast
qed (use assms(2) in simp_all)

subsection \<open>A worked example\<close>

text \<open>One operator, one tenant with a domain and a policy, one user, and a browser-session store.\<close>

definition demo_admin :: admin_lib where
  "demo_admin = lib.extend demo_lib (admin_lib.fields (\<lambda>s. ''#'' @ s) id (\<lambda>s. Some s) (\<lambda>_. JBad) (\<lambda>_. JBad)
     (\<lambda>_. JValue \<lparr>pin_auto = Some True, pin_providers = Some [''google''],
        pin_checks = [(''google'', [(''hd'', VStr ''Acme.com'')])]\<rparr> [])
     (\<lambda>_. JBad) (\<lambda>_. JBad) (\<lambda>s. JValue (''alice'', s) []))"

definition demo_cfg :: admin_cfg where
  "demo_cfg = \<lparr>ac_origin = ''https://a.example'', ac_host = ''a.example'', ac_secure = True, ac_ttl = 100,
     ac_operators = [(''alice'', ''#secret'')], ac_ui = False, ac_store = Some ''redis'', ac_manager = True\<rparr>"

definition demo_aenv :: admin_env where
  "demo_aenv = \<lparr>ae_now = 5, ae_db_now = 5, ae_allow = True, ae_token = replicate 43 CHR ''t'',
     ae_uuid = replicate 36 CHR ''0'', ae_fault = (\<lambda>_. None), ae_store_fault = False\<rparr>"

definition demo_asys :: admin_sys where
  "demo_asys = \<lparr>ad_db = demo_db\<lparr>db_users := [\<lparr>us_id = replicate 36 CHR ''1'', us_email = ''Ann@acme.com'',
     us_name = ''Ann'', us_enabled = True, us_default = None\<rparr>]\<rparr>, ad_sessions = [], ad_revoked = []\<rparr>"

definition demo_cookie :: string where
  "demo_cookie = replicate 43 CHR ''t''"

definition demo_request :: "string \<Rightarrow> string \<Rightarrow> string \<Rightarrow> http_req" where
  "demo_request m path body = \<lparr>rq_method = m, rq_path = api_prefix @ path, rq_host = ''a.example'',
     rq_header = (\<lambda>h. if h = ''Origin'' then ''https://a.example''
        else if h = ''Content-Type'' then ''application/json''
        else if h = ''X-CSRF-Token'' then ''#csrf:'' @ demo_cookie
        else if h = ''If-Match'' then [CHR 0x22, CHR ''7'', CHR 0x22] else []),
     rq_query = (\<lambda>_. []), rq_cookie = (\<lambda>_. Some demo_cookie), rq_body = body\<rparr>"

definition demo_sign_in :: http_req where "demo_sign_in = demo_request ''POST'' ''/session'' ''secret''"
definition demo_logout :: http_req where "demo_logout = demo_request ''DELETE'' ''/session'' []"
definition demo_drop :: http_req where "demo_drop = demo_request ''DELETE'' ''/tenants/acme/domains/acme.com'' []"
definition demo_revoke :: http_req where
  "demo_revoke = demo_request ''DELETE'' (''/users/'' @ replicate 36 CHR ''1'' @ ''/sessions'') []"

definition demo_step :: "http_req \<Rightarrow> admin_sys \<Rightarrow> admin_sys \<times> admin_resp" where
  "demo_step = serve demo_admin demo_cfg demo_aenv"

definition demo_signed_in :: admin_sys where
  "demo_signed_in = fst (demo_step demo_sign_in demo_asys)"

lemma demo_step_pair: "serve demo_admin demo_cfg demo_aenv r sys = (fst (demo_step r sys), snd (demo_step r sys))"
  by (simp add: demo_step_def)

lemma demo_login_runs:
  "serve demo_admin demo_cfg demo_aenv demo_sign_in demo_asys =
     (demo_signed_in, RLogin ''alice'' demo_cookie (''#csrf:'' @ demo_cookie))"
proof -
  have "snd (demo_step demo_sign_in demo_asys) = RLogin ''alice'' demo_cookie (''#csrf:'' @ demo_cookie)"
    by code_simp
  then show ?thesis by (simp add: demo_step_pair demo_signed_in_def)
qed

lemma demo_drop_runs:
  "serve demo_admin demo_cfg demo_aenv demo_drop demo_signed_in =
     (fst (demo_step demo_drop demo_signed_in), RSaved 8)"
proof -
  have "snd (demo_step demo_drop demo_signed_in) = RSaved 8" by code_simp
  then show ?thesis by (simp add: demo_step_pair)
qed

theorem registry_change_authorized_witness:
  "\<exists>rows. authorized demo_admin demo_cfg demo_aenv demo_drop demo_signed_in ''alice'' \<and> rows \<noteq> [] \<and>
     db_audit (ad_db (fst (demo_step demo_drop demo_signed_in))) = db_audit (ad_db demo_signed_in) @ rows"
proof -
  have "db_domains (ad_db (fst (demo_step demo_drop demo_signed_in))) \<noteq> db_domains (ad_db demo_signed_in)"
    by code_simp
  then have "ad_db (fst (demo_step demo_drop demo_signed_in)) \<noteq> ad_db demo_signed_in" by metis
  with registry_change_authorized [OF demo_drop_runs] obtain operator rows where
    o: "authorized demo_admin demo_cfg demo_aenv demo_drop demo_signed_in operator" "rows \<noteq> []"
    "db_audit (ad_db (fst (demo_step demo_drop demo_signed_in))) = db_audit (ad_db demo_signed_in) @ rows"
    by blast
  have "map as_operator (ad_sessions demo_signed_in) = [''alice'']" by code_simp
  then have "\<forall>x \<in> set (ad_sessions demo_signed_in). as_operator x = ''alice''"
    by (auto simp: map_eq_Cons_conv)
  with o(1) have "operator = ''alice''" by (auto simp: authorized_def live_session_def)
  with o show ?thesis by blast
qed

theorem registry_writes_atomic_witness:
  "registry_ok demo_admin (ad_db (fst (demo_step demo_drop demo_signed_in))) \<and>
   db_revision (ad_db demo_signed_in) = 7"
proof -
  have ok: "registry_ok demo_admin (ad_db demo_signed_in)" and rv: "db_revision (ad_db demo_signed_in) = 7"
    by code_simp+
  from registry_writes_atomic [OF demo_drop_runs ok] rv show ?thesis by simp
qed

theorem no_lost_update_witness:
  "snd (demo_step demo_drop (serve_all demo_admin demo_cfg [(demo_aenv, demo_sign_in)]
     (fst (demo_step demo_drop demo_signed_in)))) \<noteq> RSaved 9"
proof -
  have f: "au_fields (last (db_audit (ad_db (fst (demo_step demo_drop demo_signed_in))))) \<noteq> []" by code_simp
  from no_lost_update [OF demo_drop_runs f refl demo_step_pair] show ?thesis by blast
qed

theorem login_sound_witness:
  "as_credential (hd (ad_sessions demo_signed_in)) = ''#secret'' \<and>
   as_expires (hd (ad_sessions demo_signed_in)) = 105"
proof -
  have "ad_sessions demo_signed_in \<noteq> []" "ad_sessions demo_asys = []" by code_simp+
  then have "hd (ad_sessions demo_signed_in) \<in> set (ad_sessions demo_signed_in)"
    "hd (ad_sessions demo_signed_in) \<notin> set (ad_sessions demo_asys)" by simp_all
  from login_sound [OF demo_login_runs this] show ?thesis
    by (auto simp: demo_cfg_def demo_aenv_def split: if_split_asm)
qed

theorem login_then_authorized_witness:
  "authorized demo_admin demo_cfg demo_aenv demo_drop demo_signed_in ''alice''"
  by (rule login_then_authorized [OF demo_login_runs, of demo_drop "''tenants/acme/domains/acme.com''" demo_aenv,
        THEN conjunct1])
    (simp_all add: demo_cookie_def demo_drop_def demo_request_def demo_cfg_def demo_aenv_def)

theorem logout_ends_session_witness:
  "\<not> authorized demo_admin demo_cfg demo_aenv demo_drop (fst (demo_step demo_logout demo_signed_in)) ''alice''"
proof -
  have "snd (demo_step demo_logout demo_signed_in) = RSignedOut" by code_simp
  then have "serve demo_admin demo_cfg demo_aenv demo_logout demo_signed_in =
    (fst (demo_step demo_logout demo_signed_in), RSignedOut)" by (simp add: demo_step_pair)
  from logout_ends_session [OF this, of demo_drop] show ?thesis
    by (simp add: demo_drop_def demo_logout_def demo_request_def)
qed

theorem revocation_audited_witness:
  "\<exists>uid addr. session_address demo_admin (ad_db demo_signed_in) uid addr \<and>
     ad_revoked (fst (demo_step demo_revoke demo_signed_in)) = ad_revoked demo_signed_in @ [(addr, None)]"
proof -
  have r: "ad_revoked (fst (demo_step demo_revoke demo_signed_in)) = [(''ann@acme.com'', None)]"
    "ad_revoked demo_signed_in = []" by code_simp+
  then have "ad_revoked (fst (demo_step demo_revoke demo_signed_in)) \<noteq> ad_revoked demo_signed_in" by simp
  from revocation_audited [OF demo_step_pair this] r show ?thesis by auto
qed

end
