(* ===== verification/Policy_Enforcement.thy ===== *)
theory Policy_Enforcement
  imports Resolver_Safety Admin_Guarantees
begin

text \<open>
  Properties that span the operator API and the resolver: what an operator saves is what the
  resolver loads and enforces, under exactly the name and the rules that were validated.
\<close>

subsection \<open>Saved policies\<close>

lemma get_config_audit [simp]: "get_config L (insert_audit r d) s k = get_config L d s k"
  by (simp add: get_config_def insert_audit_def)

text \<open>C12. Policy round trip: after a committed PUT of a tenant's policy, the resolver's cache
  loader reads back, under that tenant's key, exactly the values of the request (an emptied rule
  set reads as absent); every key the request does not name, and every other tenant's, reads as
  before.\<close>

theorem saved_policy_loaded:
  assumes "api_write A env actor r path d = (d', Inr rv)"
    and "plan_write A env r path = Inr (SavePolicy s p, fs, resource)"
    and "CHR '':'' \<notin> set s" "CHR '':'' \<notin> set s'" "wf_map (pin_checks p)"
    and "\<And>k v. policy_at p k = Some v \<Longrightarrow> codec_ok A v"
  shows "load_config A d' (cfg_key s' k) =
    (if s' = s then case policy_at p k of Some v \<Rightarrow> Inr v | None \<Rightarrow> load_config A d (cfg_key s' k)
     else load_config A d (cfg_key s' k))"
proof -
  obtain m fs' resource' d1 where m: "plan_write A env r path = Inr (m, fs', resource')"
    and w: "store_write (ae_fault env) (db_revision d) actor (rq_method r) resource' (sort fs')
         (run_mutation A (ae_fault env) (ae_uuid env) m) d = (d', Inr rv)"
    by (rule api_write_cases [OF assms(1)]) auto
  have "m = SavePolicy s p" using m assms(2) by simp
  with w obtain d1 row where d1: "save_policy A (ae_fault env) s p d = Inr d1" "d' = insert_audit row d1"
    by (elim run_mutation.write_cases) (simp_all add: run_mutation_def)
  from save_policy_read [OF d1(1) assms(5,6), where s' = s' and k = k] show ?thesis
    unfolding load_config_key [OF assms(4)] d1(2) by simp
qed

subsection \<open>Validated rules\<close>

definition accepted :: "goval \<Rightarrow> string set" where
  "accepted want = {s. s \<noteq> [] \<and> (want = VStr s \<or> (\<exists>opts. want = VList opts \<and> VStr s \<in> set opts))}"

lemma satisfies_accepted:
  assumes "blank_check want \<longrightarrow> got \<noteq> Some (VStr [])"
  shows "satisfies want got \<longleftrightarrow> (\<exists>s \<in> accepted want. got = Some (VStr s))"
  using assms by (auto simp: satisfies_def accepted_def blank_check_def)

lemma allows_blank_check: "allows_blank want = blank_check want"
  by (cases want) (auto simp: allows_blank_def blank_check_def)

lemma evaluate_checks_supported:
  "\<forall>(k, v) \<in> set cs. string_check v \<Longrightarrow> snd (evaluate_checks cs claims) \<noteq> UnsupportedCheck x"
proof (induction cs)
  case (Cons c rest)
  obtain k want where c: "c = (k, want)" by (cases c)
  from Cons.prems have "(\<exists>s. want = VStr s) \<or> (\<exists>xs. want = VList xs)"
    by (auto simp: c string_check_def)
  with Cons show ?case by (auto simp: c Let_def split: option.splits if_split_asm)
qed simp

text \<open>C13. A validated policy means what it says. For the rules of one provider that passed
  validation, a sign-in passes exactly when every rule finds a non-empty string claim that the
  rule lists; the only exemption is the hosted-domain rule of Google for an already registered
  member without a hosted domain, if the operator listed the blank domain. No rule is of a shape
  the evaluator does not support.\<close>

theorem validated_rules_enforced:
  assumes "policy_validate L p = Inr p'" "(provider, cs) \<in> set (pin_checks p')" "wf_map cs"
  shows "(fst (evaluate_tenant_checks provider cs claims registered) \<longleftrightarrow>
      (\<forall>(k, want) \<in> set cs. (\<exists>s \<in> accepted want. map_of claims k = Some (VStr s)) \<or>
         provider = ''google'' \<and> k = ''hd'' \<and> registered \<and> hosted_blank claims \<and> blank_check want)) \<and>
    snd (evaluate_tenant_checks provider cs claims registered) \<noteq> UnsupportedCheck x"
proof -
  note rules = policy_validate_Inr(5) [OF assms(1,2)]
  have str: "string_check v" if "(k, v) \<in> set cs" for k v using rules that by blast
  have blank: "provider = ''google'' \<and> k = ''hd''" if "(k, v) \<in> set cs" "blank_check v" for k v
    using rules that by blast
  have sat: "satisfies v (map_of claims k) \<longleftrightarrow> (\<exists>s \<in> accepted v. map_of claims k = Some (VStr s))"
    if "(k, v) \<in> set cs" "\<not> (provider = ''google'' \<and> k = ''hd'' \<and> hosted_blank claims)" for k v
    by (rule satisfies_accepted) (use blank that in \<open>auto simp: hosted_blank_def\<close>)
  have supported: "snd (evaluate_tenant_checks provider cs claims registered) \<noteq> UnsupportedCheck x"
    using str by (auto simp: evaluate_tenant_checks_def split: option.splits intro!: evaluate_checks_supported)
  show ?thesis
  proof (cases "provider = ''google'' \<and> map_of cs ''hd'' \<noteq> None \<and> hosted_blank claims")
    case True
    then obtain want where w: "map_of cs ''hd'' = Some want" "provider = ''google''" "hosted_blank claims" by blast
    then have want: "(''hd'', v) \<in> set cs \<longleftrightarrow> v = want" for v
      using assms(3) map_of_is_SomeI [of cs "''hd''" v] map_of_SomeD [of cs "''hd''" v] by (auto simp: wf_map_def)
    have none: "map_of claims ''hd'' \<noteq> Some (VStr s)" if "s \<in> accepted v" for s v
      using that w(3) by (auto simp: hosted_blank_def accepted_def)
    have "fst (evaluate_tenant_checks provider cs claims registered) \<longleftrightarrow> registered \<and> blank_check want \<and>
       (\<forall>(k, v) \<in> set cs. k \<noteq> ''hd'' \<longrightarrow> satisfies v (map_of claims k))"
      using w by (auto simp: evaluate_tenant_checks_def allows_blank_check evaluate_checks_entries)
    also have "\<dots> \<longleftrightarrow> (\<forall>(k, v) \<in> set cs. (\<exists>s \<in> accepted v. map_of claims k = Some (VStr s)) \<or>
         provider = ''google'' \<and> k = ''hd'' \<and> registered \<and> hosted_blank claims \<and> blank_check v)"
      using w(2,3) want none sat by fastforce
    finally show ?thesis using supported by blast
  next
    case False
    then have "fst (evaluate_tenant_checks provider cs claims registered) \<longleftrightarrow>
       (\<forall>(k, v) \<in> set cs. satisfies v (map_of claims k))"
      by (auto simp: evaluate_tenant_checks_def evaluate_checks_entries split: option.splits)
    moreover have "\<not> (provider = ''google'' \<and> k = ''hd'' \<and> hosted_blank claims)" if "(k, v) \<in> set cs" for k v
      using False that by (auto dest: weak_map_of_SomeI)
    ultimately show ?thesis using supported sat by fastforce
  qed
qed

subsection \<open>Names\<close>

lemma slug_colon_free: "slug L x = Inr s \<Longrightarrow> CHR '':'' \<notin> set s"
  using label_char_facts(4) label_chars by (auto simp: slug_Inr)

lemma cfg_key_eq:
  assumes "CHR '':'' \<notin> set s" "CHR '':'' \<notin> set t"
  shows "cfg_key s k = cfg_key t k' \<longleftrightarrow> s = t \<and> k = k'"
proof
  assume e: "cfg_key s k = cfg_key t k'"
  from index_byte_append [OF assms(1), of k] index_byte_append [OF assms(2), of k'] e
  have "length s = length t" by (simp add: cfg_key_def)
  with e show "s = t \<and> k = k'" by (simp add: cfg_key_def)
qed simp

text \<open>A slug the operator API accepts is one name everywhere: validating it again returns it, a
  request for it asks for exactly it, its policy keys collide with no other accepted slug's, and
  the resolver's loader reads exactly its rows.\<close>

theorem slug_one_name:
  assumes "slug L x = Inr s" "slug L y = Inr t"
  shows "slug L s = Inr s \<and> requested_tenant L (Some s) = s \<and>
    (cfg_key s k = cfg_key t k' \<longleftrightarrow> s = t \<and> k = k') \<and>
    load_config L d (cfg_key s k) = get_config L d s k"
proof -
  have "label_re s" using assms(1) by (auto simp: slug_Inr)
  then show ?thesis
    using slug_colon_free [OF assms(1)] slug_colon_free [OF assms(2)]
    by (simp add: slug_label label_canonical requested_tenant_def cfg_key_eq load_config_key)
qed

text \<open>An address the operator API accepts routes to the domain it shows: the part after its
  last \<open>@\<close>, as the resolver computes it for domain lookups, is a validated domain in its one
  normal form.\<close>

theorem email_domain_canonical:
  assumes "email_addr L s = Inr e" "\<And>x. mail_parse L x = Some x \<Longrightarrow> CHR ''@'' \<in> set x"
  shows "\<exists>mailbox d. e = mailbox @ ''@'' @ d \<and> email_domain L e = d \<and> to_lower L d = d \<and>
     (\<forall>part \<in> set (split_on CHR ''.'' d). label_re part) \<and> CHR ''.'' \<in> set d \<and> length d \<le> 253"
proof -
  let ?s = "to_lower L (trim_space s)"
  let ?cut = "case last_index CHR ''@'' ?s of None \<Rightarrow> 0 | Some i \<Rightarrow> i + 1"
  from assms(1) obtain d where d: "mail_parse L ?s = Some ?s" "dns_domain L (drop ?cut ?s) = Inr d"
    "e = take ?cut ?s @ d"
    by (auto simp: email_addr_def Let_def split: if_split_asm)
  from assms(2) [OF d(1)] obtain a b where ab: "?s = a @ CHR ''@'' # b" "CHR ''@'' \<notin> set b"
    by (metis split_list_last)
  then have "last_index CHR ''@'' ?s = Some (length a)" by (simp add: last_index_append_cons)
  with d(3) ab(1) have e: "e = a @ ''@'' @ d" by simp
  have "email_domain L e = d"
    using last_index_append_cons [OF dns_domain_lower(2) [OF d(2)]] dns_domain_lower(1) [OF d(2)]
    by (simp add: e email_domain_def)
  with e dns_domain_lower(1) [OF d(2)] dns_domain_Inr [OF d(2)] show ?thesis by blast
qed

subsection \<open>Worked examples\<close>

definition demo_policy :: policy_input where
  "demo_policy = \<lparr>pin_auto = Some True, pin_providers = Some [''google''],
     pin_checks = [(''google'', [(''hd'', VStr ''acme.com'')])]\<rparr>"

definition demo_put :: http_req where
  "demo_put = demo_request ''PUT'' ''/tenants/acme/auth'' ''policy''"

definition demo_put_db :: mtdb where
  "demo_put_db = fst (api_write demo_admin demo_aenv ''alice'' demo_put ''tenants/acme/auth'' demo_db)"

lemma demo_put_runs:
  "api_write demo_admin demo_aenv ''alice'' demo_put ''tenants/acme/auth'' demo_db = (demo_put_db, Inr 10)"
proof -
  have "snd (api_write demo_admin demo_aenv ''alice'' demo_put ''tenants/acme/auth'' demo_db) = Inr 10"
    by code_simp
  then show ?thesis by (simp add: demo_put_db_def prod_eq_iff)
qed

lemma demo_put_plan:
  "plan_write demo_admin demo_aenv demo_put ''tenants/acme/auth'' = Inr (SavePolicy ''acme'' demo_policy,
     [''auth:auto_add'', ''auth:providers'', ''auth:checks:google''], ''tenants/acme/auth'')"
  by code_simp

lemma demo_policy_codec: "policy_at demo_policy k = Some v \<Longrightarrow> codec_ok demo_admin v"
proof -
  assume "policy_at demo_policy k = Some v"
  then have "v \<in> {VBool True, VList [VStr ''google''], VMap [(''hd'', VStr ''acme.com'')]}"
    by (auto simp: policy_at_def demo_policy_def split: if_split_asm)
  moreover have "codec_ok demo_admin (VBool True)" "codec_ok demo_admin (VList [VStr ''google''])"
    "codec_ok demo_admin (VMap [(''hd'', VStr ''acme.com'')])" by code_simp+
  ultimately show ?thesis by auto
qed

theorem saved_policy_loaded_witness:
  "load_config demo_admin demo_put_db (cfg_key ''acme'' ''auth:providers'') = Inr (VList [VStr ''google''])"
proof -
  have "policy_at demo_policy ''auth:providers'' = Some (VList [VStr ''google''])" by code_simp
  then show ?thesis
    using saved_policy_loaded [OF demo_put_runs demo_put_plan, where s' = "''acme''" and k = "''auth:providers''"]
      demo_policy_codec by (simp add: demo_policy_def wf_map_def)
qed

theorem validated_rules_enforced_witness:
  "\<exists>p. policy_validate demo_lib demo_policy = Inr p \<and>
     \<not> fst (evaluate_tenant_checks ''google'' [(''hd'', VStr ''acme.com'')] [(''hd'', VStr ''evil.com'')] True)"
proof -
  have v: "policy_validate demo_lib demo_policy = Inr demo_policy" by code_simp
  have "(''google'', [(''hd'', VStr ''acme.com'')]) \<in> set (pin_checks demo_policy)"
    by (simp add: demo_policy_def)
  from validated_rules_enforced [OF v this] have
    "\<not> fst (evaluate_tenant_checks ''google'' [(''hd'', VStr ''acme.com'')] [(''hd'', VStr ''evil.com'')] True)"
    by (simp add: wf_map_def accepted_def hosted_blank_def)
  with v show ?thesis by blast
qed

theorem slug_one_name_witness:
  "slug demo_lib '' Acme '' = Inr ''acme'' \<and> requested_tenant demo_lib (Some ''acme'') = ''acme'' \<and>
   cfg_key ''acme'' ''auth:providers'' \<noteq> cfg_key ''beta'' ''auth:providers''"
proof -
  have s: "slug demo_lib '' Acme '' = Inr ''acme''" "slug demo_lib ''beta'' = Inr ''beta''" by code_simp+
  from slug_one_name [OF s, of "''auth:providers''" "''auth:providers''"] s show ?thesis by simp
qed

theorem email_domain_canonical_witness:
  "email_addr demo_lib ''Ann@Acme.Com.'' = Inr ''ann@acme.com'' \<and> email_domain demo_lib ''ann@acme.com'' = ''acme.com''"
proof -
  have e: "email_addr demo_lib ''Ann@Acme.Com.'' = Inr ''ann@acme.com''" by code_simp
  have m: "CHR ''@'' \<in> set x" if "mail_parse demo_lib x = Some x" for x
    using that by (simp add: demo_lib_def split: if_split_asm)
  from email_domain_canonical [OF e m] obtain mailbox d where
    d: "''ann@acme.com'' = mailbox @ ''@'' @ d" "email_domain demo_lib ''ann@acme.com'' = d" by blast
  have "email_domain demo_lib ''ann@acme.com'' = ''acme.com''" by code_simp
  with e show ?thesis by simp
qed

end
