(* ===== verification/Policy_Types.thy ===== *)
theory Policy_Types
  imports Policy_Enforcement
begin

text \<open>
  The types of stored policies. \<open>tenant_config\<close> holds untyped MessagePack and \<open>auth_checks\<close>
  untyped JSON; the resolver reads them with type assertions. Here every key has its type, no
  write of the program breaks it (preservation), and on a well-typed registry the resolver's
  reads cannot fail (progress).
\<close>

subsection \<open>The types\<close>

definition is_string :: "goval \<Rightarrow> bool" where
  "is_string v = (case v of VStr _ \<Rightarrow> True | _ \<Rightarrow> False)"

definition rule_shape :: "goval \<Rightarrow> bool" where
  "rule_shape v = (case v of VStr _ \<Rightarrow> True | VList xs \<Rightarrow> list_all is_string xs | _ \<Rightarrow> False)"

definition rules_typed :: "check_map \<Rightarrow> bool" where
  "rules_typed cs = list_all (\<lambda>(k, v). claim_re k \<and> rule_shape v) cs"

text \<open>The type of a key of \<open>tenant_config\<close>; keys the program does not know are untyped.\<close>

definition has_type :: "string \<Rightarrow> goval \<Rightarrow> bool" where
  "has_type key v =
     (if key = ''auth:auto_add'' then (case v of VBool _ \<Rightarrow> True | _ \<Rightarrow> False)
      else if key = ''auth:providers'' then (case v of VList xs \<Rightarrow> list_all is_string xs | _ \<Rightarrow> False)
      else if has_prefix key checks_prefix then
        (case v of VMap cs \<Rightarrow> cs \<noteq> [] \<and> rules_typed cs | _ \<Rightarrow> False)
      else True)"

definition row_typed :: "'a lib_scheme \<Rightarrow> config_row \<Rightarrow> bool" where
  "row_typed L c =
     (case cf_value c of None \<Rightarrow> True
      | Some raw \<Rightarrow> raw = [] \<or> (case mp_decode L raw of None \<Rightarrow> False | Some v \<Rightarrow> has_type (cf_key c) v))"

definition overrides_typed :: "goval \<Rightarrow> bool" where
  "overrides_typed v = (case member_checks v of None \<Rightarrow> False | Some ps \<Rightarrow> list_all (\<lambda>(p, cs). rules_typed cs) ps)"

definition registry_typed :: "'a lib_scheme \<Rightarrow> mtdb \<Rightarrow> bool" where
  "registry_typed L d \<longleftrightarrow> list_all (row_typed L) (db_config d) \<and> list_all (overrides_typed \<circ> mb_checks) (db_members d)"

text \<open>What is assumed of MessagePack: the forms a policy stores are read back as written.\<close>

definition policy_form :: "goval \<Rightarrow> bool" where
  "policy_form v =
     (case v of VBool _ \<Rightarrow> True | VList xs \<Rightarrow> list_all is_string xs | VMap cs \<Rightarrow> rules_typed cs | _ \<Rightarrow> False)"

definition policy_codec :: "'a lib_scheme \<Rightarrow> bool" where
  "policy_codec L \<longleftrightarrow> (\<forall>v. policy_form v \<longrightarrow> codec_ok L v)"

lemma is_string_iff: "is_string v \<longleftrightarrow> (\<exists>s. v = VStr s)"
  by (cases v) (auto simp: is_string_def)

lemma rule_shape_iff: "rule_shape v \<longleftrightarrow> string_check v"
  by (cases v) (auto simp: rule_shape_def string_check_def list_all_iff is_string_iff)

lemma registry_typed_audit [simp]: "registry_typed L (insert_audit r d) = registry_typed L d"
  by (simp add: registry_typed_def insert_audit_def)

subsection \<open>Preservation\<close>

text \<open>The mutations whose arguments passed validation.\<close>

definition policy_typed :: "policy_input \<Rightarrow> bool" where
  "policy_typed p = list_all (\<lambda>(pr, cs). rules_typed cs) (pin_checks p)"

definition mutation_typed :: "admin_mutation \<Rightarrow> bool" where
  "mutation_typed m = (case m of
       SavePolicy s p \<Rightarrow> policy_typed p
     | SaveOverrides uid s cs \<Rightarrow> list_all (\<lambda>(pr, rules). rules_typed rules) cs
     | _ \<Rightarrow> True)"

lemma policy_validate_typed: "policy_validate L p = Inr p' \<Longrightarrow> policy_typed p'"
  unfolding policy_typed_def rules_typed_def list_all_iff rule_shape_iff
  using policy_validate_Inr(5) by fast

lemma membership_auth_typed:
  "membership_auth_validate L checks = Inr cs \<Longrightarrow> list_all (\<lambda>(pr, rules). rules_typed rules) cs"
  by (auto simp: membership_auth_validate_def policy_typed_def split: option.splits if_split_asm
      dest!: policy_validate_typed)

lemma plan_write_typed: "plan_write A env r path = Inr (m, fs, resource) \<Longrightarrow> mutation_typed m"
  by (auto simp: plan_write_def mutation_typed_def Let_def split: if_split_asm
      dest: policy_validate_typed membership_auth_typed)

text \<open>Overrides are stored as nested objects and read back as the same rules.\<close>

lemma provider_checks_nested: "provider_checks (map (\<lambda>(p, m). (p, VMap m)) cs) = Some cs"
  by (induction cs) auto

lemma overrides_stored: "overrides_typed (VMap (map (\<lambda>(p, m). (p, VMap m)) cs)) = list_all (\<lambda>(p, r). rules_typed r) cs"
  by (simp add: overrides_typed_def member_checks_def provider_checks_nested)

lemma overrides_none [simp]: "overrides_typed (VMap [])"
  by (simp add: overrides_typed_def member_checks_def)

lemma put_config_typed:
  assumes "put_config L flt s k v d = Inr d'" "registry_typed L d" "codec_ok L v" "has_type k v"
  shows "registry_typed L d'"
proof -
  obtain raw where raw: "mp_encode L v = Some raw"
    "upsert_config \<lparr>cf_slug = s, cf_key = k, cf_value = Some raw\<rparr> d = Inr d'"
    using put_config_Inr [OF assms(1)] by blast
  note e = upsert_config_Inr(1) [OF raw(2)]
  have "raw \<noteq> []" "mp_decode L raw = Some v"
    using assms(3) raw(1) by (auto simp: codec_ok_def)
  with assms(2,4) show ?thesis by (auto simp: e registry_typed_def list_all_iff row_typed_def)
qed

lemma delete_config_typed: "delete_config s k d = Inr d' \<Longrightarrow> registry_typed L d \<Longrightarrow> registry_typed L d'"
  by (auto dest!: delete_config_Inr simp: registry_typed_def list_all_iff)

lemma checks_key_type: "has_type (''auth:checks:'' @ p) (VMap cs) = (cs \<noteq> [] \<and> rules_typed cs)"
  by (simp add: has_type_def has_prefix_def checks_prefix_def)

lemma put_checks_typed:
  assumes "policy_codec L"
  shows "put_checks L flt s cs d = Inr d' \<Longrightarrow> list_all (\<lambda>(p, r). rules_typed r) cs \<Longrightarrow>
     registry_typed L d \<Longrightarrow> registry_typed L d'"
proof (induction cs arbitrary: d)
  case (Cons c r)
  obtain p checks where c: "c = (p, checks)" by (cases c)
  let ?k = "''auth:checks:'' @ p"
  from Cons.prems(1) obtain d1 where d1: "put_checks L flt s r d1 = Inr d'"
    "if checks = [] then delete_config s ?k d = Inr d1 else put_config L flt s ?k (VMap checks) d = Inr d1"
    unfolding c put_checks.simps Let_def by (auto split: if_splits)
  have t: "rules_typed checks" using Cons.prems(2) c by simp
  then have "codec_ok L (VMap checks)" using assms by (simp add: policy_codec_def policy_form_def)
  note codec = this
  have "registry_typed L d1"
  proof (cases "checks = []")
    case True
    with d1(2) have "delete_config s ?k d = Inr d1" by (simp only: if_True)
    from delete_config_typed [OF this Cons.prems(3)] show ?thesis .
  next
    case False
    with d1(2) have p: "put_config L flt s ?k (VMap checks) d = Inr d1" by (simp only: if_False)
    show ?thesis
      by (rule put_config_typed [OF p Cons.prems(3) codec]) (use False t checks_key_type in blast)
  qed
  with Cons.IH [OF d1(1)] Cons.prems(2) show ?case by simp
qed simp

lemma save_policy_typed:
  assumes "save_policy L flt s p d = Inr d'" "policy_codec L" "policy_typed p" "registry_typed L d"
  shows "registry_typed L d'"
proof (rule save_policy_steps [OF assms(1)])
  fix d1 d2
  assume 1: "case pin_auto p of None \<Rightarrow> d1 = d | Some b \<Rightarrow> put_config L flt s ''auth:auto_add'' (VBool b) d = Inr d1"
    and 2: "case pin_providers p of None \<Rightarrow> d2 = d1
      | Some ps \<Rightarrow> put_config L flt s ''auth:providers'' (VList (map VStr ps)) d1 = Inr d2"
    and 3: "put_checks L flt s (pin_checks p) d2 = Inr d'"
  have b: "codec_ok L (VBool b)" "has_type ''auth:auto_add'' (VBool b)" for b
    using assms(2) by (simp_all add: policy_codec_def policy_form_def has_type_def)
  have l: "codec_ok L (VList (map VStr ps))" "has_type ''auth:providers'' (VList (map VStr ps))" for ps
    using assms(2) by (simp_all add: policy_codec_def policy_form_def has_type_def list_all_iff is_string_iff)
  from 1 assms(4) have "registry_typed L d1" by (auto split: option.splits dest: put_config_typed [OF _ _ b])
  with 2 have "registry_typed L d2" by (auto split: option.splits dest: put_config_typed [OF _ _ l])
  with put_checks_typed [OF assms(2) 3] assms(3) show ?thesis by (simp add: policy_typed_def)
qed

text \<open>The other mutations store no policy except an empty override.\<close>

lemma registry_typed_frame:
  "db_config d' = db_config d \<Longrightarrow> set (db_members d') \<subseteq> set (db_members d) \<union> {m. mb_checks m = VMap []} \<Longrightarrow>
     registry_typed L d \<Longrightarrow> registry_typed L d'"
  by (force simp: registry_typed_def list_all_iff)

lemma save_tenant_tables:
  assumes "save_tenant L flt nid target inp create d = Inr d'"
  shows "db_config d' = db_config d \<and> db_members d' = db_members d"
  using assms unfolding save_tenant_def Let_def
  by (auto split: if_splits dest!: insert_tenant_Inr(1) update_tenant_Inr clear_default_Inr)

lemma save_user_tables:
  assumes "save_user L flt uid inp create d = Inr d'"
  shows "db_config d' = db_config d \<and> db_members d' = db_members d"
  using assms unfolding save_user_def Let_def
  by (auto split: if_splits dest!: insert_user_Inr(1) update_user_Inr(1))

lemma save_membership_tables:
  assumes "save_membership L flt uid s remove d = Inr d'"
  shows "db_config d' = db_config d \<and> set (db_members d') \<subseteq> set (db_members d) \<union> {m. mb_checks m = VMap []}"
  using assms unfolding save_membership_def
  by (auto split: if_splits option.splits
      dest!: delete_member_Inr clear_default_Inr insert_member_Inr(1) bump_frame)

lemma save_membership_auth_typed:
  assumes "save_membership_auth L flt uid s cs d = Inr d'" "list_all (\<lambda>(p, r). rules_typed r) cs" "registry_typed L d"
  shows "registry_typed L d'"
proof -
  from assms(1) obtain u n where
    "update_member_checks u s (VMap (map (\<lambda>(p, m). (p, VMap m)) cs)) d = Inr (d', n)"
    by (auto simp: save_membership_auth_def)
  note e = update_member_checks_Inr [OF this]
  show ?thesis
    using assms(2,3) overrides_stored [of cs] by (auto simp: e registry_typed_def list_all_iff)
qed

lemma run_mutation_typed:
  assumes "run_mutation L flt nid m d = Inr d'" "policy_codec L" "mutation_typed m" "registry_typed L d"
  shows "registry_typed L d'"
proof (cases m)
  case (SaveTenant target inp create)
  with assms(1,4) show ?thesis
    by (auto simp: run_mutation_def intro: registry_typed_frame dest!: save_tenant_tables)
next
  case (SaveUser uid inp create)
  with assms(1,4) show ?thesis
    by (auto simp: run_mutation_def intro: registry_typed_frame dest!: save_user_tables)
next
  case (SaveMembership uid s remove)
  with assms(1,4) show ?thesis
    by (auto simp: run_mutation_def intro: registry_typed_frame dest!: save_membership_tables)
next
  case (AddDomain s dmn)
  with assms(1,4) show ?thesis
    by (auto simp: run_mutation_def add_domain_def registry_typed_def dest!: insert_domain_Inr(1))
next
  case (RemoveDomain s dmn)
  with assms(1,4) show ?thesis
    by (auto simp: run_mutation_def remove_domain_def registry_typed_def dest!: delete_domain_Inr)
next
  case (SavePolicy s p)
  with assms show ?thesis
    by (auto simp: run_mutation_def mutation_typed_def intro: save_policy_typed)
next
  case (SaveOverrides uid s cs)
  with assms show ?thesis
    by (auto simp: run_mutation_def mutation_typed_def intro: save_membership_auth_typed)
qed

text \<open>So the contract of a mutation also holds with the typing as its invariant.\<close>

interpretation typed_mutation: mutation "run_mutation L flt nid m"
  "\<lambda>d. policy_codec L \<and> mutation_typed m \<longrightarrow> registry_typed L d" for L flt nid m
  by unfold_locales
    (auto intro: run_mutation_typed dest: run_mutation.audit_frame run_mutation.revision_mono)

lemma api_write_typed:
  assumes "api_write A env actor r path d = (d', res)" "policy_codec A" "registry_typed A d"
  shows "registry_typed A d'"
proof (rule api_write_cases [OF assms(1)])
  fix m fs resource
  assume p: "plan_write A env r path = Inr (m, fs, resource)"
    and w: "store_write (ae_fault env) (db_revision d) actor (rq_method r) resource (sort fs)
         (run_mutation A (ae_fault env) (ae_uuid env) m) d = (d', res)"
  from typed_mutation.write_keeps [OF w] assms(2,3) plan_write_typed [OF p] show ?thesis by blast
qed (use assms(3) in simp)

lemma auto_add_user_typed:
  assumes "registry_typed L d"
  shows "registry_typed L (fst (auto_add_user L flt nid email name dmn s provider authorize d))"
proof (cases "auto_add_tx L flt nid email name dmn s provider authorize d")
  case (Inl e)
  with assms show ?thesis by (simp add: auto_add_user_def)
next
  case (Inr p)
  obtain d' uo where p: "p = (d', uo)" by (cases p)
  obtain t user where "d' = (if member_has user s then d
           else case user of Some u \<Rightarrow> enrolled_existing d u t s
                | None \<Rightarrow> enrolled_new d nid email name t s)"
    using auto_add_tx_effect [OF Inr [unfolded p]] by blast
  then have "db_config d' = db_config d" "set (db_members d') \<subseteq> set (db_members d) \<union> {m. mb_checks m = VMap []}"
    by (auto simp: enrolled_existing_def enrolled_new_def new_member_def split: if_splits option.splits)
  with assms Inr p show ?thesis by (auto simp: auto_add_user_def intro: registry_typed_frame)
qed

text \<open>C15. Preservation. Whatever request reaches the operator API, every policy it leaves in
  the registry has its key's type: a boolean for auto-add, a list of strings for the provider
  allowlist, and for a provider's checks, as for a membership's overrides, rules that map
  well-formed claim names to strings or lists of strings; no rule set is stored empty.\<close>

theorem policies_stay_typed:
  assumes "serve A cfg env r sys = (sys', resp)" "policy_codec A" "registry_typed A (ad_db sys)"
  shows "registry_typed A (ad_db sys')"
proof (rule serve_registry [OF assms(1)])
  fix operator path rv
  assume "api_write A env operator r path (ad_db sys) = (ad_db sys', Inr rv)"
  then show ?thesis by (rule api_write_typed [OF _ assms(2,3)])
next
  fix operator uid addr target
  assume "revoke_sessions env operator uid addr target sys = (sys', resp)"
  from revoke_sessions_registry [OF this] assms(3) show ?thesis by (auto simp: registry_typed_def)
qed (use assms(3) in simp)

subsection \<open>Progress\<close>

text \<open>On a well-typed registry the decoding reads always succeed, with a value of the key's type.\<close>

lemma typed_config:
  assumes "registry_typed L d"
  obtains v where "get_config L d s k = Inr v" "v = VNil \<or> has_type k v"
proof (cases "List.find (\<lambda>c. cf_slug c = s \<and> cf_key c = k) (db_config d)")
  case None
  then show ?thesis by (intro that [of VNil]) (simp_all add: get_config_def)
next
  case (Some c)
  from find_SomeD [OF Some] have c: "c \<in> set (db_config d)" "cf_key c = k" by auto
  with assms have t: "row_typed L c" by (simp add: registry_typed_def list_all_iff)
  show ?thesis
  proof (cases "\<exists>raw v. cf_value c = Some raw \<and> raw \<noteq> [] \<and> mp_decode L raw = Some v")
    case True
    then obtain raw v where v: "cf_value c = Some raw" "raw \<noteq> []" "mp_decode L raw = Some v" by blast
    with t c(2) show ?thesis by (intro that [of v]) (simp_all add: get_config_def Some row_typed_def)
  next
    case False
    with t show ?thesis
      by (intro that [of VNil]) (auto simp: get_config_def Some row_typed_def split: option.splits)
  qed
qed

lemma typed_load:
  assumes "registry_typed L d" "CHR '':'' \<notin> set s"
  obtains v where "load_config L d (cfg_key s k) = Inr v" "v = VNil \<or> has_type k v"
  using typed_config [OF assms(1), of s k] unfolding load_config_key [OF assms(2)] by blast

lemma all_checks_typed:
  "(\<And>t m. (t, m) \<in> set ts \<Longrightarrow> overrides_typed (mb_checks m)) \<Longrightarrow>
     \<exists>mc. all_checks ts = Some mc \<and> (\<forall>(s, ps) \<in> set mc. \<forall>(p, cs) \<in> set ps. rules_typed cs)"
proof (induction ts)
  case (Cons x ts)
  obtain t m where x: "x = (t, m)" by (cases x)
  from Cons obtain mc where mc: "all_checks ts = Some mc" "\<forall>(s, ps) \<in> set mc. \<forall>(p, cs) \<in> set ps. rules_typed cs"
    by auto
  moreover from Cons.prems [of t m] x obtain ps where
    "member_checks (mb_checks m) = Some ps" "\<forall>(p, cs) \<in> set ps. rules_typed cs"
    by (auto simp: overrides_typed_def list_all_iff split: option.splits)
  ultimately show ?case by (intro exI [of _ "(tn_slug t, ps) # mc"]) (simp add: x)
qed simp

lemma typed_user:
  assumes "registry_typed L d"
  obtains uo where "get_user_with_tenants L d email = Inr uo"
    "\<And>u. uo = Some u \<Longrightarrow> \<forall>(s, ps) \<in> set (u_checks u). \<forall>(p, cs) \<in> set ps. rules_typed cs"
proof (cases "List.find (\<lambda>u. norm_email L (us_email u) = email) (db_users d)")
  case None
  then show ?thesis by (intro that [of None]) (simp_all add: get_user_with_tenants_def)
next
  case (Some r)
  have "\<exists>mc. all_checks (user_tenants L d (us_id r)) = Some mc \<and>
      (\<forall>(s, ps) \<in> set mc. \<forall>(p, cs) \<in> set ps. rules_typed cs)"
    by (rule all_checks_typed) (use assms in \<open>auto simp: set_user_tenants registry_typed_def list_all_iff\<close>)
  then obtain mc where mc: "all_checks (user_tenants L d (us_id r)) = Some mc"
    "\<forall>(s, ps) \<in> set mc. \<forall>(p, cs) \<in> set ps. rules_typed cs" by blast
  then obtain u where "get_user_with_tenants L d email = Inr (Some u)" "u_checks u = mc"
    by (auto simp: get_user_with_tenants_def Some Let_def)
  with mc(2) that [of "Some u"] show ?thesis by auto
qed

text \<open>
  A quiet environment: no statement fails for reasons of its own and no context ends. What is
  left that could fail is the data.
\<close>

definition quiet :: "renv \<Rightarrow> bool" where
  "quiet env \<longleftrightarrow> (\<forall>l. re_fault env l = None \<and> ge_ctx (re_get env l) = None \<and> ge_done (re_get env l) = None)"

lemma cache_get_answers:
  "ge_ctx ge = None \<Longrightarrow> ge_done ge = None \<Longrightarrow> load = Inr v \<Longrightarrow> \<exists>w. snd (cache_get ge k load c) = Inr w"
  by (auto simp: cache_get_def split: option.splits)

lemma quiet_lookup:
  assumes "quiet env" "load = Inr v" "cache_get (re_get env l) k (stmt (re_fault env) l load) c = (c', r)"
  shows "\<exists>w. r = Inr w"
  using assms cache_get_answers [of "re_get env l" "stmt (re_fault env) l load" v k c]
  by (simp add: quiet_def stmt_none)

lemma user_lookup_answers:
  assumes "quiet env" "registry_typed L (re_db env ''user'')" "user_lookup L env email st = (st', r)"
  shows "\<exists>u. r = Inr u"
proof -
  obtain uo where "get_user_with_tenants L (re_db env ''user'') email = Inr uo"
    by (rule typed_user [OF assms(2)])
  from quiet_lookup [OF assms(1) this] assms(3) show ?thesis
    by (auto simp: user_lookup_def Let_def split: prod.splits)
qed

lemma domain_lookup_answers:
  "quiet env \<Longrightarrow> domain_lookup L env dmn st = (st', r) \<Longrightarrow> \<exists>t. r = Inr t"
  using quiet_lookup [OF _ refl] by (auto simp: domain_lookup_def Let_def split: prod.splits)

lemma config_lookup_answers:
  assumes "quiet env" "registry_typed L (re_db env (site @ cfg_key s k))"
    and "config_lookup L env site (cfg_key s k) st = (st', r)"
  shows "\<exists>v. r = Inr v"
proof -
  let ?d = "re_db env (site @ cfg_key s k)"
  have "\<exists>i. index_byte CHR '':'' (cfg_key s k) = Some i"
    unfolding cfg_key_def by (induction s) auto
  then obtain i where "load_config L ?d (cfg_key s k) =
      get_config L ?d (take i (cfg_key s k)) (drop (i + 1) (cfg_key s k))"
    by (auto simp: load_config_def)
  moreover obtain v where "get_config L ?d (take i (cfg_key s k)) (drop (i + 1) (cfg_key s k)) = Inr v"
    by (rule typed_config [OF assms(2)])
  ultimately have "load_config L ?d (cfg_key s k) = Inr v" by simp
  from quiet_lookup [OF assms(1) this] assms(3) show ?thesis
    by (auto simp: config_lookup_def Let_def split: prod.splits)
qed

lemma policy_admits_answers:
  assumes "quiet env" "\<And>l. registry_typed L (re_db env l)" "policy_admits L env s provider claims st = (st', r)"
  shows "\<exists>b. r = Inr b"
proof -
  note c = config_lookup_answers [OF assms(1,2)]
  from assms(3) show ?thesis
    unfolding policy_admits_def by (auto split: prod.splits sum.splits if_split_asm dest: c)
qed

lemma auto_add_answers:
  assumes "quiet env" "\<And>l. registry_typed L (re_db env l)"
    and "auto_add L env user email provider requested claims st = (st', None, r)"
  shows "\<exists>u. r = Inr u"
  using assms(3) domain_lookup_answers [OF assms(1)] policy_admits_answers [OF assms(1,2)]
  unfolding auto_add_def by (fastforce split: prod.splits sum.splits option.splits bool.splits if_split_asm)

text \<open>C17. Progress. Against well-typed registries, a request that starts no enrollment gets an
  identity or a reasoned rejection, never an internal error, unless a statement failed or a
  context ended: no stored policy can make \<open>Resolve\<close> fail.\<close>

theorem typed_never_stuck:
  assumes "resolve L env inp st = (st', None, r)" "quiet env" "\<And>l. registry_typed L (re_db env l)"
  shows "\<exists>out. r = Inr out"
proof (cases "is_user_method (in_method inp)")
  case False
  with assms(1) show ?thesis by (auto simp: resolve_def)
next
  case True
  let ?s = "re_world env ''gate'' st"
  obtain g changed q where c: "gate_check (rs_gate ?s) (re_now env) (re_started env) (revision_load env) = (g, changed, q)"
    by (metis prod_cases3)
  have "revision_load env = Inr (db_revision (re_db env ''revision''))"
    using assms(2) by (simp add: revision_load_def quiet_def stmt_none)
  with c have "q = Inr ()" by (auto simp: gate_check_def split: if_splits)
  with assms(1) True c obtain st1 where ru: "resolve_user L env inp st1 = (st', None, r)"
    by (auto simp: resolve_def Let_def)
  let ?email = "to_lower L (email_from_claims (in_claims inp) (in_id inp))"
  obtain st2 user where u: "user_lookup L env ?email st1 = (st2, Inr user)"
    using user_lookup_answers [OF assms(2,3)] by (metis surj_pair)
  from ru show ?thesis
    unfolding resolve_user_def Let_def u prod.case sum.case
    by (auto split: prod.splits sum.splits option.splits if_split_asm dest: auto_add_answers [OF assms(2,3)])
qed

text \<open>
  With the rules of the registry and of the membership well-typed, evaluating them ends in a
  verdict about the claims, never in a rule of a shape the evaluator does not support.
\<close>

lemma merged_typed:
  assumes "merged_checks raw ov = Some cs" "raw = VNil \<or> has_type (checks_key p) raw"
    and "\<And>m. ov = Some m \<Longrightarrow> rules_typed m"
  shows "rules_typed cs"
proof -
  define base where "base = (case raw of VMap m \<Rightarrow> m | _ \<Rightarrow> [])"
  have b: "rules_typed base"
    using assms(2) by (auto simp: base_def checks_key_def checks_key_type rules_typed_def has_type_def
        has_prefix_def checks_prefix_def split: goval.splits)
  have step: "rules_typed (assign_all xs ys)" if "rules_typed xs" "rules_typed ys" for xs ys
    using that
  proof (induction ys arbitrary: xs)
    case (Cons y ys)
    obtain k v where y: "y = (k, v)" by (cases y)
    have "set (AList.update k v xs) \<subseteq> insert (k, v) (set xs)" by (induction xs) auto
    with Cons.prems have "rules_typed (AList.update k v xs)"
      by (fastforce simp: rules_typed_def list_all_iff y)
    with Cons.IH Cons.prems(2) show ?case by (simp add: y rules_typed_def)
  qed simp
  have "rules_typed []" by (simp add: rules_typed_def)
  with assms(1,3) b step show ?thesis
    by (auto simp: merged_checks_def base_def [symmetric] Let_def split: option.splits if_split_asm)
qed

lemma typed_rules_supported:
  assumes "registry_typed L d" "get_user_with_tenants L d email = Inr (Some u)"
    and "get_config L d s (checks_key p) = Inr raw"
    and "merged_checks raw (override_of (u_checks u) s p) = Some cs"
  shows "snd (evaluate_tenant_checks p cs claims registered) \<noteq> UnsupportedCheck x"
proof -
  have "\<forall>(s, ps) \<in> set (u_checks u). \<forall>(p, cs) \<in> set ps. rules_typed cs"
    by (rule typed_user [OF assms(1), of email]) (use assms(2) in simp)
  then have ov: "rules_typed m" if "override_of (u_checks u) s p = Some m" for m
    using that by (auto simp: override_of_def split: option.splits dest!: map_of_SomeD)
  have "raw = VNil \<or> has_type (checks_key p) raw"
    by (rule typed_config [OF assms(1), of s "checks_key p"]) (use assms(3) in auto)
  from merged_typed [OF assms(4) this ov] have "\<forall>(k, v) \<in> set cs. string_check v"
    by (auto simp: rules_typed_def list_all_iff rule_shape_iff)
  then show ?thesis
    by (auto simp: evaluate_tenant_checks_def split: option.splits intro!: evaluate_checks_supported)
qed

subsection \<open>Worked examples\<close>

text \<open>The library of the worked examples with a codec for exactly the values they store.\<close>

definition typed_admin :: admin_lib where
  "typed_admin = demo_admin\<lparr>mp_encode := (\<lambda>v. if v \<in> set [VBool True, VList [VStr ''google''],
     VMap [(''hd'', VStr ''acme.com'')]] then small_encode v else None)\<rparr>"

lemma typed_admin_codec: "policy_codec typed_admin"
proof -
  have "codec_ok typed_admin v" for v
  proof (cases "v \<in> set [VBool True, VList [VStr ''google''], VMap [(''hd'', VStr ''acme.com'')]]")
    case True
    moreover have "codec_ok typed_admin (VBool True)" "codec_ok typed_admin (VList [VStr ''google''])"
      "codec_ok typed_admin (VMap [(''hd'', VStr ''acme.com'')])" by code_simp+
    ultimately show ?thesis by auto
  next
    case False
    then show ?thesis by (simp add: codec_ok_def typed_admin_def)
  qed
  then show ?thesis by (simp add: policy_codec_def)
qed

definition typed_put :: "admin_sys \<times> admin_resp" where
  "typed_put = serve typed_admin demo_cfg demo_aenv demo_put demo_signed_in"

theorem policies_stay_typed_witness:
  "snd typed_put = RSaved 10 \<and> length (db_config (ad_db (fst typed_put))) = 3 \<and>
   registry_typed typed_admin (ad_db (fst typed_put))"
proof -
  have r: "snd typed_put = RSaved 10" "length (db_config (ad_db (fst typed_put))) = 3" by code_simp+
  have t: "registry_typed typed_admin (ad_db demo_signed_in)" by code_simp
  have "serve typed_admin demo_cfg demo_aenv demo_put demo_signed_in = (fst typed_put, snd typed_put)"
    by (simp add: typed_put_def)
  from policies_stay_typed [OF this typed_admin_codec t] r show ?thesis by blast
qed

definition typed_refusal :: "rstate \<times> mtdb option \<times> (err + outcome)" where
  "typed_refusal = resolve demo_lib (demo_renv demo_db)
     (demo_input\<lparr>in_claims := [(''email'', VStr ''b@acme.com''), (''provider'', VStr ''other'')]\<rparr>) (new_resolver 0 0)"

theorem typed_never_stuck_witness:
  "\<exists>out. snd (snd typed_refusal) = Inr out"
proof -
  have c: "fst (snd typed_refusal) = None" by code_simp
  have t: "registry_typed demo_lib demo_db" by code_simp
  show ?thesis
  proof (rule typed_never_stuck)
    show "resolve demo_lib (demo_renv demo_db)
      (demo_input\<lparr>in_claims := [(''email'', VStr ''b@acme.com''), (''provider'', VStr ''other'')]\<rparr>) (new_resolver 0 0) =
      (fst typed_refusal, None, snd (snd typed_refusal))"
      using c by (simp add: typed_refusal_def prod_eq_iff)
    show "quiet (demo_renv demo_db)" by (simp add: quiet_def demo_renv_def)
    show "registry_typed demo_lib (re_db (demo_renv demo_db) l)" for l
      using t by (simp add: demo_renv_def)
  qed
qed

end
