(* ===== verification/Deployment.thy ===== *)
theory Deployment
  imports Policy_Types Transition_Systems
begin

text \<open>
  The running system as one state machine: the operator API and any number of resolver
  replicas over one registry. Operators' requests (\<open>Admin_Server.serve\<close>), users' requests
  (\<open>Resolver.resolve\<close>, which may enroll) and restarts of replicas interleave; commits by
  others may fall between any two queries of a user's request. The theorems compose the
  components: what an operator commits holds on every replica one second later.

  \<open>dp_commits\<close> is a history variable: every registry committed so far with the time of its
  commit, the oldest first. \<open>dp_busy\<close> says since when a replica works on a request and how many
  registries had been committed then. Requests that overlap inside one replica are the subject of
  \<open>Overlapping_Requests\<close>, here a replica answers one request after the other.
\<close>

subsection \<open>State and steps\<close>

record deployment =
  dp_admin :: admin_sys
  dp_replicas :: "nat \<Rightarrow> rstate"
  dp_busy :: "nat \<Rightarrow> (int \<times> nat) option"
  dp_clock :: int
  dp_commits :: "(int \<times> mtdb) list"

definition fresh_deployment :: "int \<Rightarrow> admin_sys \<Rightarrow> (nat \<Rightarrow> rstate) \<Rightarrow> deployment" where
  "fresh_deployment now sys rs = \<lparr>dp_admin = sys, dp_replicas = rs, dp_busy = (\<lambda>_. None),
     dp_clock = now, dp_commits = [(now, ad_db sys)]\<rparr>"

text \<open>The committed registry at position \<open>p\<close> was in force at time \<open>x\<close> or later.\<close>

definition in_force :: "(int \<times> mtdb) list \<Rightarrow> int \<Rightarrow> nat \<Rightarrow> bool" where
  "in_force cs x p \<longleftrightarrow> p < length cs \<and> (\<forall>j < length cs. p < j \<longrightarrow> x \<le> fst (cs ! j))"

text \<open>The end of a user's request: its answer, its caches and its transaction take effect.\<close>

definition finish ::
  "'a lib_scheme \<Rightarrow> renv \<Rightarrow> rinput \<Rightarrow> nat \<Rightarrow> deployment \<Rightarrow> deployment \<times> (err + outcome)" where
  "finish L env inp i s =
     (case resolve L env inp (dp_replicas s i) of (st', commit, r) \<Rightarrow>
       (s\<lparr>dp_replicas := (dp_replicas s)(i := st'), dp_busy := (dp_busy s)(i := None),
          dp_admin := (case commit of None \<Rightarrow> dp_admin s | Some d \<Rightarrow> (dp_admin s)\<lparr>ad_db := d\<rparr>),
          dp_commits := dp_commits s @ (case commit of None \<Rightarrow> [] | Some d \<Rightarrow> [(dp_clock s, d)])\<rparr>, r))"

text \<open>
  What a request may have read: the probe starts after the request began and reads a registry
  in force after that; every other query comes after the probe; the transaction reads the
  registry it commits to.
\<close>

definition may_finish :: "'a lib_scheme \<Rightarrow> renv \<Rightarrow> rinput \<Rightarrow> nat \<Rightarrow> deployment \<Rightarrow> bool" where
  "may_finish L env inp i s \<longleftrightarrow>
     (\<exists>b n p. dp_busy s i = Some (b, n) \<and> n \<le> Suc p \<and> b \<le> re_now env \<and> re_now env \<le> re_started env \<and>
        re_started env \<le> dp_clock s \<and> in_force (dp_commits s) (re_started env) p \<and>
        re_db env ''revision'' = snd (dp_commits s ! p) \<and> re_db env ''tx'' = ad_db (dp_admin s) \<and>
        (let cs = dp_commits (fst (finish L env inp i s)) in
         \<forall>l. \<exists>q. p \<le> q \<and> q < length cs \<and> re_db env l = snd (cs ! q))) \<and>
     (\<forall>l st. re_world env l st = st)"

inductive dep_step :: "'a admin_lib_scheme \<Rightarrow> admin_cfg \<Rightarrow> deployment \<Rightarrow> deployment \<Rightarrow> bool" for A cfg where
  tick: "dp_clock s \<le> now \<Longrightarrow> dep_step A cfg s (s\<lparr>dp_clock := now\<rparr>)"
| operate: "serve A cfg env r (dp_admin s) = (sys', resp) \<Longrightarrow>
     dep_step A cfg s (s\<lparr>dp_admin := sys', dp_commits := dp_commits s @ [(dp_clock s, ad_db sys')]\<rparr>)"
| start: "dp_busy s i = None \<Longrightarrow>
     dep_step A cfg s (s\<lparr>dp_busy := (dp_busy s)(i := Some (dp_clock s, length (dp_commits s)))\<rparr>)"
| finish: "may_finish A env inp i s \<Longrightarrow> dep_step A cfg s (fst (finish A env inp i s))"
| restart: "dep_step A cfg s (s\<lparr>dp_replicas := (dp_replicas s)(i := new_resolver cap lifetime),
     dp_busy := (dp_busy s)(i := None)\<rparr>)"

abbreviation dep_steps :: "'a admin_lib_scheme \<Rightarrow> admin_cfg \<Rightarrow> deployment \<Rightarrow> deployment \<Rightarrow> bool" where
  "dep_steps A cfg \<equiv> (dep_step A cfg)\<^sup>*\<^sup>*"

inductive_cases dep_stepE: "dep_step A cfg s s'"

text \<open>The registries committed with revision \<open>rv\<close> or a later one.\<close>

definition since :: "int \<Rightarrow> (int \<times> mtdb) list \<Rightarrow> mtdb set" where
  "since rv cs = {d. \<exists>t. (t, d) \<in> set cs \<and> rv \<le> db_revision d}"

lemma since_mono: "rv' \<le> rv \<Longrightarrow> set cs \<subseteq> set cs' \<Longrightarrow> since rv cs \<subseteq> since rv' cs'"
  by (force simp: since_def)

subsection \<open>What one request leaves alone\<close>

text \<open>Nothing after the gate's check touches the gate.\<close>

named_theorems gate_frame

lemma user_lookup_gate [gate_frame]:
  "user_lookup L env email st = (st', r) \<Longrightarrow> \<forall>l st. re_world env l st = st \<Longrightarrow> rs_gate st' = rs_gate st"
  by (auto simp: user_lookup_def Let_def split: prod.splits)

lemma domain_lookup_gate [gate_frame]:
  "domain_lookup L env dmn st = (st', r) \<Longrightarrow> \<forall>l st. re_world env l st = st \<Longrightarrow> rs_gate st' = rs_gate st"
  by (auto simp: domain_lookup_def Let_def split: prod.splits)

lemma config_lookup_gate [gate_frame]:
  "config_lookup L env site k st = (st', r) \<Longrightarrow> \<forall>l st. re_world env l st = st \<Longrightarrow> rs_gate st' = rs_gate st"
  by (auto simp: config_lookup_def Let_def split: prod.splits)

lemma keep_tenant_gate [gate_frame]:
  "keep_tenant L env provider claims mc t st = (st', b) \<Longrightarrow> \<forall>l st. re_world env l st = st \<Longrightarrow> rs_gate st' = rs_gate st"
  by (auto simp: keep_tenant_def provider_allowed_def split: prod.splits sum.splits if_split_asm dest!: gate_frame)

lemma check_loop_gate [gate_frame]:
  "check_loop L env provider claims mc ts st = (st', kept, dropped) \<Longrightarrow> \<forall>l st. re_world env l st = st \<Longrightarrow>
     rs_gate st' = rs_gate st"
proof (induction L env provider claims mc ts st arbitrary: st' kept dropped rule: check_loop.induct)
  case (2 L env provider claims mc t ts st)
  from 2(2) obtain st1 b kept' dropped' where s: "keep_tenant L env provider claims mc t st = (st1, b)"
    "check_loop L env provider claims mc ts st1 = (st', kept', dropped')"
    by (auto split: prod.splits if_split_asm)
  from 2(1) [OF s(1) [symmetric] s(2) 2(3)] keep_tenant_gate [OF s(1) 2(3)] show ?case by simp
qed simp

lemma admit_user_gate [gate_frame]:
  "admit_user L env inp email provider req u st = (st', out) \<Longrightarrow> \<forall>l st. re_world env l st = st \<Longrightarrow>
     rs_gate st' = rs_gate st"
  by (auto simp: admit_user_def apply_auth_checks_def split: prod.splits if_split_asm dest!: gate_frame)

lemma policy_admits_gate [gate_frame]:
  "policy_admits L env s provider claims st = (st', r) \<Longrightarrow> \<forall>l st. re_world env l st = st \<Longrightarrow> rs_gate st' = rs_gate st"
  by (auto simp: policy_admits_def split: prod.splits sum.splits if_split_asm dest!: gate_frame)

lemma auto_add_gate [gate_frame]:
  "auto_add L env user email provider req claims st = (st', commit, r) \<Longrightarrow> \<forall>l st. re_world env l st = st \<Longrightarrow>
     rs_gate st' = rs_gate st"
  by (auto simp: auto_add_def forget_user_def Let_def
      split: prod.splits sum.splits option.splits bool.splits if_split_asm dest!: gate_frame)

lemma resolve_user_gate:
  "resolve_user L env inp st = (st', commit, r) \<Longrightarrow> \<forall>l st. re_world env l st = st \<Longrightarrow> rs_gate st' = rs_gate st"
  by (auto simp: resolve_user_def Let_def
      split: prod.splits sum.splits option.splits if_split_asm dest!: gate_frame)

text \<open>A request's transaction, if it runs, is one enrollment against the registry it read.\<close>

lemma auto_add_commit:
  "auto_add L env user email provider req claims st = (st', Some d', r) \<Longrightarrow>
     \<exists>s q. enroll_call L env email provider claims s = (d', q)"
  by (auto simp: auto_add_def split: prod.splits sum.splits option.splits bool.splits if_split_asm)

lemma resolve_commit:
  assumes "resolve L env inp st = (st', Some d', r)"
  shows "\<exists>email s q. enroll_call L env email (user_provider inp) (in_claims inp) s = (d', q)"
  using assms unfolding resolve_def resolve_user_def Let_def user_provider_def
  by (auto split: prod.splits sum.splits option.splits if_split_asm dest!: auto_add_commit)

text \<open>Such a transaction keeps the registry's invariants and types, and its revision grows with it.\<close>

lemma auto_add_user_revision:
  "db_revision d \<le> db_revision (fst (auto_add_user L flt nid email name dmn s provider authorize d))"
  by (auto simp: auto_add_user_def enrolled_existing_def enrolled_new_def split: sum.splits option.splits if_split_asm
      dest!: auto_add_tx_effect)

lemma resolve_commit_keeps:
  assumes "resolve L env inp st = (st', Some d', r)"
  shows "db_revision (re_db env ''tx'') \<le> db_revision d'"
    "registry_ok L (re_db env ''tx'') \<Longrightarrow> registry_ok L d'"
    "registry_typed L (re_db env ''tx'') \<Longrightarrow> registry_typed L d'"
proof -
  obtain email s q where "enroll_call L env email (user_provider inp) (in_claims inp) s = (d', q)"
    using resolve_commit [OF assms] by blast
  then have d': "d' = fst (auto_add_user L (re_tx env) (re_nid env) email (display_name (in_claims inp) email)
      (email_domain L email) s (user_provider inp)
      (\<lambda>ps cs. auto_add_allowed L (user_provider inp) ps cs (in_claims inp)) (re_db env ''tx''))"
    by (simp add: enroll_call_def)
  show "db_revision (re_db env ''tx'') \<le> db_revision d'"
    unfolding d' by (rule auto_add_user_revision)
  show "registry_ok L (re_db env ''tx'') \<Longrightarrow> registry_ok L d'"
    unfolding d' by (rule auto_add_user_ok)
  show "registry_typed L (re_db env ''tx'') \<Longrightarrow> registry_typed L d'"
    unfolding d' by (rule auto_add_user_typed)
qed

subsection \<open>The invariant of the composition\<close>

text \<open>
  A replica whose gate is open: the gate's revision was committed, and it is at least that of
  every registry committed before the last probe started; the caches answer from registries
  of that revision or later.
\<close>

definition replica_ok :: "'a lib_scheme \<Rightarrow> (int \<times> mtdb) list \<Rightarrow> int \<Rightarrow> rstate \<Rightarrow> bool" where
  "replica_ok L cs now st \<longleftrightarrow> gate_interval (rs_gate st) = second \<and>
     (\<forall>c. gate_checked (rs_gate st) = Some c \<longrightarrow>
        c \<le> now \<and> (\<forall>(t, d) \<in> set cs. t < c \<longrightarrow> db_revision d \<le> gate_revision (rs_gate st)) \<and>
        (\<exists>(t, d) \<in> set cs. gate_revision (rs_gate st) = db_revision d) \<and>
        truthful L (since (gate_revision (rs_gate st)) cs) st)"

definition commits_ok :: "(int \<times> mtdb) list \<Rightarrow> int \<Rightarrow> mtdb \<Rightarrow> bool" where
  "commits_ok cs now d \<longleftrightarrow> cs \<noteq> [] \<and> snd (last cs) = d \<and> sorted (map (db_revision \<circ> snd) cs) \<and>
     (\<forall>(t, d) \<in> set cs. t \<le> now)"

definition busy_ok :: "(int \<times> mtdb) list \<Rightarrow> int \<Rightarrow> rstate \<Rightarrow> int \<times> nat \<Rightarrow> bool" where
  "busy_ok cs now st w \<longleftrightarrow> (case w of (b, n) \<Rightarrow> b \<le> now \<and> 0 < n \<and> n \<le> length cs \<and>
     (gate_checked (rs_gate st) \<noteq> None \<longrightarrow> gate_revision (rs_gate st) \<le> db_revision (snd (cs ! (n - 1)))))"

definition dep_inv :: "'a admin_lib_scheme \<Rightarrow> deployment \<Rightarrow> bool" where
  "dep_inv A s \<longleftrightarrow> commits_ok (dp_commits s) (dp_clock s) (ad_db (dp_admin s)) \<and>
     (\<forall>i. replica_ok A (dp_commits s) (dp_clock s) (dp_replicas s i)) \<and>
     (\<forall>i w. dp_busy s i = Some w \<longrightarrow> busy_ok (dp_commits s) (dp_clock s) (dp_replicas s i) w)"

lemma dep_invD:
  assumes "dep_inv A s"
  shows "commits_ok (dp_commits s) (dp_clock s) (ad_db (dp_admin s))"
    "replica_ok A (dp_commits s) (dp_clock s) (dp_replicas s i)"
    "dp_busy s i = Some w \<Longrightarrow> busy_ok (dp_commits s) (dp_clock s) (dp_replicas s i) w"
  using assms unfolding dep_inv_def by blast+

lemma truthful_mono: "truthful L D st \<Longrightarrow> D \<subseteq> D' \<Longrightarrow> truthful L D' st"
  unfolding truthful_def user_read_def domain_read_def config_read_def
  by (blast intro: ttl.holds_mono)

lemma replica_ok_new: "replica_ok L cs now (new_resolver cap lifetime)"
  by (simp add: replica_ok_def new_resolver_def new_gate_def Let_def)

text \<open>Time passing and further commits.\<close>

lemma replica_ok_later:
  assumes "replica_ok L cs now st" "now \<le> now'" "\<forall>(t, d) \<in> set new. now \<le> t"
  shows "replica_ok L (cs @ new) now' st"
  unfolding replica_ok_def
proof (intro conjI allI impI)
  show "gate_interval (rs_gate st) = second" using assms(1) by (simp add: replica_ok_def)
  fix c assume "gate_checked (rs_gate st) = Some c"
  with assms(1) have c: "c \<le> now" "\<forall>(t, d) \<in> set cs. t < c \<longrightarrow> db_revision d \<le> gate_revision (rs_gate st)"
    "\<exists>(t, d) \<in> set cs. gate_revision (rs_gate st) = db_revision d"
    "truthful L (since (gate_revision (rs_gate st)) cs) st" by (auto simp: replica_ok_def)
  show "c \<le> now'" using c(1) assms(2) by simp
  show "\<forall>(t, d) \<in> set (cs @ new). t < c \<longrightarrow> db_revision d \<le> gate_revision (rs_gate st)"
    using c(1,2) assms(3) by auto
  show "\<exists>(t, d) \<in> set (cs @ new). gate_revision (rs_gate st) = db_revision d"
    using c(3) by auto
  show "truthful L (since (gate_revision (rs_gate st)) (cs @ new)) st"
    by (rule truthful_mono [OF c(4)]) (rule since_mono, auto)
qed

lemma busy_ok_later: "busy_ok cs now st w \<Longrightarrow> now \<le> now' \<Longrightarrow> busy_ok (cs @ new) now' st w"
  by (auto simp: busy_ok_def nth_append)

lemma commits_revision_mono:
  assumes "commits_ok cs now d" "p \<le> q" "q < length cs"
  shows "db_revision (snd (cs ! p)) \<le> db_revision (snd (cs ! q))"
  using sorted_nth_mono [of "map (db_revision \<circ> snd) cs" p q] assms by (simp add: commits_ok_def)

lemma commits_last:
  assumes "commits_ok cs now d" "x \<in> set cs"
  shows "db_revision (snd x) \<le> db_revision d"
proof -
  obtain k where k: "k < length cs" "x = cs ! k" using assms(2) unfolding in_set_conv_nth by blast
  with commits_revision_mono [OF assms(1), of k "length cs - 1"] assms(1) show ?thesis
    by (cases cs) (auto simp: commits_ok_def last_conv_nth)
qed

lemma commits_ok_append:
  assumes "commits_ok cs now d" "db_revision d \<le> db_revision d'"
  shows "commits_ok (cs @ [(now, d')]) now d'"
  using assms commits_last [OF assms(1)] by (fastforce simp: commits_ok_def sorted_append)

text \<open>
  The gate at the start of a request, the probe reading the registry at position \<open>p\<close>: the
  replica stays consistent, and an open gate knows every commit at least one interval old.
\<close>

lemma gate_opens:
  assumes ok: "replica_ok L cs clk st" and cs: "commits_ok cs clk d" and p: "in_force cs started p"
    and t: "now \<le> started" "started \<le> clk"
    and old: "gate_checked (rs_gate st) \<noteq> None \<Longrightarrow> gate_revision (rs_gate st) \<le> db_revision (snd (cs ! p))"
    and load: "load = Inl e \<or> load = Inr (db_revision (snd (cs ! p)))"
    and g: "gate_check (rs_gate st) now started load = (g, changed, Inr ())"
    and st': "st' = (if changed then purge_all st else st)\<lparr>rs_gate := g\<rparr>"
  shows "replica_ok L cs clk st'" "gate_checked g \<noteq> None" "gate_revision g \<le> db_revision (snd (cs ! p))"
    "(ct, cd) \<in> set cs \<Longrightarrow> ct + second \<le> now \<Longrightarrow> db_revision cd \<le> gate_revision g"
proof -
  have sec: "0 < second" by (simp add: second_def)
  have iv: "gate_interval (rs_gate st) = second" using ok by (simp add: replica_ok_def)
  have pl: "p < length cs" using p by (simp add: in_force_def)
  have "replica_ok L cs clk st' \<and> gate_checked g \<noteq> None \<and> gate_revision g \<le> db_revision (snd (cs ! p)) \<and>
    (\<forall>(ct, cd) \<in> set cs. ct + second \<le> now \<longrightarrow> db_revision cd \<le> gate_revision g)"
  proof (cases "within_window (rs_gate st) now")
    case True
    with g have e: "g = rs_gate st" "\<not> changed" by (auto simp: gate_check_def)
    obtain c where c: "gate_checked (rs_gate st) = Some c" "now - c < second"
      using True by (auto simp: within_window_def iv split: option.splits)
    have "\<forall>(ct, cd) \<in> set cs. ct < c \<longrightarrow> db_revision cd \<le> gate_revision (rs_gate st)"
      using ok c(1) by (simp add: replica_ok_def)
    with c e ok old show ?thesis by (auto simp: st')
  next
    case False
    with g load have e: "g = (rs_gate st)\<lparr>gate_revision := db_revision (snd (cs ! p)), gate_checked := Some started\<rparr>"
      "changed = (gate_checked (rs_gate st) = None \<or> db_revision (snd (cs ! p)) \<noteq> gate_revision (rs_gate st))"
      by (auto simp: gate_check_def)
    have early: "db_revision cd \<le> db_revision (snd (cs ! p))" if "(ct, cd) \<in> set cs" "ct < started" for ct cd
    proof -
      obtain k where k: "k < length cs" "cs ! k = (ct, cd)" using \<open>(ct, cd) \<in> set cs\<close> unfolding in_set_conv_nth by blast
      have "k \<le> p"
      proof (rule ccontr)
        assume "\<not> k \<le> p"
        with p k(1) have "started \<le> fst (cs ! k)" by (simp add: in_force_def)
        with k(2) \<open>ct < started\<close> show False by simp
      qed
      from commits_revision_mono [OF cs this pl] k(2) show ?thesis by simp
    qed
    have "cs ! p \<in> set cs" using pl by simp
    then have member: "\<exists>(t, d) \<in> set cs. db_revision (snd (cs ! p)) = db_revision d"
      by (intro bexI [of _ "cs ! p"]) (simp_all add: case_prod_unfold)
    have "truthful L (since (db_revision (snd (cs ! p))) cs) st'"
    proof (cases changed)
      case True
      then show ?thesis by (simp add: st' truthful_gate)
    next
      case False
      with e(2) obtain c where "gate_checked (rs_gate st) = Some c"
        "db_revision (snd (cs ! p)) = gate_revision (rs_gate st)" by auto
      with ok False show ?thesis by (simp add: st' replica_ok_def truthful_gate)
    qed
    with early member t sec show ?thesis
      by (auto simp: replica_ok_def e(1) st' iv)
  qed
  then show "replica_ok L cs clk st'" "gate_checked g \<noteq> None" "gate_revision g \<le> db_revision (snd (cs ! p))"
    "(ct, cd) \<in> set cs \<Longrightarrow> ct + second \<le> now \<Longrightarrow> db_revision cd \<le> gate_revision g"
    by blast+
qed

lemma gate_closes:
  assumes "replica_ok L cs clk st" "gate_check (rs_gate st) now started load = (g, changed, Inl e)"
    and "st' = (if changed then purge_all st else st)\<lparr>rs_gate := g\<rparr>"
  shows "replica_ok L cs clk st'" "gate_checked g = None"
  using assms gate_check_error [OF assms(2)] gate_check_interval [of "rs_gate st" now started load]
  by (auto simp: replica_ok_def)

text \<open>The end of a request: the commits stay ordered, and the replica stays consistent.\<close>

lemma finish_commits:
  "dp_commits (fst (finish L env inp i s)) = dp_commits s @
     (case fst (snd (resolve L env inp (dp_replicas s i))) of None \<Rightarrow> [] | Some d \<Rightarrow> [(dp_clock s, d)])"
  "ad_db (dp_admin (fst (finish L env inp i s))) =
     (case fst (snd (resolve L env inp (dp_replicas s i))) of None \<Rightarrow> ad_db (dp_admin s) | Some d \<Rightarrow> d)"
  "dp_clock (fst (finish L env inp i s)) = dp_clock s"
  "dp_replicas (fst (finish L env inp i s)) = (dp_replicas s)(i := fst (resolve L env inp (dp_replicas s i)))"
  "dp_busy (fst (finish L env inp i s)) = (dp_busy s)(i := None)"
  "snd (finish L env inp i s) = snd (snd (resolve L env inp (dp_replicas s i)))"
  by (simp_all add: finish_def split: prod.split option.split)

lemma finish_commits_ok:
  assumes "dep_inv A s" "may_finish A env inp i s"
  shows "commits_ok (dp_commits (fst (finish A env inp i s))) (dp_clock s) (ad_db (dp_admin (fst (finish A env inp i s))))"
proof -
  have c: "commits_ok (dp_commits s) (dp_clock s) (ad_db (dp_admin s))"
    using assms(1) by (simp add: dep_inv_def)
  obtain st' commit r where res: "resolve A env inp (dp_replicas s i) = (st', commit, r)" by (metis prod_cases3)
  show ?thesis
  proof (cases commit)
    case None
    with c res show ?thesis by (simp add: finish_commits)
  next
    case (Some d')
    have "re_db env ''tx'' = ad_db (dp_admin s)" using assms(2) by (auto simp: may_finish_def)
    with resolve_commit_keeps(1) [OF res [unfolded Some]] commits_ok_append [OF c] Some res
    show ?thesis by (simp add: finish_commits)
  qed
qed

text \<open>Everything committed from a position on has at least that position's revision.\<close>

lemma commits_since:
  assumes "commits_ok cs now d" "rv \<le> db_revision (snd (cs ! p))" "p \<le> k" "k < length cs"
  shows "snd (cs ! k) \<in> since rv cs"
proof -
  have "rv \<le> db_revision (snd (cs ! k))" using commits_revision_mono [OF assms(1,3,4)] assms(2) by simp
  with nth_mem [OF assms(4)] show ?thesis
    unfolding since_def by (intro CollectI exI [of _ "fst (cs ! k)"]) simp
qed

text \<open>After the gate the request runs on the caches as they are, or purged.\<close>

lemma finish_gate:
  assumes "resolve L env inp st = (st', commit, r)" "is_user_method (in_method inp)" "\<forall>l st. re_world env l st = st"
  obtains g changed q st1 where
    "gate_check (rs_gate st) (re_now env) (re_started env) (revision_load env) = (g, changed, q)"
    "st1 = (if changed then purge_all st else st)\<lparr>rs_gate := g\<rparr>"
    "(case q of Inl e \<Rightarrow> (st1, None, Inl e) | Inr _ \<Rightarrow> resolve_user L env inp st1) = (st', commit, r)"
proof -
  obtain g changed q where g: "gate_check (rs_gate st) (re_now env) (re_started env) (revision_load env) = (g, changed, q)"
    by (metis prod_cases3)
  with assms show ?thesis by (intro that [OF g refl]) (simp add: resolve_def Let_def)
qed

lemma finish_user:
  assumes inv: "dep_inv A s" and may: "may_finish A env inp i s" and user: "is_user_method (in_method inp)"
    and busy: "dp_busy s i = Some (b, n)"
    and res: "resolve A env inp (dp_replicas s i) = (st', commit, r)"
    and cs': "cs' = dp_commits (fst (finish A env inp i s))"
  obtains (closed) e where "replica_ok A cs' (dp_clock s) st'" "r = Inl e"
  | (opened) st1 rv where "replica_ok A cs' (dp_clock s) st'" "truthful A (since rv cs') st1"
      "env_within A (since rv cs') env" "resolve_user A env inp st1 = (st', commit, r)"
      "set_option commit \<subseteq> since rv cs'"
      "\<And>ct cd. (ct, cd) \<in> set (dp_commits s) \<Longrightarrow> ct + second \<le> b \<Longrightarrow> db_revision cd \<le> rv"
proof -
  let ?st = "dp_replicas s i" and ?cs = "dp_commits s" and ?clk = "dp_clock s"
  define d' where "d' = ad_db (dp_admin (fst (finish A env inp i s)))"
  note c = dep_invD(1) [OF inv] and rok = dep_invD(2) [OF inv, of i] and bok = dep_invD(3) [OF inv busy]
  have c': "commits_ok cs' ?clk d'"
    using finish_commits_ok [OF inv may] by (simp add: cs' d'_def)
  have cs'_eq: "cs' = ?cs @ (case commit of None \<Rightarrow> [] | Some d \<Rightarrow> [(?clk, d)])"
    by (simp add: cs' finish_commits res)
  obtain p where p: "n \<le> Suc p" "b \<le> re_now env" "re_now env \<le> re_started env" "re_started env \<le> ?clk"
    "in_force ?cs (re_started env) p" "re_db env ''revision'' = snd (?cs ! p)"
    "\<And>l. \<exists>q. p \<le> q \<and> q < length cs' \<and> re_db env l = snd (cs' ! q)"
    using may busy by (auto simp: may_finish_def Let_def cs' [symmetric])
  have world: "\<forall>l st. re_world env l st = st" using may by (simp add: may_finish_def)
  have pl: "p < length ?cs" using p(5) by (simp add: in_force_def)
  obtain g changed q st1 where
    g: "gate_check (rs_gate ?st) (re_now env) (re_started env) (revision_load env) = (g, changed, q)"
    and st1: "st1 = (if changed then purge_all ?st else ?st)\<lparr>rs_gate := g\<rparr>"
    and run: "(case q of Inl e \<Rightarrow> (st1, None, Inl e) | Inr _ \<Rightarrow> resolve_user A env inp st1) = (st', commit, r)"
    by (rule finish_gate [OF res user world])
  show ?thesis
  proof (cases q)
    case (Inl e)
    have "replica_ok A ?cs ?clk st1" by (rule gate_closes(1) [OF rok g [unfolded Inl] st1])
    with run Inl cs'_eq show ?thesis by (intro closed [of e]) auto
  next
    case (Inr x)
    have old: "gate_revision (rs_gate ?st) \<le> db_revision (snd (?cs ! p))" if "gate_checked (rs_gate ?st) \<noteq> None"
      using that bok p(1) commits_revision_mono [OF c _ pl, of "n - 1"] by (fastforce simp: busy_ok_def)
    obtain e where load: "revision_load env = Inl e \<or> revision_load env = Inr (db_revision (snd (?cs ! p)))"
      using p(6) by (cases "re_fault env ''revision''") (auto simp: revision_load_def stmt_def)
    have gi: "gate_check (rs_gate ?st) (re_now env) (re_started env) (revision_load env) = (g, changed, Inr ())"
      using g Inr by simp
    note o = gate_opens [OF rok c p(5,3,4) old load gi st1]
    let ?D = "since (gate_revision g) cs'"
    have r1: "replica_ok A cs' ?clk st1"
      unfolding cs'_eq by (rule replica_ok_later) (use o(1) in \<open>auto split: option.splits\<close>)
    obtain ck where "gate_checked g = Some ck" using o(2) by blast
    with r1 have t1: "truthful A ?D st1" by (simp add: replica_ok_def st1)
    have rev: "snd (cs' ! k) \<in> ?D" if "p \<le> k" "k < length cs'" for k
      using commits_since [OF c' _ that] o(3) pl by (simp add: cs'_eq nth_append)
    have within: "env_within A ?D env"
      using p(7) rev world unfolding env_within_def by metis
    have ru: "resolve_user A env inp st1 = (st', commit, r)" using run Inr by simp
    have "truthful A ?D st'" by (rule resolve_user_truthful [OF ru t1 within])
    moreover have gate': "rs_gate st' = g" using resolve_user_gate [OF ru world] by (simp add: st1)
    ultimately have "replica_ok A cs' ?clk st'"
      using r1 by (simp add: replica_ok_def st1)
    moreover have "set_option commit \<subseteq> ?D"
      using rev [of "length ?cs"] pl by (auto simp: cs'_eq split: option.splits)
    moreover have "db_revision cd \<le> gate_revision g" if "(ct, cd) \<in> set ?cs" "ct + second \<le> b" for ct cd
      using o(4) that p(2) by simp
    ultimately show ?thesis by (intro opened [of "gate_revision g" st1] t1 within ru)
  qed
qed

subsection \<open>Every reachable deployment is consistent\<close>

lemma replica_start_ok:
  assumes "commits_ok cs now d" "replica_ok L cs now st"
  shows "busy_ok cs now st (now, length cs)"
proof -
  have "cs \<noteq> []" "snd (cs ! (length cs - 1)) = d"
    using assms(1) by (auto simp: commits_ok_def last_conv_nth)
  moreover have "gate_revision (rs_gate st) \<le> db_revision d" if opened: "gate_checked (rs_gate st) \<noteq> None"
  proof -
    obtain x where "x \<in> set cs" "gate_revision (rs_gate st) = db_revision (snd x)"
      using opened assms(2) by (fastforce simp: replica_ok_def)
    with commits_last [OF assms(1)] show ?thesis by metis
  qed
  ultimately show ?thesis by (auto simp: busy_ok_def)
qed

lemma finish_replica_ok:
  assumes "dep_inv A s" "may_finish A env inp i s"
  shows "replica_ok A (dp_commits (fst (finish A env inp i s))) (dp_clock s) (fst (resolve A env inp (dp_replicas s i)))"
proof -
  obtain st' commit r where res: "resolve A env inp (dp_replicas s i) = (st', commit, r)" by (metis prod_cases3)
  show ?thesis
  proof (cases "is_user_method (in_method inp)")
    case True
    obtain b n where "dp_busy s i = Some (b, n)" using assms(2) by (auto simp: may_finish_def)
    from finish_user [OF assms True this res refl] res show ?thesis by (metis fst_conv)
  next
    case False
    with res have "st' = dp_replicas s i" "commit = None" by (auto simp: resolve_def)
    with assms(1) res show ?thesis by (simp add: finish_commits dep_inv_def)
  qed
qed

lemma dep_inv_step: "dep_step A cfg s s' \<Longrightarrow> dep_inv A s \<Longrightarrow> dep_inv A s'"
proof (induction rule: dep_step.induct)
  case (tick s now)
  then show ?case
    using replica_ok_later [OF dep_invD(2) [OF tick(2)] tick(1), of "[]"]
      busy_ok_later [OF dep_invD(3) [OF tick(2)] tick(1), of _ _ "[]"]
    by (fastforce simp: dep_inv_def commits_ok_def)
next
  case (operate env r s sys' resp)
  let ?new = "[(dp_clock s, ad_db sys')]"
  have "commits_ok (dp_commits s @ ?new) (dp_clock s) (ad_db sys')"
    using operate commits_ok_append serve_revision_mono [OF operate(1)] by (auto simp: dep_inv_def)
  moreover have "replica_ok A (dp_commits s @ ?new) (dp_clock s) (dp_replicas s i)" for i
    by (rule replica_ok_later [OF dep_invD(2) [OF operate(2)]]) simp_all
  moreover have "busy_ok (dp_commits s @ ?new) (dp_clock s) (dp_replicas s i) w" if "dp_busy s i = Some w" for i w
    by (rule busy_ok_later [OF dep_invD(3) [OF operate(2) that]]) simp
  ultimately show ?case by (simp add: dep_inv_def)
next
  case (start s i)
  then show ?case by (auto simp: dep_inv_def intro: replica_start_ok)
next
  case (finish env inp i s)
  let ?s = "fst (finish A env inp i s)"
  have new: "\<exists>new. dp_commits ?s = dp_commits s @ new \<and> (\<forall>(t, d) \<in> set new. dp_clock s \<le> t)"
    by (auto simp: finish_commits split: option.split)
  have "replica_ok A (dp_commits ?s) (dp_clock s) (dp_replicas ?s j)" for j
  proof (cases "j = i")
    case True
    then show ?thesis using finish_replica_ok [OF finish(2,1)] by (simp add: finish_commits(4))
  next
    case False
    with new replica_ok_later [OF dep_invD(2) [OF finish(2)] order_refl] show ?thesis
      by (auto simp: finish_commits(4))
  qed
  moreover have "busy_ok (dp_commits ?s) (dp_clock s) (dp_replicas ?s j) w" if "dp_busy ?s j = Some w" for j w
    using that new busy_ok_later [OF dep_invD(3) [OF finish(2)] order_refl]
    by (auto simp: finish_commits(4,5) split: if_split_asm)
  ultimately show ?case
    using finish_commits_ok [OF finish(2,1)] by (simp add: dep_inv_def finish_commits(3))
next
  case (restart s i cap lifetime)
  then show ?case by (auto simp: dep_inv_def replica_ok_new)
qed

interpretation dep: invariant_steps "dep_step A cfg" "dep_inv A" for A cfg
  by unfold_locales (rule dep_inv_step)

lemma dep_inv_fresh:
  assumes "\<And>i. \<exists>cap lifetime. rs i = new_resolver cap lifetime"
  shows "dep_inv A (fresh_deployment now sys rs)"
proof -
  have "replica_ok A cs now (rs i)" for cs i
    using assms [of i] replica_ok_new by metis
  then show ?thesis by (simp add: dep_inv_def fresh_deployment_def commits_ok_def)
qed

text \<open>And so is every registry that is ever committed.\<close>

definition registries_ok :: "'a admin_lib_scheme \<Rightarrow> deployment \<Rightarrow> bool" where
  "registries_ok A s \<longleftrightarrow> snd (last (dp_commits s)) = ad_db (dp_admin s) \<and> dp_commits s \<noteq> [] \<and>
     (\<forall>(t, d) \<in> set (dp_commits s). registry_ok A d \<and> registry_typed A d)"

lemma serve_registry_ok:
  assumes "serve A cfg env r sys = (sys', resp)" "registry_ok A (ad_db sys)"
  shows "registry_ok A (ad_db sys')"
proof (rule serve_registry [OF assms(1)])
  fix operator uid addr target
  assume "revoke_sessions env operator uid addr target sys = (sys', resp)"
  from revoke_sessions_registry [OF this] assms(2) show ?thesis
    by (auto simp: registry_ok_def keys_ok_def refs_ok_def defaults_ok_def default_member_def)
qed (use assms(2) in \<open>auto dest: api_write_keeps\<close>)

lemma serve_registry_typed:
  assumes "serve A cfg env r sys = (sys', resp)" "policy_codec A" "registry_typed A (ad_db sys)"
  shows "registry_typed A (ad_db sys')"
proof (rule serve_registry [OF assms(1)])
  fix operator uid addr target
  assume "revoke_sessions env operator uid addr target sys = (sys', resp)"
  from revoke_sessions_registry [OF this] assms(3) show ?thesis by (auto simp: registry_typed_def)
qed (use assms(2,3) in \<open>auto dest: api_write_typed\<close>)

lemma registries_ok_step:
  assumes "policy_codec A"
  shows "dep_step A cfg s s' \<Longrightarrow> registries_ok A s \<Longrightarrow> registries_ok A s'"
proof (induction rule: dep_step.induct)
  case (operate env r s sys' resp)
  then have "registry_ok A (ad_db (dp_admin s)) \<and> registry_typed A (ad_db (dp_admin s))"
    unfolding registries_ok_def by (metis (mono_tags, lifting) case_prodD last_in_set prod.collapse)
  with operate serve_registry_ok [OF operate(1)] serve_registry_typed [OF operate(1) assms]
  show ?case by (auto simp: registries_ok_def)
next
  case (finish env inp i s)
  then have "registry_ok A (ad_db (dp_admin s)) \<and> registry_typed A (ad_db (dp_admin s))"
    unfolding registries_ok_def by (metis (mono_tags, lifting) case_prodD last_in_set prod.collapse)
  moreover obtain st' commit r where res: "resolve A env inp (dp_replicas s i) = (st', commit, r)" by (metis prod_cases3)
  moreover have "re_db env ''tx'' = ad_db (dp_admin s)" using finish(1) by (auto simp: may_finish_def)
  ultimately show ?case
    using finish(2) resolve_commit_keeps(2,3) [of A env inp "dp_replicas s i"]
    by (cases commit) (auto simp: registries_ok_def finish_commits)
qed (simp_all add: registries_ok_def)

interpretation registries: invariant_steps "dep_step A cfg" "\<lambda>s. policy_codec A \<longrightarrow> registries_ok A s" for A cfg
  by unfold_locales (use registries_ok_step in blast)

lemma dep_commits_grow: "dep_step A cfg s s' \<Longrightarrow> \<exists>new. dp_commits s' = dp_commits s @ new"
  by (induction rule: dep_step.induct) (simp_all add: finish_commits)

lemma dep_steps_commits: "dep_steps A cfg s s' \<Longrightarrow> set (dp_commits s) \<subseteq> set (dp_commits s')"
  by (induction rule: rtranclp_induct) (auto dest!: dep_commits_grow)

subsection \<open>Properties\<close>

text \<open>A user's enabled membership, in the tables.\<close>

definition enabled_member :: "'a lib_scheme \<Rightarrow> mtdb \<Rightarrow> string \<Rightarrow> string \<Rightarrow> bool" where
  "enabled_member L d email s \<longleftrightarrow>
     (\<exists>u \<in> set (db_users d). \<exists>t \<in> set (db_tenants d). \<exists>m \<in> set (db_members d).
        norm_email L (us_email u) = email \<and> us_enabled u \<and> tn_slug t = s \<and> tn_enabled t \<and>
        mb_user m = us_id u \<and> mb_tenant m = tn_id t)"

lemma user_record_member:
  assumes "get_user_with_tenants L d email = Inr (Some u)" "u_enabled u" "s \<in> set (u_slugs u)"
  shows "enabled_member L d email s"
proof -
  from assms(1) obtain r where r: "List.find (\<lambda>u. norm_email L (us_email u) = email) (db_users d) = Some r"
    "u_enabled u = us_enabled r" "u_slugs u = map (\<lambda>(t, m). tn_slug t) (user_tenants L d (us_id r))"
    by (auto simp: get_user_with_tenants_def Let_def split: option.splits)
  from assms(3) r(3) obtain t m where "(t, m) \<in> set (user_tenants L d (us_id r))" "s = tn_slug t" by auto
  with find_SomeD [OF r(1)] r(2) assms(2) show ?thesis
    unfolding enabled_member_def set_user_tenants
    by (intro bexI [of _ r] bexI [of _ t] bexI [of _ m]) auto
qed

text \<open>C16. Whatever operators, users and restarts do and in whatever order, every registry that is
  ever committed has unique normalized names, no dangling reference, only enabled memberships as
  default tenants, and only policies of their keys' types.\<close>

theorem deployment_registries:
  assumes "dep_steps A cfg (fresh_deployment now sys rs) s" "policy_codec A"
    and "registry_ok A (ad_db sys)" "registry_typed A (ad_db sys)" "(t, d) \<in> set (dp_commits s)"
  shows "registry_ok A d \<and> registry_typed A d"
proof -
  have "registries_ok A (fresh_deployment now sys rs)"
    using assms(3,4) by (simp add: registries_ok_def fresh_deployment_def)
  with registries.inv_steps [OF assms(1)] assms(2) have "registries_ok A s" by blast
  with assms(5) show ?thesis by (auto simp: registries_ok_def)
qed


subsection \<open>A worked run\<close>

text \<open>The operator saves a policy; one second later a first login on replica 0 enrolls the user.\<close>

definition run_start :: deployment where
  "run_start = fresh_deployment 0 demo_signed_in (\<lambda>_. new_resolver 0 0)"

definition run_saved :: "admin_sys \<times> admin_resp" where
  "run_saved = serve demo_admin demo_cfg demo_aenv demo_put demo_signed_in"

definition run_written :: deployment where
  "run_written = run_start\<lparr>dp_admin := fst run_saved,
     dp_commits := dp_commits run_start @ [(dp_clock run_start, ad_db (fst run_saved))]\<rparr>"

definition run_begun :: deployment where
  "run_begun = (let s = run_written\<lparr>dp_clock := second\<rparr> in
     s\<lparr>dp_busy := (dp_busy s)(0 := Some (dp_clock s, length (dp_commits s)))\<rparr>)"

definition run_env :: renv where
  "run_env = (demo_renv (ad_db (fst run_saved)))\<lparr>re_now := second, re_started := second\<rparr>"

definition run_login :: "deployment \<times> (err + outcome)" where
  "run_login = finish demo_admin run_env demo_input 0 run_begun"

lemma run_saved_rev: "snd run_saved = RSaved 10"
  by code_simp

lemma run_login_granted: "snd run_login = Inr (Resolved demo_identity)"
  by code_simp

lemma run_steps: "dep_steps demo_admin demo_cfg run_written run_begun"
proof -
  let ?s = "run_written\<lparr>dp_clock := second\<rparr>"
  have "dep_step demo_admin demo_cfg run_written ?s"
    by (rule dep_step.tick) (simp add: run_written_def run_start_def fresh_deployment_def second_def)
  moreover have "dep_step demo_admin demo_cfg ?s run_begun"
    unfolding run_begun_def Let_def
    by (rule dep_step.start) (simp add: run_written_def run_start_def fresh_deployment_def)
  ultimately show ?thesis by simp
qed

lemma run_commits: "dp_commits run_begun = [(0, ad_db demo_signed_in), (0, ad_db (fst run_saved))]"
  by (simp add: run_begun_def run_written_def run_start_def fresh_deployment_def Let_def)

lemma run_may_finish: "may_finish demo_admin run_env demo_input 0 run_begun"
proof -
  have db: "re_db run_env l = ad_db (fst run_saved)" for l by (simp add: run_env_def demo_renv_def)
  have cs: "\<exists>new. dp_commits (fst (finish demo_admin run_env demo_input 0 run_begun)) =
      [(0, ad_db demo_signed_in), (0, ad_db (fst run_saved))] @ new"
    by (simp only: finish_commits(1) run_commits) blast
  have "dp_busy run_begun 0 = Some (second, 2)" "dp_clock run_begun = second"
    "ad_db (dp_admin run_begun) = ad_db (fst run_saved)"
    by (simp_all add: run_begun_def run_written_def run_start_def fresh_deployment_def Let_def)
  then show ?thesis
    unfolding may_finish_def db Let_def using cs
    by (intro conjI exI [of _ second] exI [of _ 2] exI [of _ 1])
      (auto simp: run_env_def demo_renv_def in_force_def run_commits intro!: exI [of _ "Suc 0"])
qed


theorem deployment_registries_witness:
  "registry_ok typed_admin (ad_db (fst typed_put)) \<and> registry_typed typed_admin (ad_db (fst typed_put))"
proof (rule deployment_registries)
  let ?s = "fresh_deployment 0 demo_signed_in (\<lambda>_. new_resolver 0 0)"
  have "serve typed_admin demo_cfg demo_aenv demo_put (dp_admin ?s) = (fst typed_put, snd typed_put)"
    by (simp add: fresh_deployment_def typed_put_def)
  from dep_step.operate [OF this]
  show "dep_steps typed_admin demo_cfg ?s (?s\<lparr>dp_admin := fst typed_put,
      dp_commits := dp_commits ?s @ [(dp_clock ?s, ad_db (fst typed_put))]\<rparr>)" by blast
  show "policy_codec typed_admin" by (rule typed_admin_codec)
  show "registry_ok typed_admin (ad_db demo_signed_in)" "registry_typed typed_admin (ad_db demo_signed_in)"
    by code_simp+
  show "(0, ad_db (fst typed_put)) \<in> set (dp_commits (?s\<lparr>dp_admin := fst typed_put,
      dp_commits := dp_commits ?s @ [(dp_clock ?s, ad_db (fst typed_put))]\<rparr>))"
    by (simp add: fresh_deployment_def)
qed

end
