(* ===== verification/Microsoft_Keys.thy ===== *)
theory Microsoft_Keys
  imports Go_Values Transition_Systems
begin

text \<open>
  \<open>internal/loginproviders/microsoft_keys.go\<close> and \<open>fetchJSON\<close> of \<open>microsoft.go\<close>: the bounded cache
  of Microsoft signing keys. One load is a function of the cache, its clock readings and the
  response; loads that run concurrently are the step relation \<open>ms_step\<close>. Times are nanoseconds
  of the monotonic clock.
\<close>

subsection \<open>Documents\<close>

record http_resp =
  hr_status :: int
  hr_body :: "string option"           \<comment> \<open>\<open>None\<close>: reading the body failed\<close>

record jwk =
  jk_rsa_bits :: "nat option"          \<comment> \<open>\<open>N.BitLen()\<close>; \<open>None\<close> when it is not an RSA public key\<close>
  jk_valid :: bool
  jk_kid :: string
  jk_use :: string
  jk_alg :: string
  jk_material :: string

record jws =
  jws_kids :: "string list"            \<comment> \<open>\<open>Header.KeyID\<close> of each signature\<close>
  jws_payload :: string                \<comment> \<open>\<open>UnsafePayloadWithoutVerification\<close>\<close>
  jws_signed :: string

record id_token =
  id_issuer :: string
  id_subject :: string
  id_audience :: "string list"

record discovery =
  di_issuer :: string
  di_authorization :: string
  di_token :: string
  di_keys :: string

text \<open>
  \<open>oidc_precheck\<close> stands for the checks of \<open>oidc.IDTokenVerifier.Verify\<close> before it asks the key
  set (issuer, audience, expiry at the given time, algorithm), \<open>oidc_token\<close> for the token it
  returns once the key set has answered with the signed payload.
\<close>

record ms_lib = lib +
  jwks_json :: "string \<Rightarrow> string list option"        \<comment> \<open>\<open>keys\<close> of the document, undecoded\<close>
  jwk_json :: "string \<Rightarrow> jwk option"
  scope_json :: "string \<Rightarrow> string option"            \<comment> \<open>\<open>issuer\<close> of a key\<close>
  discovery_json :: "string \<Rightarrow> discovery option"
  claims_json :: "string \<Rightarrow> (string \<times> string) option"   \<comment> \<open>\<open>iss\<close> and \<open>tid\<close>\<close>
  jws_parse :: "string \<Rightarrow> jws option"                \<comment> \<open>\<open>jose.ParseSigned\<close>, RS256 only\<close>
  jws_verify :: "jws \<Rightarrow> jwk \<Rightarrow> string option"        \<comment> \<open>\<open>JSONWebSignature.Verify\<close>\<close>
  oidc_precheck :: "int \<Rightarrow> string \<Rightarrow> string \<Rightarrow> string \<Rightarrow> bool"
  oidc_token :: "int \<Rightarrow> string \<Rightarrow> string \<Rightarrow> string \<Rightarrow> string \<Rightarrow> id_token option"

definition max_document :: nat where
  "max_document = 2 ^ 20"

definition fetch_json :: "(string \<Rightarrow> 'd option) \<Rightarrow> http_resp option \<Rightarrow> err + 'd" where
  "fetch_json decode response =
     (case response of
        None \<Rightarrow> Inl (ErrOther ''request failed'')
      | Some r \<Rightarrow>
          if hr_status r \<noteq> 200 then Inl (ErrOther ''metadata HTTP status'')
          else case hr_body r of
            None \<Rightarrow> Inl (ErrOther ''body'')
          | Some raw \<Rightarrow>
              if max_document < length raw then Inl (ErrOther ''metadata exceeds size limit'')
              else case decode raw of None \<Rightarrow> Inl (ErrOther ''json'') | Some d \<Rightarrow> Inr d)"

subsection \<open>Keys\<close>

record ms_key =
  mk_key :: jwk
  mk_issuer :: string

definition key_usable :: "jwk \<Rightarrow> string \<Rightarrow> bool" where
  "key_usable key issuer =
     ((case jk_rsa_bits key of None \<Rightarrow> False | Some bits \<Rightarrow> jk_valid key \<and> 2048 \<le> bits) \<and>
      jk_kid key \<noteq> [] \<and> issuer \<noteq> [] \<and> (jk_use key = [] \<or> jk_use key = ''sig'') \<and>
      (jk_alg key = [] \<or> jk_alg key = ''RS256''))"

fun collect_keys :: "'a ms_lib_scheme \<Rightarrow> string list \<Rightarrow> err + ms_key list" where
  "collect_keys A [] = Inr []"
| "collect_keys A (raw # raws) =
     (case jwk_json A raw of
        None \<Rightarrow> Inl (ErrOther ''invalid Microsoft signing key'')
      | Some key \<Rightarrow>
      case scope_json A raw of
        None \<Rightarrow> Inl (ErrOther ''json'')
      | Some issuer \<Rightarrow>
          andthen (collect_keys A raws) (\<lambda>ks.
            Inr (if key_usable key issuer then \<lparr>mk_key = key, mk_issuer = issuer\<rparr> # ks else ks)))"

definition fetch_keys :: "'a ms_lib_scheme \<Rightarrow> http_resp option \<Rightarrow> err + ms_key list" where
  "fetch_keys A response =
     andthen (fetch_json (jwks_json A) response) (\<lambda>raws.
       if raws = [] \<or> 512 < length raws then Inl (ErrOther ''invalid Microsoft signing-key count'')
       else andthen (collect_keys A raws) (\<lambda>ks.
         if ks = [] then Inl (ErrOther ''no usable Microsoft signing keys'') else Inr ks))"

lemma collect_keys_Inr:
  "collect_keys A raws = Inr ks \<Longrightarrow>
     length ks \<le> length raws \<and> (\<forall>k \<in> set ks. key_usable (mk_key k) (mk_issuer k))"
proof (induction raws arbitrary: ks)
  case (Cons raw raws)
  then show ?case
    by (auto split: option.splits if_split_asm)
qed simp

lemma fetch_keys_Inr:
  assumes "fetch_keys A response = Inr ks"
  shows "ks \<noteq> [] \<and> length ks \<le> 512 \<and> (\<forall>k \<in> set ks. key_usable (mk_key k) (mk_issuer k)) \<and>
    (\<exists>r raw. response = Some r \<and> hr_status r = 200 \<and> hr_body r = Some raw \<and> length raw \<le> max_document)"
proof -
  from assms obtain raws where r: "fetch_json (jwks_json A) response = Inr raws"
    "collect_keys A raws = Inr ks" "length raws \<le> 512" "ks \<noteq> []"
    by (auto simp: fetch_keys_def split: if_split_asm)
  then show ?thesis
    using collect_keys_Inr [OF r(2)] by (auto simp: fetch_json_def split: option.splits if_split_asm)
qed

subsection \<open>The cache\<close>

record ms_keys =
  kc_keys :: "ms_key list"
  kc_success :: "int option"           \<comment> \<open>\<open>None\<close>: the zero \<open>time.Time\<close>\<close>
  kc_attempt :: "int option"

definition no_keys :: ms_keys where
  "no_keys = \<lparr>kc_keys = [], kc_success = None, kc_attempt = None\<rparr>"

definition key_lifetime :: int where "key_lifetime = 24 * 3600 * 1000000000"
definition key_cooldown :: int where "key_cooldown = 60 * 1000000000"

definition keys_fresh :: "int \<Rightarrow> ms_keys \<Rightarrow> bool" where
  "keys_fresh now k = (kc_keys k \<noteq> [] \<and>
     (case kc_success k of None \<Rightarrow> False | Some t \<Rightarrow> now - t < key_lifetime))"

datatype begin_refresh = UseKeys | Unavailable | Fetch

text \<open>The locked prologue of the flight; on \<open>Fetch\<close> it also records the attempt.\<close>

definition begin_refresh :: "bool \<Rightarrow> int \<Rightarrow> ms_keys \<Rightarrow> begin_refresh" where
  "begin_refresh force now k =
     (if \<not> force \<and> keys_fresh now k then UseKeys
      else if (case kc_attempt k of None \<Rightarrow> False | Some t \<Rightarrow> now - t < key_cooldown)
      then if keys_fresh now k then UseKeys else Unavailable
      else Fetch)"

definition attempted :: "int \<Rightarrow> ms_keys \<Rightarrow> ms_keys" where
  "attempted now k = k\<lparr>kc_attempt := Some now\<rparr>"

definition updated_keys :: "ms_key list \<Rightarrow> int \<Rightarrow> ms_keys \<Rightarrow> ms_keys" where
  "updated_keys ks now k = k\<lparr>kc_keys := ks, kc_success := Some now\<rparr>"

text \<open>The clock readings of one call of \<open>load\<close> and the answer of the key endpoint.\<close>

record load_env =
  le_check :: int
  le_begin :: int
  le_done :: int
  le_response :: "http_resp option"

definition load_keys ::
  "'a ms_lib_scheme \<Rightarrow> bool \<Rightarrow> load_env \<Rightarrow> ms_keys \<Rightarrow> (err + ms_key list) \<times> ms_keys" where
  "load_keys A force e k =
     (if keys_fresh (le_check e) k \<and> \<not> force then (Inr (kc_keys k), k)
      else case begin_refresh force (le_begin e) k of
        UseKeys \<Rightarrow> (Inr (kc_keys k), k)
      | Unavailable \<Rightarrow> (Inl (ErrOther ''Microsoft signing-key refresh is temporarily unavailable''), k)
      | Fetch \<Rightarrow>
          let k' = attempted (le_begin e) k in
          case fetch_keys A (le_response e) of
            Inl err \<Rightarrow> (Inl err, k')
          | Inr ks \<Rightarrow> (Inr ks, updated_keys ks (le_done e) k'))"

subsection \<open>Concurrent loads\<close>

text \<open>
  \<open>singleflight\<close> lets at most one refresh run; readers of fresh keys do not wait for it. The
  lists are histories: the start of every request to the key endpoint, every accepted
  document with its time, and every key list handed to a caller with the time of its check.
\<close>

record ms_sys =
  sy_cache :: ms_keys
  sy_flight :: bool
  sy_clock :: int
  sy_attempts :: "int list"
  sy_fetched :: "(int \<times> http_resp option) list"
  sy_served :: "(int \<times> ms_key list) list"

definition ms_start :: "int \<Rightarrow> ms_sys" where
  "ms_start now = \<lparr>sy_cache = no_keys, sy_flight = False, sy_clock = now,
     sy_attempts = [], sy_fetched = [], sy_served = []\<rparr>"

inductive ms_step :: "'a ms_lib_scheme \<Rightarrow> ms_sys \<Rightarrow> ms_sys \<Rightarrow> bool" for A where
  fast: "\<lbrakk>sy_clock s \<le> now; keys_fresh now (sy_cache s)\<rbrakk> \<Longrightarrow>
     ms_step A s (s\<lparr>sy_clock := now, sy_served := (now, kc_keys (sy_cache s)) # sy_served s\<rparr>)"
| cached: "\<lbrakk>sy_clock s \<le> now; \<not> sy_flight s; begin_refresh force now (sy_cache s) = UseKeys\<rbrakk> \<Longrightarrow>
     ms_step A s (s\<lparr>sy_clock := now, sy_served := (now, kc_keys (sy_cache s)) # sy_served s\<rparr>)"
| unavailable: "\<lbrakk>sy_clock s \<le> now; \<not> sy_flight s; begin_refresh force now (sy_cache s) = Unavailable\<rbrakk> \<Longrightarrow>
     ms_step A s (s\<lparr>sy_clock := now\<rparr>)"
| start: "\<lbrakk>sy_clock s \<le> now; \<not> sy_flight s; begin_refresh force now (sy_cache s) = Fetch\<rbrakk> \<Longrightarrow>
     ms_step A s (s\<lparr>sy_clock := now, sy_flight := True, sy_cache := attempted now (sy_cache s),
       sy_attempts := now # sy_attempts s\<rparr>)"
| failed: "\<lbrakk>sy_flight s; fetch_keys A response = Inl err\<rbrakk> \<Longrightarrow> ms_step A s (s\<lparr>sy_flight := False\<rparr>)"
| fetched: "\<lbrakk>sy_clock s \<le> now; sy_flight s; fetch_keys A response = Inr ks\<rbrakk> \<Longrightarrow>
     ms_step A s (s\<lparr>sy_clock := now, sy_flight := False, sy_cache := updated_keys ks now (sy_cache s),
       sy_fetched := (now, response) # sy_fetched s, sy_served := (now, ks) # sy_served s\<rparr>)"

abbreviation ms_steps :: "'a ms_lib_scheme \<Rightarrow> ms_sys \<Rightarrow> ms_sys \<Rightarrow> bool" where
  "ms_steps A \<equiv> (ms_step A)\<^sup>*\<^sup>*"

subsection \<open>The invariant\<close>

text \<open>
  A served list is good at its time when it was fetched, complete and usable, less than a
  day before. Attempts are at least the cooldown apart, newest first.
\<close>

definition good_keys :: "'a ms_lib_scheme \<Rightarrow> (int \<times> http_resp option) list \<Rightarrow> int \<Rightarrow> ms_key list \<Rightarrow> bool" where
  "good_keys A docs now ks = (\<exists>(t, r) \<in> set docs. fetch_keys A r = Inr ks \<and> t \<le> now \<and> now - t < key_lifetime)"

definition spaced :: "int list \<Rightarrow> bool" where
  "spaced = sorted_wrt (\<lambda>a b. b + key_cooldown \<le> a)"

definition ms_inv :: "'a ms_lib_scheme \<Rightarrow> ms_sys \<Rightarrow> bool" where
  "ms_inv A s =
     (spaced (sy_attempts s) \<and> (\<forall>a \<in> set (sy_attempts s). a \<le> sy_clock s) \<and>
      kc_attempt (sy_cache s) = (case sy_attempts s of [] \<Rightarrow> None | a # _ \<Rightarrow> Some a) \<and>
      (\<forall>t. kc_success (sy_cache s) = Some t \<longrightarrow> t \<le> sy_clock s \<and>
         (\<exists>r. (t, r) \<in> set (sy_fetched s) \<and> fetch_keys A r = Inr (kc_keys (sy_cache s)))) \<and>
      (\<forall>(t, ks) \<in> set (sy_served s). good_keys A (sy_fetched s) t ks))"

lemma good_keys_mono: "good_keys A docs t ks \<Longrightarrow> set docs \<subseteq> set docs' \<Longrightarrow> good_keys A docs' t ks"
  by (auto simp: good_keys_def)

lemma begin_refresh_cases:
  "begin_refresh force now k = UseKeys \<Longrightarrow> keys_fresh now k"
  "begin_refresh force now k = Fetch \<Longrightarrow> kc_attempt k = Some t \<Longrightarrow> t + key_cooldown \<le> now"
  by (auto simp: begin_refresh_def split: if_split_asm option.splits)

lemma ms_inv_start: "ms_inv A (ms_start now)"
  by (simp add: ms_inv_def ms_start_def no_keys_def spaced_def)

lemma ms_inv_fresh:
  assumes "ms_inv A s" "keys_fresh now (sy_cache s)" "sy_clock s \<le> now"
  shows "good_keys A (sy_fetched s) now (kc_keys (sy_cache s))"
proof -
  from assms(2) obtain t where t: "kc_success (sy_cache s) = Some t" "now - t < key_lifetime"
    by (auto simp: keys_fresh_def split: option.splits)
  with assms(1) obtain r where "t \<le> sy_clock s" "(t, r) \<in> set (sy_fetched s)"
    "fetch_keys A r = Inr (kc_keys (sy_cache s))"
    by (auto simp: ms_inv_def)
  with t assms(3) show ?thesis by (auto simp: good_keys_def intro!: bexI [of _ "(t, r)"])
qed

lemma ms_inv_step: "ms_step A s s' \<Longrightarrow> ms_inv A s \<Longrightarrow> ms_inv A s'"
proof (induction rule: ms_step.induct)
  case (fast s now)
  from ms_inv_fresh [OF fast.prems fast.hyps(2,1)] fast show ?case
    by (force simp: ms_inv_def)
next
  case (cached s now force)
  from ms_inv_fresh [OF cached.prems begin_refresh_cases(1) [OF cached.hyps(3)] cached.hyps(1)] cached
  show ?case by (force simp: ms_inv_def)
next
  case (unavailable s now force)
  then show ?case by (force simp: ms_inv_def)
next
  case (start s now force)
  have "spaced (now # sy_attempts s)"
  proof (cases "sy_attempts s")
    case (Cons a as)
    with start have "a + key_cooldown \<le> now" "spaced (a # as)"
      by (auto simp: ms_inv_def dest: begin_refresh_cases(2))
    with Cons show ?thesis by (force simp: spaced_def key_cooldown_def)
  qed (simp add: spaced_def)
  with start show ?case by (force simp: ms_inv_def attempted_def)
next
  case (failed s response err)
  then show ?case by (simp add: ms_inv_def)
next
  case (fetched s now response ks)
  have "good_keys A ((now, response) # sy_fetched s) now ks"
    using fetched by (simp add: good_keys_def key_lifetime_def)
  with fetched show ?case
    by (auto simp: ms_inv_def updated_keys_def intro: good_keys_mono)
qed

interpretation ms: invariant_steps "ms_step A" "ms_inv A" for A
  by unfold_locales (rule ms_inv_step)

lemma ms_inv_reachable: "ms_steps A (ms_start t0) s \<Longrightarrow> ms_inv A s"
  by (rule ms.inv_steps [OF _ ms_inv_start])

lemma decreasing_distinct: "sorted_wrt (\<lambda>x y. f y < f x) xs \<Longrightarrow> distinct (map f xs)"
  for f :: "'b \<Rightarrow> int"
  by (induction xs) auto

lemma spaced_count:
  assumes "spaced as"
  shows "length (filter (\<lambda>t. a \<le> t \<and> t < a + int n * key_cooldown) as) \<le> n"
proof -
  let ?bs = "filter (\<lambda>t. a \<le> t \<and> t < a + int n * key_cooldown) as"
  let ?f = "\<lambda>t. (t - a) div key_cooldown"
  have c: "0 < key_cooldown" by (simp add: key_cooldown_def)
  have "sorted_wrt (\<lambda>x y. y + key_cooldown \<le> x) ?bs"
    using assms unfolding spaced_def by (rule sorted_wrt_filter)
  then have "sorted_wrt (\<lambda>x y. ?f y < ?f x) ?bs"
  proof (rule sorted_wrt_mono_rel [rotated])
    fix x y assume "y + key_cooldown \<le> x"
    then have "?f (y + key_cooldown) \<le> ?f x" using c by (simp add: zdiv_mono1)
    moreover have "?f (y + key_cooldown) = ?f y + 1"
      using c div_add_self2 [of key_cooldown "y - a"] by (simp add: algebra_simps)
    ultimately show "?f y < ?f x" by simp
  qed
  then have "distinct (map ?f ?bs)" by (rule decreasing_distinct)
  then have card: "card (set (map ?f ?bs)) = length (map ?f ?bs)" by (rule distinct_card)
  moreover have "set (map ?f ?bs) \<subseteq> {0..<int n}"
    by (auto simp: key_cooldown_def)
  ultimately have "card (set (map ?f ?bs)) \<le> card {0..<int n}" by (intro card_mono) auto
  then show ?thesis unfolding card by simp
qed

subsection \<open>A load is a path of the relation\<close>

definition timely_load :: "int \<Rightarrow> load_env \<Rightarrow> bool" where
  "timely_load now e = (now \<le> le_check e \<and> le_check e \<le> le_begin e \<and> le_begin e \<le> le_done e)"

lemma load_keys_steps:
  assumes "\<not> sy_flight s" "timely_load (sy_clock s) e" "load_keys A force e (sy_cache s) = (r, k)"
  obtains s' where "ms_steps A s s'" "\<not> sy_flight s'" "sy_cache s' = k" "sy_clock s' \<le> le_done e"
    "sy_clock s \<le> sy_clock s'"
    "\<And>ks. r = Inr ks \<Longrightarrow> \<exists>t. (t, ks) \<in> set (sy_served s') \<and> sy_clock s \<le> t \<and> t \<le> le_done e"
proof (cases "keys_fresh (le_check e) (sy_cache s) \<and> \<not> force")
  case True
  let ?s = "s\<lparr>sy_clock := le_check e, sy_served := (le_check e, kc_keys (sy_cache s)) # sy_served s\<rparr>"
  from True assms(2) have "ms_step A s ?s" by (intro fast) (auto simp: timely_load_def)
  with True assms show ?thesis
    by (intro that [of ?s]) (auto simp: load_keys_def timely_load_def intro!: exI [of _ "le_check e"])
next
  case slow: False
  note l = assms(3) [unfolded load_keys_def if_not_P [OF slow]]
  from assms(2) have le: "sy_clock s \<le> le_begin e" "le_begin e \<le> le_done e" by (auto simp: timely_load_def)
  show ?thesis
  proof (cases "begin_refresh force (le_begin e) (sy_cache s)")
    case UseKeys
    let ?s = "s\<lparr>sy_clock := le_begin e, sy_served := (le_begin e, kc_keys (sy_cache s)) # sy_served s\<rparr>"
    from UseKeys assms(1) le have "ms_step A s ?s" by (intro cached) auto
    with UseKeys assms(1) le l show ?thesis
      by (intro that [of ?s]) (auto intro!: exI [of _ "le_begin e"])
  next
    case Unavailable
    let ?s = "s\<lparr>sy_clock := le_begin e\<rparr>"
    from Unavailable assms(1) le have "ms_step A s ?s" by (intro unavailable) auto
    with Unavailable assms(1) le l show ?thesis by (intro that [of ?s]) auto
  next
    case Fetch
    let ?s = "s\<lparr>sy_clock := le_begin e, sy_flight := True, sy_cache := attempted (le_begin e) (sy_cache s),
      sy_attempts := le_begin e # sy_attempts s\<rparr>"
    from Fetch assms(1) le have 1: "ms_step A s ?s" by (intro start) auto
    show ?thesis
    proof (cases "fetch_keys A (le_response e)")
      case (Inl err)
      have "ms_step A ?s (?s\<lparr>sy_flight := False\<rparr>)" using Inl by (intro failed) auto
      with 1 have "ms_steps A s (?s\<lparr>sy_flight := False\<rparr>)" by simp
      with Inl Fetch le l show ?thesis by (intro that [of "?s\<lparr>sy_flight := False\<rparr>"]) (auto simp: Let_def)
    next
      case (Inr ks)
      let ?t = "?s\<lparr>sy_clock := le_done e, sy_flight := False, sy_cache := updated_keys ks (le_done e) (sy_cache ?s),
        sy_fetched := (le_done e, le_response e) # sy_fetched ?s, sy_served := (le_done e, ks) # sy_served ?s\<rparr>"
      have "ms_step A ?s ?t" using Inr le by (intro fetched) auto
      with 1 have "ms_steps A s ?t" by simp
      with Inr Fetch le l show ?thesis
        by (intro that [of ?t]) (auto simp: Let_def intro!: exI [of _ "le_done e"])
    qed
  qed
qed

end
