(* ===== verification/Microsoft_Oidc.thy ===== *)
theory Microsoft_Oidc
  imports Microsoft_Keys Resolver_Checks
begin

text \<open>
  \<open>internal/loginproviders\<close>: the tenant-independent Microsoft provider. \<open>New\<close> and
  \<open>microsoftVerifier.Verify\<close> of \<open>microsoft.go\<close>, \<open>scopedMicrosoftKeys\<close> of \<open>microsoft_keys.go\<close>.
\<close>

subsection \<open>Discovery\<close>

definition ms_origin :: string where
  "ms_origin = ''https://login.microsoftonline.com''"

definition ms_template :: string where
  "ms_template = ms_origin @ ''/{tenantid}/v2.0''"

record provider_cfg =
  pv_name :: string
  pv_issuer :: string
  pv_client :: string
  pv_secret :: string
  pv_redirect :: string
  pv_scopes :: "string list"

record ms_verifier =
  mv_client :: string
  mv_organizations :: bool
  mv_keys_url :: string

record ms_provider =
  mp_cfg :: provider_cfg
  mp_scopes :: "string list"
  mp_auth_url :: string
  mp_token_url :: string
  mp_verifier :: ms_verifier

definition ms_authority :: "string \<Rightarrow> string option" where
  "ms_authority issuer =
     (if issuer = ms_origin @ ''/organizations/v2.0'' then Some ''organizations''
      else if issuer = ms_origin @ ''/common/v2.0'' then Some ''common'' else None)"

text \<open>
  The client of every metadata and key request: a copy of the context's client, or of the default
  one, that gives up after ten seconds and returns a redirect as it is. A \<open>Timeout\<close> of 0 is none.
  So \<open>fetch\<close> below, and the response in \<open>fetch_keys\<close>, are the answer of the requested address
  itself, and a redirect is refused by its status.
\<close>

record http_client =
  hc_timeout :: int
  hc_follows :: bool                   \<comment> \<open>\<open>CheckRedirect\<close> lets the client follow redirects\<close>

definition default_client :: http_client where
  "default_client = \<lparr>hc_timeout = 0, hc_follows = True\<rparr>"

definition microsoft_client :: "http_client option \<Rightarrow> http_client" where
  "microsoft_client original =
     (let client = (case original of None \<Rightarrow> default_client | Some c \<Rightarrow> c);
          client = (if hc_timeout client = 0 \<or> 10 * 1000000000 < hc_timeout client
                    then client\<lparr>hc_timeout := 10 * 1000000000\<rparr> else client)
      in client\<lparr>hc_follows := False\<rparr>)"

text \<open>No request waits longer than ten seconds or is sent on to another host; a shorter timeout of
  the caller is kept.\<close>

lemma microsoft_client_confined:
  "\<not> hc_follows (microsoft_client c) \<and> hc_timeout (microsoft_client c) \<noteq> 0 \<and>
   hc_timeout (microsoft_client c) \<le> 10 * 1000000000 \<and>
   (\<forall>d. c = Some d \<longrightarrow> 0 < hc_timeout d \<longrightarrow> hc_timeout (microsoft_client c) \<le> hc_timeout d)"
  by (auto simp: microsoft_client_def default_client_def Let_def split: option.splits)

text \<open>\<open>Inr None\<close> is the delegation of every other issuer to \<open>login.NewProvider\<close>.\<close>

definition ms_new ::
  "'a ms_lib_scheme \<Rightarrow> (string \<Rightarrow> http_resp option) \<Rightarrow> provider_cfg \<Rightarrow> err + ms_provider option" where
  "ms_new A fetch cfg =
     (let issuer = trim_suffix (pv_issuer cfg) ''/'' in
      case ms_authority issuer of
        None \<Rightarrow> Inr None
      | Some authority \<Rightarrow>
      if pv_name cfg = [] \<or> pv_client cfg = [] \<or> pv_redirect cfg = []
      then Inl (ErrOther ''Microsoft OIDC provider requires name, client ID and redirect URL'')
      else andthen (fetch_json (discovery_json A) (fetch (issuer @ ''/.well-known/openid-configuration''))) (\<lambda>m.
      if di_issuer m \<noteq> ms_template \<or>
         di_authorization m \<noteq> ms_origin @ ''/'' @ authority @ ''/oauth2/v2.0/authorize'' \<or>
         di_token m \<noteq> ms_origin @ ''/'' @ authority @ ''/oauth2/v2.0/token'' \<or>
         (di_keys m \<noteq> ms_origin @ ''/'' @ authority @ ''/discovery/v2.0/keys'' \<and>
          di_keys m \<noteq> ms_origin @ ''/common/discovery/v2.0/keys'')
      then Inl (ErrOther ''Microsoft OIDC discovery returned unexpected issuer or endpoints'')
      else let scopes = (if pv_scopes cfg = [] then [''email'', ''profile''] else pv_scopes cfg) in
        Inr (Some \<lparr>mp_cfg = cfg, mp_scopes = ''openid'' # scopes, mp_auth_url = di_authorization m,
          mp_token_url = di_token m,
          mp_verifier = \<lparr>mv_client = pv_client cfg, mv_organizations = (authority = ''organizations''),
            mv_keys_url = di_keys m\<rparr>\<rparr>)))"

subsection \<open>Signatures\<close>

fun scoped_verify :: "'a ms_lib_scheme \<Rightarrow> string \<Rightarrow> jws \<Rightarrow> string \<Rightarrow> ms_key list \<Rightarrow> string option" where
  "scoped_verify A issuer tok kid [] = None"
| "scoped_verify A issuer tok kid (key # keys) =
     (if jk_kid (mk_key key) \<noteq> kid \<or> (mk_issuer key \<noteq> ms_template \<and> mk_issuer key \<noteq> issuer)
      then scoped_verify A issuer tok kid keys
      else case jws_verify A tok (mk_key key) of
        Some payload \<Rightarrow> Some payload
      | None \<Rightarrow> scoped_verify A issuer tok kid keys)"

definition verify_signature ::
  "'a ms_lib_scheme \<Rightarrow> string \<Rightarrow> string \<Rightarrow> load_env \<Rightarrow> load_env \<Rightarrow> ms_keys \<Rightarrow> (err + string) \<times> ms_keys" where
  "verify_signature A issuer raw e1 e2 k =
     (case jws_parse A raw of
        None \<Rightarrow> (Inl (ErrOther ''parse''), k)
      | Some tok \<Rightarrow>
      if length (jws_kids tok) \<noteq> 1 \<or> jws_kids tok ! 0 = []
      then (Inl (ErrOther ''Microsoft token requires one signature with a kid''), k)
      else let kid = jws_kids tok ! 0 in
      case load_keys A False e1 k of
        (Inl err, k1) \<Rightarrow> (Inl err, k1)
      | (Inr keys, k1) \<Rightarrow>
      case scoped_verify A issuer tok kid keys of
        Some payload \<Rightarrow> (Inr payload, k1)
      | None \<Rightarrow>
      if \<exists>key \<in> set keys. jk_kid (mk_key key) = kid
      then (Inl (ErrOther ''Microsoft token signature or signing-key issuer is invalid''), k1)
      else case load_keys A True e2 k1 of
        (Inl err, k2) \<Rightarrow> (Inl err, k2)
      | (Inr keys, k2) \<Rightarrow>
      case scoped_verify A issuer tok kid keys of
        Some payload \<Rightarrow> (Inr payload, k2)
      | None \<Rightarrow> (Inl (ErrOther ''no permitted Microsoft signing key verifies the token''), k2))"

subsection \<open>Tokens\<close>

definition ms_issuer :: "string \<Rightarrow> string" where
  "ms_issuer tid = ms_origin @ ''/'' @ tid @ ''/v2.0''"

definition ms_verify ::
  "'a ms_lib_scheme \<Rightarrow> ms_verifier \<Rightarrow> int \<Rightarrow> string \<Rightarrow> load_env \<Rightarrow> load_env \<Rightarrow> ms_keys \<Rightarrow> (err + id_token) \<times> ms_keys" where
  "ms_verify A v now raw e1 e2 k =
     (if 65536 < length raw then (Inl (ErrOther ''Microsoft ID token exceeds size limit''), k)
      else case jws_parse A raw of
        None \<Rightarrow> (Inl (ErrOther ''invalid Microsoft ID token''), k)
      | Some parsed \<Rightarrow>
      case claims_json A (jws_payload parsed) of
        None \<Rightarrow> (Inl (ErrOther ''invalid Microsoft token claims''), k)
      | Some (iss, tid) \<Rightarrow>
      case uuid_parse A tid of
        None \<Rightarrow> (Inl (ErrOther ''Microsoft token requires a GUID tid''), k)
      | Some u \<Rightarrow>
      if u = nil_uuid \<or> length tid \<noteq> 36 \<or> \<not> equal_fold A u tid
      then (Inl (ErrOther ''Microsoft token requires a GUID tid''), k)
      else if mv_organizations v \<and> u = consumer_tenant
      then (Inl (ErrOther ''personal Microsoft accounts are not allowed by organizations authority''), k)
      else if iss \<noteq> ms_issuer tid then (Inl (ErrOther ''Microsoft token issuer does not match tid''), k)
      else if \<not> oidc_precheck A now (ms_issuer tid) (mv_client v) raw then (Inl (ErrOther ''oidc''), k)
      else case verify_signature A (ms_issuer tid) raw e1 e2 k of
        (Inl err, k') \<Rightarrow> (Inl err, k')
      | (Inr payload, k') \<Rightarrow>
      case oidc_token A now (ms_issuer tid) (mv_client v) raw payload of
        None \<Rightarrow> (Inl (ErrOther ''oidc''), k')
      | Some t \<Rightarrow>
      if id_subject t = [] then (Inl (ErrOther ''Microsoft ID token requires a subject''), k')
      else (Inr t, k'))"

subsection \<open>Lemmas\<close>

lemma guarded_Some: "(if b then Inl e else Inr (Some x)) = Inr (Some y) \<Longrightarrow> \<not> b \<and> y = x"
  by (cases b) auto

lemma scoped_verify_Some:
  "scoped_verify A issuer tok kid keys = Some payload \<Longrightarrow>
     \<exists>key \<in> set keys. jk_kid (mk_key key) = kid \<and> mk_issuer key \<in> {ms_template, issuer} \<and>
       jws_verify A tok (mk_key key) = Some payload"
  by (induction keys) (auto split: if_split_asm option.splits)

text \<open>An accepted signature comes from a key list that one of the two loads returned.\<close>

lemma verify_signature_Inr:
  assumes "verify_signature A issuer raw e1 e2 k = (Inr payload, k')"
  obtains tok kid keys k1 where "jws_parse A raw = Some tok" "jws_kids tok = [kid]" "kid \<noteq> []"
    "scoped_verify A issuer tok kid keys = Some payload"
    "load_keys A False e1 k = (Inr keys, k') \<or>
     (\<exists>ks. load_keys A False e1 k = (Inr ks, k1) \<and> load_keys A True e2 k1 = (Inr keys, k'))"
proof -
  obtain tok where tok: "jws_parse A raw = Some tok"
    using assms by (auto simp: verify_signature_def split: option.splits)
  note r = assms [unfolded verify_signature_def tok option.case Let_def]
  have kids: "\<not> (length (jws_kids tok) \<noteq> 1 \<or> jws_kids tok ! 0 = [])"
    using r by (rule contrapos_pn) simp
  note r = r [unfolded if_not_P [OF kids]]
  obtain kid where kid: "jws_kids tok = [kid]" "kid \<noteq> []"
    using kids by (cases "jws_kids tok") auto
  obtain keys k1 where l1: "load_keys A False e1 k = (Inr keys, k1)"
    using r by (cases "load_keys A False e1 k") (auto split: sum.splits)
  show ?thesis
  proof (cases "scoped_verify A issuer tok kid keys")
    case (Some p)
    with r l1 kid show ?thesis by (intro that [OF tok kid, of keys k1]) auto
  next
    case None
    with r l1 kid obtain keys2 where "load_keys A True e2 k1 = (Inr keys2, k')"
      "scoped_verify A issuer tok kid keys2 = Some payload"
      by (cases "load_keys A True e2 k1") (auto split: sum.splits if_split_asm option.splits)
    with l1 show ?thesis by (intro that [OF tok kid, of keys2 k1]) auto
  qed
qed

lemma ms_verify_Inr:
  assumes "ms_verify A v now raw e1 e2 k = (Inr t, k')"
  obtains tok tid u payload where "length raw \<le> 65536" "jws_parse A raw = Some tok"
    "claims_json A (jws_payload tok) = Some (ms_issuer tid, tid)"
    "uuid_parse A tid = Some u" "u \<noteq> nil_uuid" "length tid = 36" "equal_fold A u tid"
    "mv_organizations v \<longrightarrow> u \<noteq> consumer_tenant"
    "oidc_precheck A now (ms_issuer tid) (mv_client v) raw"
    "verify_signature A (ms_issuer tid) raw e1 e2 k = (Inr payload, k')"
    "oidc_token A now (ms_issuer tid) (mv_client v) raw payload = Some t" "id_subject t \<noteq> []"
proof -
  have len: "\<not> 65536 < length raw" using assms by (auto simp: ms_verify_def)
  note r = assms [unfolded ms_verify_def if_not_P [OF len]]
  obtain tok iss tid u where p: "jws_parse A raw = Some tok" "claims_json A (jws_payload tok) = Some (iss, tid)"
    "uuid_parse A tid = Some u"
    using r by (auto split: option.splits)
  note r = r [unfolded p option.case prod.case]
  have g: "\<not> (u = nil_uuid \<or> length tid \<noteq> 36 \<or> \<not> equal_fold A u tid)"
    using r by (rule contrapos_pn) simp
  note r = r [unfolded if_not_P [OF g]]
  have o: "\<not> (mv_organizations v \<and> u = consumer_tenant)" using r by (rule contrapos_pn) simp
  note r = r [unfolded if_not_P [OF o]]
  have i: "\<not> iss \<noteq> ms_issuer tid" using r by (rule contrapos_pn) simp
  note r = r [unfolded if_not_P [OF i]]
  have c: "\<not> \<not> oidc_precheck A now (ms_issuer tid) (mv_client v) raw" using r by (rule contrapos_pn) simp
  note r = r [unfolded if_not_P [OF c]]
  obtain payload where s: "verify_signature A (ms_issuer tid) raw e1 e2 k = (Inr payload, k')"
    "oidc_token A now (ms_issuer tid) (mv_client v) raw payload = Some t" "id_subject t \<noteq> []"
    using r by (cases "verify_signature A (ms_issuer tid) raw e1 e2 k")
      (auto split: sum.splits option.splits if_split_asm)
  from len p g o i c s show ?thesis by (intro that [of tok tid u payload]) auto
qed

lemma served_good:
  assumes "ms_steps A (ms_start t0) s" "\<not> sy_flight s"
    and "timely_load (sy_clock s) e1" "timely_load (le_done e1) e2"
    and "load_keys A False e1 (sy_cache s) = (Inr keys, k) \<or>
      (\<exists>ks. load_keys A False e1 (sy_cache s) = (Inr ks, k1) \<and> load_keys A True e2 k1 = (Inr keys, k))"
  obtains used where "sy_clock s \<le> used" "used \<le> le_done e2" "\<exists>docs. good_keys A docs used keys"
proof -
  note found = that
  have served: thesis if "ms_steps A s s'" "(t, keys) \<in> set (sy_served s')" "sy_clock s \<le> t" "t \<le> le_done e2" for s' t
  proof -
    have "ms_inv A s'" using that(1) ms_inv_reachable [OF assms(1)] by (rule ms.inv_steps)
    with that(2) have "good_keys A (sy_fetched s') t keys" by (auto simp: ms_inv_def)
    with that(3,4) show thesis by (intro found) auto
  qed
  have e: "le_done e1 \<le> le_done e2" using assms(4) by (simp add: timely_load_def)
  from assms(5) show thesis
  proof
    assume l: "load_keys A False e1 (sy_cache s) = (Inr keys, k)"
    show thesis
      by (rule load_keys_steps [OF assms(2,3) l]) (use served e in force)
  next
    assume "\<exists>ks. load_keys A False e1 (sy_cache s) = (Inr ks, k1) \<and> load_keys A True e2 k1 = (Inr keys, k)"
    then obtain ks where l: "load_keys A False e1 (sy_cache s) = (Inr ks, k1)" "load_keys A True e2 k1 = (Inr keys, k)"
      by blast
    obtain s1 where s1: "ms_steps A s s1" "\<not> sy_flight s1" "sy_cache s1 = k1" "sy_clock s1 \<le> le_done e1"
      "sy_clock s \<le> sy_clock s1"
      by (rule load_keys_steps [OF assms(2,3) l(1)])
    have t: "timely_load (sy_clock s1) e2" using s1(4) assms(4) by (simp add: timely_load_def)
    obtain s2 where s2: "ms_steps A s1 s2"
      "\<exists>t. (t, keys) \<in> set (sy_served s2) \<and> sy_clock s1 \<le> t \<and> t \<le> le_done e2"
      by (rule load_keys_steps [OF s1(2) t l(2) [folded s1(3)]]) blast
    have "ms_steps A s s2" using s1(1) s2(1) by (rule rtranclp_trans)
    with s2(2) served s1(5) show thesis by force
  qed
qed

lemma ms_verify_signed:
  assumes "ms_steps A (ms_start t0) s" "\<not> sy_flight s"
    and "timely_load (sy_clock s) e1" "timely_load (le_done e1) e2"
    and "ms_verify A v now raw e1 e2 (sy_cache s) = (Inr t, k)"
  shows "\<exists>tok tid u key payload keys r fetched used. length raw \<le> 65536 \<and> jws_parse A raw = Some tok \<and>
    claims_json A (jws_payload tok) = Some (ms_issuer tid, tid) \<and> uuid_parse A tid = Some u \<and> u \<noteq> nil_uuid \<and>
    length tid = 36 \<and> equal_fold A u tid \<and> (mv_organizations v \<longrightarrow> u \<noteq> consumer_tenant) \<and>
    oidc_precheck A now (ms_issuer tid) (mv_client v) raw \<and>
    oidc_token A now (ms_issuer tid) (mv_client v) raw payload = Some t \<and> id_subject t \<noteq> [] \<and>
    jws_kids tok = [jk_kid (mk_key key)] \<and> jws_verify A tok (mk_key key) = Some payload \<and>
    mk_issuer key \<in> {ms_template, ms_issuer tid} \<and> key_usable (mk_key key) (mk_issuer key) \<and>
    key \<in> set keys \<and> fetch_keys A r = Inr keys \<and>
    sy_clock s \<le> used \<and> used \<le> le_done e2 \<and> fetched \<le> used \<and> used - fetched < key_lifetime"
proof -
  obtain tok tid u payload where v: "length raw \<le> 65536" "jws_parse A raw = Some tok"
    "claims_json A (jws_payload tok) = Some (ms_issuer tid, tid)"
    "uuid_parse A tid = Some u" "u \<noteq> nil_uuid" "length tid = 36" "equal_fold A u tid"
    "mv_organizations v \<longrightarrow> u \<noteq> consumer_tenant"
    "oidc_precheck A now (ms_issuer tid) (mv_client v) raw"
    "verify_signature A (ms_issuer tid) raw e1 e2 (sy_cache s) = (Inr payload, k)"
    "oidc_token A now (ms_issuer tid) (mv_client v) raw payload = Some t" "id_subject t \<noteq> []"
    by (rule ms_verify_Inr [OF assms(5)])
  obtain kid keys k1 where w: "jws_kids tok = [kid]" "scoped_verify A (ms_issuer tid) tok kid keys = Some payload"
    "load_keys A False e1 (sy_cache s) = (Inr keys, k) \<or>
     (\<exists>ks. load_keys A False e1 (sy_cache s) = (Inr ks, k1) \<and> load_keys A True e2 k1 = (Inr keys, k))"
    by (rule verify_signature_Inr [OF v(10)]) (use v(2) in auto)
  obtain used where "sy_clock s \<le> used" "used \<le> le_done e2"
    "\<exists>docs. good_keys A docs used keys"
    by (rule served_good [OF assms(1-4) w(3)]) auto
  then obtain r fetched where g: "sy_clock s \<le> used" "used \<le> le_done e2" "fetch_keys A r = Inr keys"
    "fetched \<le> used" "used - fetched < key_lifetime"
    by (auto simp: good_keys_def)
  obtain key where key: "key \<in> set keys" "jk_kid (mk_key key) = kid"
    "mk_issuer key \<in> {ms_template, ms_issuer tid}" "jws_verify A tok (mk_key key) = Some payload"
    using scoped_verify_Some [OF w(2)] by auto
  have "key_usable (mk_key key) (mk_issuer key)" using fetch_keys_Inr [OF g(3)] key(1) by blast
  with v w(1) key g show ?thesis by blast
qed

lemma trim_slash: "trim_suffix s ''/'' = p \<Longrightarrow> s \<in> {p, p @ ''/''}"
  unfolding trim_suffix_def has_suffix_def
  by (auto split: if_split_asm) (metis append_take_drop_id)

subsection \<open>Properties\<close>


text \<open>C23. Bounded load on the key endpoint. Whatever tokens arrive and however often key ids are
  unknown, at most \<open>n\<close> requests for keys start within \<open>n\<close> minutes; and every key list handed to
  a verification is a non-empty list of at most 512 usable keys fetched less than a day before.\<close>

theorem key_requests_bounded:
  assumes "ms_steps A (ms_start t0) s"
  shows "length (filter (\<lambda>t. a \<le> t \<and> t < a + int n * key_cooldown) (sy_attempts s)) \<le> n \<and>
    (\<forall>(t, ks) \<in> set (sy_served s). ks \<noteq> [] \<and> length ks \<le> 512 \<and>
       (\<forall>key \<in> set ks. key_usable (mk_key key) (mk_issuer key)) \<and>
       (\<exists>(f, r) \<in> set (sy_fetched s). fetch_keys A r = Inr ks \<and> f \<le> t \<and> t - f < key_lifetime))"
proof -
  have i: "ms_inv A s" by (rule ms_inv_reachable [OF assms])
  then have "spaced (sy_attempts s)" by (simp add: ms_inv_def)
  moreover have "ks \<noteq> [] \<and> length ks \<le> 512 \<and> (\<forall>key \<in> set ks. key_usable (mk_key key) (mk_issuer key)) \<and>
      (\<exists>(f, r) \<in> set (sy_fetched s). fetch_keys A r = Inr ks \<and> f \<le> t \<and> t - f < key_lifetime)"
    if "(t, ks) \<in> set (sy_served s)" for t ks
  proof -
    have g: "good_keys A (sy_fetched s) t ks" using i that by (auto simp: ms_inv_def)
    then obtain r where "fetch_keys A r = Inr ks" by (auto simp: good_keys_def)
    from fetch_keys_Inr [OF this] g show ?thesis by (auto simp: good_keys_def)
  qed
  ultimately show ?thesis using spaced_count by blast
qed

text \<open>Forged tokens cause no requests. While the keys are fresh, a token whose key id is known
  is decided on the cached keys alone: the cache is untouched and no second load happens,
  whatever its signature.\<close>

theorem known_key_no_request:
  assumes "keys_fresh (le_check e1) k" "jws_parse A raw = Some tok" "jws_kids tok = [kid]"
    and "\<exists>key \<in> set (kc_keys k). jk_kid (mk_key key) = kid"
  shows "verify_signature A issuer raw e1 e2 k =
    (if kid = [] then (Inl (ErrOther ''Microsoft token requires one signature with a kid''), k)
     else (case scoped_verify A issuer tok kid (kc_keys k) of
        Some payload \<Rightarrow> (Inr payload, k)
      | None \<Rightarrow> (Inl (ErrOther ''Microsoft token signature or signing-key issuer is invalid''), k)))"
  using assms by (simp add: verify_signature_def load_keys_def split: option.split)

text \<open>Discovery is pinned. A Microsoft provider sends users, codes and key requests only to the
  fixed authority, whatever the metadata says; it always asks for \<open>openid\<close>, and refuses personal
  accounts exactly under the organizations authority.\<close>

theorem discovery_pinned:
  assumes "ms_new A fetch cfg = Inr (Some p)"
  shows "\<exists>authority \<in> {''organizations'', ''common''}.
    pv_issuer cfg \<in> {ms_origin @ ''/'' @ authority @ ''/v2.0'', ms_origin @ ''/'' @ authority @ ''/v2.0/''} \<and>
    mp_auth_url p = ms_origin @ ''/'' @ authority @ ''/oauth2/v2.0/authorize'' \<and>
    mp_token_url p = ms_origin @ ''/'' @ authority @ ''/oauth2/v2.0/token'' \<and>
    (\<exists>a \<in> {authority, ''common''}. mv_keys_url (mp_verifier p) = ms_origin @ ''/'' @ a @ ''/discovery/v2.0/keys'') \<and>
    mv_organizations (mp_verifier p) = (authority = ''organizations'') \<and>
    mv_client (mp_verifier p) = pv_client cfg \<and> pv_client cfg \<noteq> [] \<and> ''openid'' \<in> set (mp_scopes p)"
proof -
  obtain authority where a: "ms_authority (trim_suffix (pv_issuer cfg) ''/'') = Some authority"
    using assms by (auto simp: ms_new_def Let_def split: option.splits)
  note r = assms [unfolded ms_new_def Let_def a option.case]
  have c: "\<not> (pv_name cfg = [] \<or> pv_client cfg = [] \<or> pv_redirect cfg = [])"
    using r by (rule contrapos_pn) simp
  note r = r [unfolded if_not_P [OF c]]
  obtain m where m: "fetch_json (discovery_json A) (fetch (trim_suffix (pv_issuer cfg) ''/'' @
      ''/.well-known/openid-configuration'')) = Inr m"
    using r by (rule andthen_InrE)
  note g = guarded_Some [OF r [unfolded m andthen_simps]]
  have "di_authorization m = ms_origin @ ''/'' @ authority @ ''/oauth2/v2.0/authorize''"
    "di_token m = ms_origin @ ''/'' @ authority @ ''/oauth2/v2.0/token''"
    "\<exists>a \<in> {authority, ''common''}. di_keys m = ms_origin @ ''/'' @ a @ ''/discovery/v2.0/keys''"
    "p = \<lparr>mp_cfg = cfg, mp_scopes = ''openid'' # (if pv_scopes cfg = [] then [''email'', ''profile''] else pv_scopes cfg),
       mp_auth_url = di_authorization m, mp_token_url = di_token m,
       mp_verifier = \<lparr>mv_client = pv_client cfg, mv_organizations = (authority = ''organizations''),
         mv_keys_url = di_keys m\<rparr>\<rparr>"
    using g by auto
  moreover have "authority \<in> {''organizations'', ''common''}"
    "trim_suffix (pv_issuer cfg) ''/'' = ms_origin @ ''/'' @ authority @ ''/v2.0''"
    using a by (auto simp: ms_authority_def split: if_split_asm)
  moreover from this(2) have "pv_issuer cfg \<in> {ms_origin @ ''/'' @ authority @ ''/v2.0'', ms_origin @ ''/'' @ authority @ ''/v2.0/''}"
    by (auto dest: trim_slash)
  ultimately show ?thesis using c by (intro bexI [of _ authority]) auto
qed

subsection \<open>Witnesses\<close>

definition demo_tid :: string where
  "demo_tid = ''11111111-2222-3333-4444-555555555555''"

definition demo_jwk :: jwk where
  "demo_jwk = \<lparr>jk_rsa_bits = Some 2048, jk_valid = True, jk_kid = ''k1'', jk_use = ''sig'', jk_alg = [],
     jk_material = ''n''\<rparr>"

definition demo_jws :: jws where
  "demo_jws = \<lparr>jws_kids = [''k1''], jws_payload = ''claims'', jws_signed = ''sig''\<rparr>"

definition demo_ms :: ms_lib where
  "demo_ms = lib.extend demo_lib (ms_lib.fields (\<lambda>s. Some [s]) (\<lambda>_. Some demo_jwk) (\<lambda>_. Some ms_template)
     (\<lambda>_. Some \<lparr>di_issuer = ms_template, di_authorization = ms_origin @ ''/common/oauth2/v2.0/authorize'',
        di_token = ms_origin @ ''/common/oauth2/v2.0/token'', di_keys = ms_origin @ ''/common/discovery/v2.0/keys''\<rparr>)
     (\<lambda>_. Some (ms_issuer demo_tid, demo_tid)) (\<lambda>_. Some demo_jws)
     (\<lambda>tok key. if jws_signed tok = ''sig'' then Some (jws_payload tok) else None)
     (\<lambda>_ iss c _. True)
     (\<lambda>_ iss c _ _. Some \<lparr>id_issuer = iss, id_subject = ''alice'', id_audience = [c]\<rparr>))"

definition demo_doc :: "http_resp option" where
  "demo_doc = Some \<lparr>hr_status = 200, hr_body = Some ''key''\<rparr>"

definition demo_load :: "int \<Rightarrow> load_env" where
  "demo_load t = \<lparr>le_check = t, le_begin = t, le_done = t, le_response = demo_doc\<rparr>"

definition demo_verifier :: ms_verifier where
  "demo_verifier = \<lparr>mv_client = ''app'', mv_organizations = True, mv_keys_url = ms_origin @ ''/common/discovery/v2.0/keys''\<rparr>"

definition demo_keys :: ms_keys where
  "demo_keys = \<lparr>kc_keys = [\<lparr>mk_key = demo_jwk, mk_issuer = ms_template\<rparr>], kc_success = Some 5, kc_attempt = Some 5\<rparr>"

lemma demo_fields:
  "jws_parse demo_ms raw = Some demo_jws" "jws_verify demo_ms demo_jws key = Some ''claims''"
  "claims_json demo_ms x = Some (ms_issuer demo_tid, demo_tid)"
  "uuid_parse demo_ms demo_tid = Some demo_tid"
  "oidc_precheck demo_ms now i c raw" "id_subject (the (oidc_token demo_ms now i c raw p)) = ''alice''"
  "oidc_token demo_ms now i c raw p \<noteq> None"
  by (simp_all add: demo_ms_def lib.defs ms_lib.defs demo_jws_def demo_lib_def demo_tid_def byte_lower_def byte_def)

lemma demo_fetch: "fetch_keys demo_ms demo_doc = Inr [\<lparr>mk_key = demo_jwk, mk_issuer = ms_template\<rparr>]"
  by (simp add: fetch_keys_def fetch_json_def demo_doc_def demo_ms_def lib.defs ms_lib.defs max_document_def
      key_usable_def demo_jwk_def ms_template_def)

lemma demo_loads: "load_keys demo_ms False (demo_load 5) no_keys =
   (Inr [\<lparr>mk_key = demo_jwk, mk_issuer = ms_template\<rparr>], demo_keys)"
  by (simp add: load_keys_def demo_load_def no_keys_def keys_fresh_def begin_refresh_def demo_fetch
      attempted_def updated_keys_def demo_keys_def)

lemma demo_verified: "\<exists>t. ms_verify demo_ms demo_verifier 0 ''token'' (demo_load 5) (demo_load 6) no_keys =
   (Inr t, demo_keys) \<and> id_subject t = ''alice''"
proof -
  have "verify_signature demo_ms i ''token'' (demo_load 5) (demo_load 6) no_keys = (Inr ''claims'', demo_keys)" for i
    by (simp add: verify_signature_def demo_loads demo_fields(1,2))
      (simp add: demo_jws_def demo_jwk_def [THEN arg_cong, of jk_kid] demo_fields(2) [unfolded demo_jws_def])
  moreover have "demo_tid \<noteq> nil_uuid" "demo_tid \<noteq> consumer_tenant" "length demo_tid = 36"
    by (simp_all add: demo_tid_def nil_uuid_def consumer_tenant_def)
  ultimately show ?thesis
    using demo_fields(6,7) [of 0 "ms_issuer demo_tid" "mv_client demo_verifier" "''token''" "''claims''"]
    by (auto simp: ms_verify_def demo_fields(1,3-5))
qed

lemma demo_timely: "timely_load 5 (demo_load 5)" "timely_load (le_done (demo_load 5)) (demo_load 6)"
  by (simp_all add: timely_load_def demo_load_def)


lemma demo_path: "\<exists>s. ms_steps demo_ms (ms_start 5) s \<and> (\<exists>t. (t, kc_keys demo_keys) \<in> set (sy_served s))"
proof -
  have s: "\<not> sy_flight (ms_start 5)" "timely_load (sy_clock (ms_start 5)) (demo_load 5)"
    "load_keys demo_ms False (demo_load 5) (sy_cache (ms_start 5)) = (Inr (kc_keys demo_keys), demo_keys)"
    using demo_loads demo_timely by (simp_all add: ms_start_def demo_keys_def)
  show ?thesis by (rule load_keys_steps [OF s]) blast
qed

theorem key_requests_bounded_witness:
  "\<exists>s. ms_steps demo_ms (ms_start 5) s \<and> sy_served s \<noteq> [] \<and>
     length (filter (\<lambda>t. 0 \<le> t \<and> t < 0 + int 1 * key_cooldown) (sy_attempts s)) \<le> 1"
proof -
  obtain s t where s: "ms_steps demo_ms (ms_start 5) s" "(t, kc_keys demo_keys) \<in> set (sy_served s)"
    using demo_path by blast
  have "length (filter (\<lambda>t. 0 \<le> t \<and> t < 0 + int 1 * key_cooldown) (sy_attempts s)) \<le> 1"
    by (rule conjunct1 [OF key_requests_bounded [OF s(1)]])
  with s show ?thesis by (intro exI [of _ s]) auto
qed

theorem known_key_no_request_witness:
  "snd (verify_signature demo_ms ms_template ''token'' (demo_load 7) (demo_load 8) demo_keys) = demo_keys"
proof -
  have "keys_fresh (le_check (demo_load 7)) demo_keys" "jws_kids demo_jws = [''k1'']"
    "\<exists>key \<in> set (kc_keys demo_keys). jk_kid (mk_key key) = ''k1''"
    by (simp_all add: keys_fresh_def demo_load_def demo_keys_def key_lifetime_def demo_jws_def demo_jwk_def)
  from known_key_no_request [OF this(1) demo_fields(1) this(2,3)] show ?thesis
    by (simp split: option.split)
qed

definition demo_provider :: provider_cfg where
  "demo_provider = \<lparr>pv_name = ''microsoft'', pv_issuer = ms_origin @ ''/common/v2.0/'', pv_client = ''app'',
     pv_secret = ''secret'', pv_redirect = ''https://auth.acme.com/auth/callback/microsoft'', pv_scopes = []\<rparr>"

theorem discovery_pinned_witness:
  "\<exists>p. ms_new demo_ms (\<lambda>_. demo_doc) demo_provider = Inr (Some p) \<and> ''openid'' \<in> set (mp_scopes p) \<and>
     mv_organizations (mp_verifier p) = False"
proof -
  have "ms_authority (trim_suffix (pv_issuer demo_provider) ''/'') = Some ''common''"
    by (simp add: demo_provider_def ms_authority_def ms_origin_def trim_suffix_def has_suffix_def)
  then obtain p where p: "ms_new demo_ms (\<lambda>_. demo_doc) demo_provider = Inr (Some p)" "mv_organizations (mp_verifier p) = False"
    by (auto simp: ms_new_def fetch_json_def demo_doc_def demo_ms_def lib.defs ms_lib.defs max_document_def demo_provider_def)
  from discovery_pinned [OF p(1)] p show ?thesis by blast
qed

end
