(* ===== verification/Directory_Binding.thy ===== *)
theory Directory_Binding
  imports Microsoft_Oidc Resolver_Safety
begin

text \<open>
  From a Microsoft token to a membership: the provider of \<open>internal/loginproviders\<close> and the
  automatic enrollment of \<open>internal/resolver\<close> and \<open>internal/mtdb\<close> composed. Between them stand
  Aether's login handlers, which keep the token's claims in the session and hand them to
  \<open>Resolve\<close>; that they hand on the directory the token names is a hypothesis here.
\<close>

subsection \<open>The rule that admits\<close>

lemma evaluate_checks_rule:
  "fst (evaluate_checks checks claims) \<Longrightarrow> map_of checks k = Some rule \<Longrightarrow> satisfies rule (map_of claims k)"
  by (auto simp: evaluate_checks_entries dest: map_of_SomeD)

text \<open>A Microsoft account enrolls only under a rule that names its directory.\<close>

lemma auto_add_directory:
  assumes "auto_add_allowed L provider providers raw claims" "provider \<in> {''azure'', ''entra'', ''microsoft''}"
  obtains checks rule u tid where "raw = VMap checks" "map_of checks ''tid'' = Some rule"
    "map_of claims ''tid'' = Some (VStr tid)" "rule = VStr tid \<or> (\<exists>opts. rule = VList opts \<and> VStr tid \<in> set opts)"
    "uuid_parse L tid = Some u" "u \<noteq> nil_uuid" "u \<noteq> consumer_tenant"
proof -
  have p: "provider \<noteq> ''google''" using assms(2) by auto
  obtain checks key where c: "raw = VMap checks" "org_key L provider claims = Some key"
    "string_claim claims key \<noteq> []" "map_of checks key \<noteq> None"
    "fst (evaluate_tenant_checks provider checks claims False)"
    using assms(1) by (auto simp: auto_add_allowed_def split: goval.splits if_split_asm option.splits)
  from c(2) p have o: "key = ''tid''" "\<exists>u. uuid_parse L (string_claim claims ''tid'') = Some u \<and> u \<noteq> nil_uuid \<and> u \<noteq> consumer_tenant"
    by (auto simp: org_key_Some)
  obtain tid where tid: "map_of claims ''tid'' = Some (VStr tid)"
    using c(3) o(1) string_claim_nonempty by auto
  obtain rule where rule: "map_of checks ''tid'' = Some rule" using c(4) o(1) by auto
  have "fst (evaluate_checks checks claims)"
    using c(5) p by (auto simp: evaluate_tenant_checks_def split: option.splits)
  from evaluate_checks_rule [OF this rule] tid
  have "rule = VStr tid \<or> (\<exists>opts. rule = VList opts \<and> VStr tid \<in> set opts)" by (auto simp: satisfies_def)
  with c(1) rule tid o(2) string_claim_VStr [OF tid] show ?thesis by (auto intro: that)
qed

subsection \<open>Property\<close>

text \<open>What the login handlers promise: the session's claims name the directory of the token.\<close>

definition hands_on :: "'a ms_lib_scheme \<Rightarrow> string \<Rightarrow> claims \<Rightarrow> bool" where
  "hands_on A raw claims \<longleftrightarrow>
     (case jws_parse A raw of None \<Rightarrow> False
      | Some tok \<Rightarrow> (case claims_json A (jws_payload tok) of None \<Rightarrow> False
         | Some (iss, tid) \<Rightarrow> map_of claims ''tid'' = Some (VStr tid)))"


text \<open>A worked sign-in: a tenant whose rule lists the example directory.\<close>

definition directory_db :: mtdb where
  "directory_db = demo_db\<lparr>db_config := [\<lparr>cf_slug = ''acme'', cf_key = ''auth:auto_add'', cf_value = Some [chr 195]\<rparr>,
     \<lparr>cf_slug = ''acme'', cf_key = ''auth:checks:microsoft'',
      cf_value = small_encode (VMap [(''tid'', VList [VStr demo_tid])])\<rparr>]\<rparr>"

definition directory_input :: rinput where
  "directory_input = \<lparr>in_method = ''oauth'', in_id = [], in_type = ''User'',
     in_claims = [(''email'', VStr ''b@acme.com''), (''provider'', VStr ''microsoft''), (''tid'', VStr demo_tid)],
     in_tenant = None\<rparr>"

definition directory_login :: "rstate \<times> mtdb option \<times> (err + outcome)" where
  "directory_login = resolve demo_ms (demo_renv directory_db) directory_input (new_resolver 0 0)"

lemma directory_login_enrolls:
  "case directory_login of (_, Some d', _) \<Rightarrow> d' \<noteq> directory_db \<and> map us_email (db_users d') = [''b@acme.com'']
   | _ \<Rightarrow> False"
  by code_simp


end
