(* ===== verification/External_Redirect.thy ===== *)
theory External_Redirect
  imports Admin_Validation Mt_Store
begin

text \<open>
  \<open>internal/external/landing.go\<close>: the return URL of a sign-in. \<open>sanitizeRedirect\<close> is the
  allowlist, the return cookie carries a value it accepted through the OAuth round trip, signed
  when a key is configured, and \<open>handleLanding\<close> picks the destination.

  A request is its method, path, decoded query (pairs in order), headers and cookies. The
  session store's answer to a session ID is part of the environment. A redirect keeps the
  destination given to \<open>http.Redirect\<close>.
\<close>

subsection \<open>Configuration, requests, responses\<close>

record ext_lib = lib +
  hmac_sha256 :: "string \<Rightarrow> string \<Rightarrow> string"     \<comment> \<open>key, message\<close>
  b64_encode :: "string \<Rightarrow> string"                 \<comment> \<open>\<open>base64.RawURLEncoding\<close>\<close>
  b64_decode :: "string \<Rightarrow> string option"
  clean_path :: "string \<Rightarrow> string"                 \<comment> \<open>the path cleaning of \<open>http.ServeMux\<close>\<close>

record branding =
  br_name :: string
  br_logo :: string
  br_tagline :: string

record ext_opts =
  eo_source :: bool
  eo_target :: string
  eo_hosts :: "string list"
  eo_origins :: "string list"
  eo_key :: string
  eo_brand :: branding
  eo_default :: string
  eo_checkz :: "string list"
  eo_repo :: bool                    \<comment> \<open>\<open>Repo != nil\<close>\<close>

record cookie_cfg =
  cc_secure :: bool
  cc_same_site :: nat                \<comment> \<open>0 is unset, 2 is \<open>SameSiteLaxMode\<close>\<close>

record cookie =
  ck_name :: string
  ck_value :: string
  ck_path :: string
  ck_max_age :: int
  ck_secure :: bool
  ck_http_only :: bool
  ck_same_site :: nat

record session_data =
  sd_user :: string
  sd_email :: string

record ext_req =
  er_method :: string
  er_path :: string
  er_query :: "(string \<times> string) list"
  er_query_ok :: bool                \<comment> \<open>\<open>url.ParseQuery\<close> reports no error\<close>
  er_header :: "(string \<times> string) list"  \<comment> \<open>canonical keys\<close>
  er_session :: string               \<comment> \<open>\<open>login.ReadSession\<close>\<close>
  er_return :: "string option"       \<comment> \<open>the return cookie\<close>

record ext_env =
  ee_session :: "string \<Rightarrow> err + session_data option"
  ee_db :: mtdb
  ee_fault :: faults

text \<open>\<open>url.Values.Get\<close>\<close>

definition query_get :: "(string \<times> string) list \<Rightarrow> string \<Rightarrow> string" where
  "query_get q k = get_or [] q k"

text \<open>\<open>http.Header.Get\<close>\<close>

definition header_get :: "ext_req \<Rightarrow> string \<Rightarrow> string" where
  "header_get r k = get_or [] (er_header r) k"

definition first_non_empty :: "string \<Rightarrow> string \<Rightarrow> string" where
  "first_non_empty a b = (if a \<noteq> [] then a else b)"

subsection \<open>The allowlist\<close>

text \<open>\<open>url.URL.Hostname\<close>: the host without a valid port and without brackets.\<close>

definition valid_optional_port :: "string \<Rightarrow> bool" where
  "valid_optional_port p = (case p of [] \<Rightarrow> True | c # ds \<Rightarrow> c = CHR '':'' \<and> list_all is_digit ds)"

definition hostname :: "string \<Rightarrow> string" where
  "hostname host =
     (let h = (case last_index CHR '':'' host of
          None \<Rightarrow> host
        | Some i \<Rightarrow> if valid_optional_port (drop i host) then take i host else host) in
      if has_prefix h ''['' \<and> has_suffix h '']'' then butlast (tl h) else h)"

definition origin_matches :: "'a lib_scheme \<Rightarrow> url_parts \<Rightarrow> string \<Rightarrow> bool" where
  "origin_matches L u origin =
     (case url_parse L (trim_space origin) of
        None \<Rightarrow> False
      | Some a \<Rightarrow> \<not> up_user a \<and> up_query a = [] \<and> up_fragment a = [] \<and>
          (up_path a = [] \<or> up_path a = ''/'') \<and> up_scheme u = up_scheme a \<and>
          equal_fold L (up_host u) (up_host a))"

definition sanitize_redirect :: "'a lib_scheme \<Rightarrow> ext_opts \<Rightarrow> string \<Rightarrow> string option" where
  "sanitize_redirect L opts raw0 =
     (let raw = trim_space raw0 in
      if raw = [] then None
      else if has_prefix raw ''/'' then
        (if has_prefix raw ''//'' \<or> has_prefix raw [CHR ''/'', CHR 0x5C] then None else Some raw)
      else case url_parse L raw of
        None \<Rightarrow> None
      | Some u \<Rightarrow>
          if (up_scheme u \<noteq> ''http'' \<and> up_scheme u \<noteq> ''https'') \<or> up_user u then None
          else let host = to_lower L (hostname (up_host u)) in
          if host = [] then None
          else if eo_origins opts \<noteq> [] then
            (if \<exists>o' \<in> set (eo_origins opts). origin_matches L u o' then Some raw else None)
          else if \<exists>h \<in> set (eo_hosts opts). to_lower L (trim_space h) = host then Some raw else None)"

subsection \<open>The return cookie\<close>

definition return_cookie_name :: string where
  "return_cookie_name = ''scitrera_post_login_rd''"

definition same_site :: "cookie_cfg \<Rightarrow> nat" where
  "same_site c = (if cc_same_site c = 0 then 2 else cc_same_site c)"

definition sign_return_value :: "'a ext_lib_scheme \<Rightarrow> ext_opts \<Rightarrow> string \<Rightarrow> string" where
  "sign_return_value L opts v =
     (if eo_key opts = [] then v else v @ ''.'' @ b64_encode L (hmac_sha256 L (eo_key opts) v))"

definition verify_return_value :: "'a ext_lib_scheme \<Rightarrow> ext_opts \<Rightarrow> string \<Rightarrow> string option" where
  "verify_return_value L opts raw =
     (if eo_key opts = [] then Some raw
      else case last_index CHR ''.'' raw of
        None \<Rightarrow> None
      | Some i \<Rightarrow>
          (case b64_decode L (drop (i + 1) raw) of
             None \<Rightarrow> None
           | Some mac \<Rightarrow> if hmac_sha256 L (eo_key opts) (take i raw) = mac then Some (take i raw) else None))"

definition set_return_cookie :: "'a ext_lib_scheme \<Rightarrow> ext_opts \<Rightarrow> cookie_cfg \<Rightarrow> string \<Rightarrow> cookie" where
  "set_return_cookie L opts c v =
     \<lparr>ck_name = return_cookie_name, ck_value = sign_return_value L opts v, ck_path = ''/'', ck_max_age = 600,
      ck_secure = cc_secure c, ck_http_only = True, ck_same_site = same_site c\<rparr>"

definition clear_return_cookie :: "cookie_cfg \<Rightarrow> cookie" where
  "clear_return_cookie c =
     \<lparr>ck_name = return_cookie_name, ck_value = [], ck_path = ''/'', ck_max_age = -1,
      ck_secure = cc_secure c, ck_http_only = True, ck_same_site = same_site c\<rparr>"

definition read_return_cookie :: "'a ext_lib_scheme \<Rightarrow> ext_opts \<Rightarrow> ext_req \<Rightarrow> string" where
  "read_return_cookie L opts r =
     (case er_return r of None \<Rightarrow> []
      | Some v \<Rightarrow> (case verify_return_value L opts v of None \<Rightarrow> [] | Some x \<Rightarrow> x))"

subsection \<open>Lemmas\<close>

text \<open>A same-origin path: one slash, not two, and no backslash in second place.\<close>

definition local_path :: "string \<Rightarrow> bool" where
  "local_path x \<longleftrightarrow> (\<exists>rest. x = CHR ''/'' # rest \<and> (\<forall>c cs. rest = c # cs \<longrightarrow> c \<noteq> CHR ''/'' \<and> c \<noteq> CHR 0x5C))"

text \<open>An absolute URL of a configured origin, or host when no origins are configured.\<close>

definition allowed_url :: "'a lib_scheme \<Rightarrow> ext_opts \<Rightarrow> string \<Rightarrow> bool" where
  "allowed_url L opts x \<longleftrightarrow> (\<exists>u. url_parse L x = Some u \<and> up_scheme u \<in> {''http'', ''https''} \<and> \<not> up_user u \<and>
     hostname (up_host u) \<noteq> [] \<and>
     (if eo_origins opts \<noteq> [] then \<exists>o' \<in> set (eo_origins opts). origin_matches L u o'
      else \<exists>h \<in> set (eo_hosts opts). to_lower L (trim_space h) = to_lower L (hostname (up_host u))))"

lemma to_lower_Nil [simp]: "to_lower L [] = []"
  by (simp add: to_lower_def ascii_def)

lemma local_path_iff:
  "local_path x \<longleftrightarrow> has_prefix x ''/'' \<and> \<not> has_prefix x ''//'' \<and> \<not> has_prefix x [CHR ''/'', CHR 0x5C]"
  by (cases x; cases "tl x") (auto simp: local_path_def has_prefix_def)

lemma sanitize_redirect_Some:
  assumes "sanitize_redirect L opts raw = Some x"
  shows "x = trim_space raw \<and> (local_path x \<or> allowed_url L opts x)"
proof (cases "has_prefix (trim_space raw) ''/''")
  case True
  with assms show ?thesis
    unfolding sanitize_redirect_def Let_def local_path_iff by (simp split: if_split_asm)
next
  case False
  note r = assms [unfolded sanitize_redirect_def Let_def if_not_P [OF False]]
  show ?thesis
  proof (cases "url_parse L (trim_space raw)")
    case None
    with r show ?thesis by (simp split: if_split_asm)
  next
    case (Some u)
    note r = r [unfolded Some option.case]
    have ne: "trim_space raw \<noteq> []" using r by (rule contrapos_pn) simp
    note r = r [unfolded if_not_P [OF ne]]
    have g: "\<not> ((up_scheme u \<noteq> ''http'' \<and> up_scheme u \<noteq> ''https'') \<or> up_user u)"
      by (rule notI) (use r in \<open>simp only: if_True option.distinct\<close>)
    note r = r [unfolded if_not_P [OF g]]
    have h: "to_lower L (hostname (up_host u)) \<noteq> []"
      by (rule notI) (use r in \<open>simp only: if_True option.distinct refl\<close>)
    note r = r [unfolded if_not_P [OF h]]
    have m: "(if eo_origins opts \<noteq> [] then \<exists>o' \<in> set (eo_origins opts). origin_matches L u o'
      else \<exists>h \<in> set (eo_hosts opts). to_lower L (trim_space h) = to_lower L (hostname (up_host u))) \<and>
      x = trim_space raw"
      using r by (simp only: split: if_split_asm) simp_all
    have "hostname (up_host u) \<noteq> []" using h to_lower_Nil by metis
    with g m Some have "allowed_url L opts x" unfolding allowed_url_def by blast
    with m show ?thesis by blast
  qed
qed

lemma sanitize_redirect_again:
  assumes "sanitize_redirect L opts raw = Some x"
  shows "sanitize_redirect L opts x = Some x"
  using assms sanitize_redirect_Some [OF assms]
  by (simp add: sanitize_redirect_def trim_space_idem)

lemma verify_sign:
  assumes "\<And>m. b64_decode L (b64_encode L m) = Some m" "\<And>m. CHR ''.'' \<notin> set (b64_encode L m)"
  shows "verify_return_value L opts (sign_return_value L opts v) = Some v"
  using assms(1) last_index_append_cons [OF assms(2)]
  by (simp add: verify_return_value_def sign_return_value_def)

lemma verify_authentic:
  assumes "verify_return_value L opts raw = Some v" "eo_key opts \<noteq> []"
  shows "\<exists>tag. raw = v @ ''.'' @ tag \<and> b64_decode L tag = Some (hmac_sha256 L (eo_key opts) v)"
proof -
  note r = assms(1) [unfolded verify_return_value_def if_not_P [OF assms(2)]]
  from r obtain i where i1: "last_index CHR ''.'' raw = Some i" by (cases "last_index CHR ''.'' raw") simp_all
  note r = r [unfolded i1 option.case]
  from r obtain mac where m: "b64_decode L (drop (i + 1) raw) = Some mac"
    by (cases "b64_decode L (drop (i + 1) raw)") simp_all
  from r have "hmac_sha256 L (eo_key opts) (take i raw) = mac" "take i raw = v"
    unfolding m option.case by (simp_all split: if_split_asm)
  with i1 m have i: "last_index CHR ''.'' raw = Some i" "v = take i raw"
    "b64_decode L (drop (i + 1) raw) = Some (hmac_sha256 L (eo_key opts) v)" by simp_all
  have "i < length raw" "raw ! i = CHR ''.''" using last_index_Some [OF i(1)] by blast+
  then have "raw = take i raw @ ''.'' @ drop (i + 1) raw"
    using id_take_nth_drop [of i raw] by simp
  with i(2,3) show ?thesis by metis
qed

end
