(* ===== verification/Admin_Setup.thy ===== *)
theory Admin_Setup
  imports Admin_Guarantees External_Redirect "HOL-Library.Word"
begin

unbundle bit_operations_syntax

text \<open>
  Construction of the operator API: \<open>Bootstrap\<close> and \<open>loadCredentials\<close> in
  \<open>internal/admin/session.go\<close>, \<open>New\<close> in \<open>server.go\<close>. The file system is a partial function
  from paths to files; permissions are the mode bits, kept at their width
  (\<open>0600\<close> is \<open>0x180\<close>, \<open>0077\<close> is \<open>0x3F\<close>).
\<close>

subsection \<open>Operator credentials\<close>

record setup_lib = admin_lib +
  json_credentials :: "string \<Rightarrow> (string, string) gomap json_read"
  show_credentials :: "(string, string) gomap \<Rightarrow> string"   \<comment> \<open>\<open>json.MarshalIndent\<close> of \<open>Credentials\<close>\<close>
  b64url_decode :: "string \<Rightarrow> string option"
  loopback_ip :: "string \<Rightarrow> bool"                          \<comment> \<open>\<open>net.ParseIP\<close> then \<open>IsLoopback\<close>\<close>

record file_node =
  fi_regular :: bool
  fi_perm :: "32 word"
  fi_data :: string

type_synonym fs = "string \<rightharpoonup> file_node"

text \<open>\<open>^[a-zA-Z0-9][a-zA-Z0-9_.-]{0,63}$\<close>\<close>

definition operator_re :: "string \<Rightarrow> bool" where
  "operator_re s = (s \<noteq> [] \<and> length s \<le> 64 \<and> (ascii_alpha (hd s) \<or> lower_alnum (hd s)) \<and>
     list_all (\<lambda>c. ascii_alpha c \<or> lower_alnum c \<or> c \<in> set ''_.-'') (tl s))"

text \<open>\<open>token\<close> is the fresh random token; \<open>O_EXCL\<close> fails on any existing file.\<close>

definition bootstrap :: "'a setup_lib_scheme \<Rightarrow> string \<Rightarrow> string \<Rightarrow> string \<Rightarrow> fs \<Rightarrow> err + fs" where
  "bootstrap A token path operator fs =
     (if path = [] \<or> \<not> operator_re operator then Inl (ErrOther ''token-file and valid operator name are required'')
      else if fs path \<noteq> None then Inl (ErrOther ''file exists'')
      else Inr (fs(path \<mapsto> \<lparr>fi_regular = True, fi_perm = 0x180,
             fi_data = show_credentials A [(operator, token)] @ [CHR 0x0A]\<rparr>)))"

definition token_ok :: "'a setup_lib_scheme \<Rightarrow> string \<Rightarrow> bool" where
  "token_ok A token = (case b64url_decode A token of None \<Rightarrow> False | Some raw \<Rightarrow> 32 \<le> length raw)"

text \<open>\<open>same\<close> is whether the opened file is the one that was examined.\<close>

definition load_credentials :: "'a setup_lib_scheme \<Rightarrow> bool \<Rightarrow> fs \<Rightarrow> string \<Rightarrow> err + (string, string) gomap" where
  "load_credentials A same fs path =
     (case fs path of
        None \<Rightarrow> Inl (ErrOther ''operator token file required'')
      | Some f \<Rightarrow>
      if \<not> fi_regular f \<or> fi_perm f AND 0x3F \<noteq> 0 \<or> 65536 < length (fi_data f)
      then Inl (ErrOther ''operator token file must be regular, at most 64KiB, and private'')
      else if \<not> same then Inl (ErrOther ''operator token file changed during read'')
      else case json_credentials A (take 65537 (fi_data f)) of
        JBad \<Rightarrow> Inl (ErrOther ''invalid operator credentials file'')
      | JShort \<Rightarrow> Inl (ErrOther ''invalid operator credentials file'')
      | JValue ops rest \<Rightarrow>
          if \<not> json_blank rest then Inl (ErrOther ''invalid operator credentials file'')
          else if ops = [] \<or> 100 < length ops then Inl (ErrOther ''configure 1-100 named operators'')
          else if \<exists>(name, token) \<in> set ops. \<not> operator_re name \<or> \<not> token_ok A token
          then Inl (ErrOther ''operator tokens must contain at least 32 random bytes, base64url encoded'')
          else Inr (map (\<lambda>(name, token). (name, sha256 A token)) ops))"

subsection \<open>The server's configuration\<close>

definition valid_origin :: "string \<Rightarrow> bool" where
  "valid_origin s = (s \<noteq> [] \<and> \<not> has_suffix s ''/'')"

record admin_opts =
  op_db :: bool                       \<comment> \<open>\<open>DB != nil\<close>\<close>
  op_addr :: string
  op_origin :: string
  op_token_file :: string
  op_ttl :: int
  op_ui :: bool
  op_store :: "string option"
  op_manager :: bool

definition minute :: int where "minute = 60 * 1000000000"
definition hour :: int where "hour = 60 * minute"

definition admin_new :: "'a setup_lib_scheme \<Rightarrow> bool \<Rightarrow> fs \<Rightarrow> admin_opts \<Rightarrow> err + admin_cfg" where
  "admin_new A same fs o' =
     (if \<not> op_db o' \<or> op_addr o' = [] then Inl (ErrOther ''admin requires a database and listen address'')
      else case url_parse A (op_origin o') of
        None \<Rightarrow> Inl (ErrOther ''SCITRERA_AUTH_ADMIN_ORIGIN'')
      | Some u \<Rightarrow>
      if \<not> valid_origin (op_origin o') \<or> up_host u = [] \<or> up_user u \<or> up_path u \<noteq> [] \<or> up_query u \<noteq> [] \<or>
         up_fragment u \<noteq> [] \<or> (up_scheme u \<noteq> ''http'' \<and> up_scheme u \<noteq> ''https'')
      then Inl (ErrOther ''SCITRERA_AUTH_ADMIN_ORIGIN'')
      else let secure = (up_scheme u = ''https'') in
      if \<not> secure \<and> hostname (up_host u) \<noteq> ''localhost'' \<and> \<not> loopback_ip A (hostname (up_host u))
      then Inl (ErrOther ''HTTP admin origin is only supported on localhost/loopback'')
      else andthen (load_credentials A same fs (op_token_file o')) (\<lambda>ops.
      let ttl0 = (if op_ttl o' = 0 then 8 * hour else op_ttl o') in
      if ttl0 < minute \<or> 24 * hour < ttl0 then Inl (ErrOther ''admin session TTL must be between 1m and 24h'')
      else Inr \<lparr>ac_origin = op_origin o', ac_host = up_host u, ac_secure = secure, ac_ttl = ttl0,
             ac_operators = ops, ac_ui = op_ui o', ac_store = op_store o', ac_manager = op_manager o'\<rparr>))"

subsection \<open>Properties\<close>

lemma load_credentials_Inr:
  assumes "load_credentials A same fs path = Inr ops"
  shows "same \<and> (\<exists>f plain. fs path = Some f \<and> fi_regular f \<and> fi_perm f AND 0x3F = 0 \<and> length (fi_data f) \<le> 65536 \<and>
     ops = map (\<lambda>(name, token). (name, sha256 A token)) plain \<and> plain \<noteq> [] \<and> length plain \<le> 100 \<and>
     (\<forall>(name, token) \<in> set plain. operator_re name \<and> token_ok A token))"
  using assms unfolding load_credentials_def
  by (auto split: option.splits if_split_asm json_read.splits)

text \<open>A server that starts is safely configured: its origin is HTTPS or loopback, sessions last
  between a minute and a day, and every operator credential is the hash of a token of at least 32
  decoded bytes from a regular file that only its owner can access.\<close>

theorem admin_configuration_safe:
  assumes "admin_new A same fs o' = Inr cfg"
  shows "(\<exists>u. url_parse A (op_origin o') = Some u \<and> ac_host cfg = up_host u \<and> up_host u \<noteq> [] \<and> \<not> up_user u \<and>
       ac_secure cfg = (up_scheme u = ''https'') \<and>
       (ac_secure cfg \<or> hostname (up_host u) = ''localhost'' \<or> loopback_ip A (hostname (up_host u)))) \<and>
    ac_origin cfg = op_origin o' \<and> minute \<le> ac_ttl cfg \<and> ac_ttl cfg \<le> 24 * hour \<and>
    ac_operators cfg \<noteq> [] \<and>
    (\<forall>name credential. map_of (ac_operators cfg) name = Some credential \<longrightarrow>
       operator_re name \<and> (\<exists>token. token_ok A token \<and> credential = sha256 A token)) \<and>
    (\<exists>f. fs (op_token_file o') = Some f \<and> fi_regular f \<and> fi_perm f AND 0x3F = 0)"
proof -
  obtain u where u: "url_parse A (op_origin o') = Some u"
    using assms by (cases "url_parse A (op_origin o')") (auto simp: admin_new_def split: if_split_asm)
  note n = assms [unfolded admin_new_def u option.case Let_def]
  obtain ops where ops: "load_credentials A same fs (op_token_file o') = Inr ops"
    using n by (cases "load_credentials A same fs (op_token_file o')") (simp_all split: if_split_asm)
  note n = n [unfolded ops andthen_simps]
  note l = load_credentials_Inr [OF ops]
  then have m: "operator_re name \<and> (\<exists>token. token_ok A token \<and> credential = sha256 A token)"
    if "map_of ops name = Some credential" for name credential
    using map_of_SomeD [OF that] by (fastforce split: prod.splits)
  show ?thesis
    using n u l m by (simp split: if_split_asm) auto
qed

lemma bootstrap_Inr:
  assumes "bootstrap A token path operator fs = Inr fs'"
  shows "operator_re operator \<and> fs path = None \<and> fs' = fs(path \<mapsto> \<lparr>fi_regular = True, fi_perm = 0x180,
    fi_data = show_credentials A [(operator, token)] @ [CHR 0x0A]\<rparr>)"
  using assms by (auto simp: bootstrap_def split: if_split_asm)

lemma bootstrap_loads:
  assumes "bootstrap A token path operator fs = Inr fs'"
    and "\<And>rest. json_blank rest \<Longrightarrow>
      json_credentials A (show_credentials A [(operator, token)] @ rest) = JValue [(operator, token)] rest"
    and "token_ok A token" "length (show_credentials A [(operator, token)]) < 65536"
  shows "load_credentials A True fs' path = Inr [(operator, sha256 A token)]"
proof -
  note b = bootstrap_Inr [OF assms(1)]
  have nl: "json_blank [CHR 0x0A]" by (simp add: json_blank_def byte_def)
  have p: "(0x180 :: 32 word) AND 0x3F = 0" by simp
  have f: "fs' path = Some \<lparr>fi_regular = True, fi_perm = 0x180,
    fi_data = show_credentials A [(operator, token)] @ [CHR 0x0A]\<rparr>" using b by simp
  show ?thesis
    using b assms(3,4) p unfolding load_credentials_def f option.case
    by (simp add: assms(2) [OF nl] nl del: take_append take_all_iff)
qed

text \<open>Bootstrap round trip: it never touches an existing file, what it writes is private, and
  a server started on that file knows exactly that operator under the hash of the new token.\<close>

theorem bootstrap_roundtrip:
  assumes "bootstrap A token path operator fs = Inr fs'"
    and "\<And>rest. json_blank rest \<Longrightarrow>
      json_credentials A (show_credentials A [(operator, token)] @ rest) = JValue [(operator, token)] rest"
    and "token_ok A token" "length (show_credentials A [(operator, token)]) < 65536"
  shows "fs path = None \<and> (\<forall>p. p \<noteq> path \<longrightarrow> fs' p = fs p) \<and>
    (\<exists>f. fs' path = Some f \<and> fi_perm f AND 0x3F = 0) \<and>
    load_credentials A True fs' path = Inr [(operator, sha256 A token)]"
  using bootstrap_Inr [OF assms(1)] bootstrap_loads [OF assms] by simp

subsection \<open>Witnesses\<close>

definition demo_token :: string where
  "demo_token = replicate 43 (CHR ''A'')"

definition demo_setup :: setup_lib where
  "demo_setup = admin_lib.extend (demo_admin\<lparr>url_parse := \<lambda>_. Some \<lparr>up_scheme = ''https'', up_host = ''ops.acme.com'',
      up_user = False, up_path = [], up_query = [], up_fragment = []\<rparr>\<rparr>)
    (setup_lib.fields
      (\<lambda>s. JValue [(takeWhile (\<lambda>c. c \<noteq> CHR ''='') s,
            takeWhile (\<lambda>c. \<not> json_blank [c]) (tl (dropWhile (\<lambda>c. c \<noteq> CHR ''='') s)))]
         (dropWhile (\<lambda>c. \<not> json_blank [c]) s))
      (\<lambda>m. concat (map (\<lambda>(name, token). name @ ''='' @ token) m))
      (\<lambda>s. Some s) (\<lambda>_. False))"

lemma demo_credentials:
  assumes "json_blank rest"
  shows "json_credentials demo_setup (show_credentials demo_setup [(''alice'', demo_token)] @ rest) =
    JValue [(''alice'', demo_token)] rest"
  using assms
  by (cases rest) (simp_all add: demo_setup_def demo_token_def json_blank_def byte_def numeral_eq_Suc
      admin_lib.defs setup_lib.defs)

definition demo_file :: fs where
  "demo_file = [''/run/admin-tokens'' \<mapsto> \<lparr>fi_regular = True, fi_perm = 0x180,
     fi_data = show_credentials demo_setup [(''alice'', demo_token)] @ [CHR 0x0A]\<rparr>]"

definition demo_opts :: admin_opts where
  "demo_opts = \<lparr>op_db = True, op_addr = '':9443'', op_origin = ''https://ops.acme.com'',
     op_token_file = ''/run/admin-tokens'', op_ttl = 0, op_ui = True, op_store = None, op_manager = False\<rparr>"

lemma demo_bootstrap:
  "bootstrap demo_setup demo_token ''/run/admin-tokens'' ''alice'' Map.empty = Inr demo_file"
  by (simp add: bootstrap_def demo_file_def operator_re_def ascii_alpha_def lower_alnum_def byte_def)

lemma demo_token_ok: "token_ok demo_setup demo_token"
  by (simp add: token_ok_def demo_setup_def demo_token_def admin_lib.defs setup_lib.defs)

lemma demo_length: "length (show_credentials demo_setup [(''alice'', demo_token)]) < 65536"
  by (simp add: demo_setup_def demo_token_def admin_lib.defs setup_lib.defs)

theorem bootstrap_roundtrip_witness:
  "load_credentials demo_setup True demo_file ''/run/admin-tokens'' = Inr [(''alice'', sha256 demo_setup demo_token)]"
  using bootstrap_roundtrip [OF demo_bootstrap demo_credentials demo_token_ok demo_length] by simp

lemma demo_url: "url_parse demo_setup s = Some \<lparr>up_scheme = ''https'', up_host = ''ops.acme.com'',
    up_user = False, up_path = [], up_query = [], up_fragment = []\<rparr>"
  by (simp add: demo_setup_def admin_lib.defs setup_lib.defs)

lemmas demo_loaded = bootstrap_loads [OF demo_bootstrap demo_credentials demo_token_ok demo_length]

lemma demo_starts:
  "admin_new demo_setup True demo_file demo_opts = Inr \<lparr>ac_origin = ''https://ops.acme.com'',
     ac_host = ''ops.acme.com'', ac_secure = True, ac_ttl = 8 * hour,
     ac_operators = [(''alice'', sha256 demo_setup demo_token)], ac_ui = True, ac_store = None, ac_manager = False\<rparr>"
  by (simp add: admin_new_def demo_opts_def demo_url demo_loaded valid_origin_def has_suffix_def minute_def hour_def)

theorem admin_configuration_safe_witness:
  "\<exists>cfg. admin_new demo_setup True demo_file demo_opts = Inr cfg \<and> ac_secure cfg \<and>
     minute \<le> ac_ttl cfg \<and> (\<exists>f. demo_file ''/run/admin-tokens'' = Some f \<and> fi_perm f AND 0x3F = 0)"
  using admin_configuration_safe [OF demo_starts] demo_starts by (simp add: demo_opts_def) blast

end
