(* ===== verification/Schema.thy ===== *)
theory Schema
  imports Mt_Store
begin

text \<open>
  \<open>internal/mtdb/schema.go\<close>: the contract on the database schema, \<open>Migrate\<close> and
  \<open>VerifySchema\<close>, over the part of PostgreSQL's catalog they read, with the embedded scripts of
  \<open>migrations/\<close> as functions on that catalog. A transaction that fails leaves the catalog as it
  was, so a failed \<open>Migrate\<close> is just its error.
\<close>

subsection \<open>The catalog\<close>

record column =
  co_type :: string                    \<comment> \<open>\<open>udt_name\<close>\<close>
  co_nullable :: bool
  co_default :: bool                   \<comment> \<open>\<open>column_default IS NOT NULL\<close>\<close>

type_synonym table = "(string \<times> column) list"

text \<open>
  \<open>ct_unique\<close> holds the valid unconditional unique indexes on plain columns, with their columns
  joined by commas; \<open>ct_indexes\<close> the named indexes of the scripts with whether they are valid
  and unique; \<open>ct_triggers\<close> table, name and whether it is the enabled revision trigger;
  \<open>ct_fks\<close> ends with the delete action. \<open>ct_dups\<close> names the normalized indexes whose
  expression has duplicates in the stored rows.
\<close>

record catalog =
  ct_public :: "(string, table) gomap"
  ct_unique :: "(string \<times> string) list"
  ct_fks :: "(string \<times> string \<times> string \<times> string \<times> string) list"
  ct_indexes :: "(string \<times> bool) list"
  ct_functions :: "string list"
  ct_triggers :: "(string \<times> string \<times> bool) list"
  ct_ledger :: "int list"
  ct_singletons :: nat
  ct_dups :: "string list"
  ct_proxy :: "(string, string list) gomap"
  ct_proxy_ledger :: "int list"
  ct_rules :: "(string \<times> string \<times> string \<times> string \<times> int) list"
  ct_policies :: "(string \<times> int) list"

definition max_version :: "int list \<Rightarrow> int" where
  "max_version vs = (if vs = [] then 0 else Max (set vs))"

subsection \<open>The contract\<close>

definition mt_tables :: "string list" where
  "mt_tables = [''tenants'', ''users'', ''user_tenants'', ''tenant_domains'', ''tenant_config'']"

definition stamps :: "(string \<times> string) list" where
  "stamps = [(''created_at'', ''timestamptz''), (''updated_at'', ''timestamptz'')]"

definition contract :: "(string \<times> (string \<times> string) list) list" where
  "contract =
     [(''tenants'', [(''id'', ''uuid''), (''slug'', ''text''), (''name'', ''text''), (''enabled'', ''bool''),
        (''metadata'', ''jsonb'')] @ stamps),
      (''users'', [(''id'', ''uuid''), (''email'', ''text''), (''name'', ''text''), (''enabled'', ''bool''),
        (''metadata'', ''jsonb''), (''default_tenant_slug'', ''text'')] @ stamps),
      (''user_tenants'', [(''user_id'', ''uuid''), (''tenant_id'', ''uuid''), (''created_at'', ''timestamptz'')]),
      (''tenant_domains'', [(''id'', ''uuid''), (''tenant_slug'', ''text''), (''domain'', ''text'')] @ stamps),
      (''tenant_config'', [(''tenant_slug'', ''text''), (''key'', ''text''), (''value'', ''bytea'')] @ stamps)]"

definition unique_keys :: "(string \<times> string list) list" where
  "unique_keys = [(''tenants'', [''id'', ''slug'']), (''users'', [''id'', ''email'']),
     (''user_tenants'', [''user_id,tenant_id'']), (''tenant_domains'', [''id'', ''domain'']),
     (''tenant_config'', [''tenant_slug,key''])]"

definition foreign_keys :: "(string \<times> string \<times> string \<times> string) list" where
  "foreign_keys = [(''users'', ''default_tenant_slug'', ''tenants'', ''slug''),
     (''user_tenants'', ''user_id'', ''users'', ''id''), (''user_tenants'', ''tenant_id'', ''tenants'', ''id''),
     (''tenant_domains'', ''tenant_slug'', ''tenants'', ''slug''), (''tenant_config'', ''tenant_slug'', ''tenants'', ''slug'')]"

definition find_column :: "catalog \<Rightarrow> string \<Rightarrow> string \<Rightarrow> column option" where
  "find_column c t col = (case map_of (ct_public c) t of None \<Rightarrow> None | Some cols \<Rightarrow> map_of cols col)"

definition check_column :: "faults \<Rightarrow> catalog \<Rightarrow> string \<Rightarrow> string \<times> string \<Rightarrow> err + unit" where
  "check_column flt c t = (\<lambda>(col, typ).
     case (if flt (''column:'' @ t @ ''.'' @ col) \<noteq> None then None else find_column c t col) of
       None \<Rightarrow> Inl (ErrOther (''incompatible auth schema: '' @ t @ ''.'' @ col))
     | Some got \<Rightarrow>
         if co_type got \<noteq> typ then Inl (ErrOther (''incompatible auth schema: '' @ t @ ''.'' @ col))
         else if (col = ''id'' \<or> col = ''created_at'' \<or> col = ''updated_at'') \<and> \<not> co_default got
         then Inl (ErrOther (t @ ''.'' @ col @ '' requires a default''))
         else if \<not> (col = ''metadata'' \<or> col = ''default_tenant_slug'' \<or> col = ''value'') \<and> co_nullable got
         then Inl (ErrOther (t @ ''.'' @ col @ '' must be NOT NULL''))
         else Inr ())"

text \<open>A loop that stops at the first error. Go visits its maps in no fixed order.\<close>

fun each :: "('a \<Rightarrow> 'e + unit) \<Rightarrow> 'a list \<Rightarrow> 'e + unit" where
  "each f [] = Inr ()"
| "each f (x # xs) = andthen (f x) (\<lambda>_. each f xs)"

definition passes :: "faults \<Rightarrow> string \<Rightarrow> bool \<Rightarrow> err + unit" where
  "passes flt what ok = guard_err (flt what \<noteq> None \<or> \<not> ok) (ErrOther (''incompatible auth schema: '' @ what))"

definition check_mt :: "faults \<Rightarrow> catalog \<Rightarrow> err + unit" where
  "check_mt flt c =
     andthen (each (\<lambda>(t, cols). each (check_column flt c t) cols) contract) (\<lambda>_.
     andthen (each (\<lambda>(t, keys). each (\<lambda>key. passes flt (''unique:'' @ t @ ''.'' @ key) ((t, key) \<in> set (ct_unique c))) keys)
       unique_keys) (\<lambda>_.
     each (\<lambda>(t, col, rt, rcol). passes flt (''fk:'' @ t @ ''.'' @ col)
       ((t, col, rt, rcol, if col = ''default_tenant_slug'' then ''n'' else ''c'') \<in> set (ct_fks c))) foreign_keys))"

definition has_columns :: "catalog \<Rightarrow> string \<times> string list \<Rightarrow> bool" where
  "has_columns c = (\<lambda>(t, cols). map_of (ct_public c) t \<noteq> None \<and> list_all (\<lambda>col. find_column c t col \<noteq> None) cols)"

definition admin_tables :: "(string \<times> string list) list" where
  "admin_tables = [(''auth_admin_state'', [''singleton'', ''revision'']),
     (''auth_admin_sessions'', [''token_hash'', ''operator'', ''credential_hash'', ''csrf_hash'', ''expires_at'', ''created_at'']),
     (''auth_admin_audit'', [''id'', ''operator'', ''action'', ''resource'', ''fields'', ''revision'', ''created_at''])]"

definition normalized_indexes :: "string list" where
  "normalized_indexes = [''auth_admin_users_email_normalized'', ''auth_admin_domains_normalized'', ''auth_admin_slugs_normalized'']"

definition check_schema :: "faults \<Rightarrow> catalog \<Rightarrow> err + unit" where
  "check_schema flt c =
     andthen (check_mt flt c) (\<lambda>_.
     andthen (passes flt ''version'' (has_columns c (''auth_admin_migrations'', [''version'']) \<and>
       max_version (ct_ledger c) = 2 \<and> length (ct_ledger c) = 2)) (\<lambda>_.
     andthen (passes flt ''auth_checks'' (case find_column c ''user_tenants'' ''auth_checks'' of
       None \<Rightarrow> False | Some col \<Rightarrow> co_type col = ''jsonb'' \<and> \<not> co_nullable col)) (\<lambda>_.
     andthen (each (\<lambda>tc. passes flt (''table:'' @ fst tc) (has_columns c tc)) admin_tables) (\<lambda>_.
     andthen (passes flt ''singleton'' (ct_singletons c = 1)) (\<lambda>_.
     andthen (each (\<lambda>t. passes flt (''trigger:'' @ t) ((t, ''auth_admin_revision'', True) \<in> set (ct_triggers c)))
       (map fst contract)) (\<lambda>_.
     each (\<lambda>i. passes flt (''index:'' @ i) ((i, True) \<in> set (ct_indexes c))) normalized_indexes))))))"

definition proxy_tables :: "(string \<times> string list) list" where
  "proxy_tables =
     [(''acl_rules'', [''rule_id'', ''principal_type'', ''principal_id'', ''resource_type'', ''resource_id'', ''access_level'',
         ''expires_at'']),
      (''acl_fallback_policies'', [''rule_category'', ''fallback_access_level'']),
      (''api_tokens'', [''id'', ''token_hash'', ''name'', ''principal_type'', ''workspace_patterns'', ''scopes'',
         ''created_by'', ''expires_at'', ''last_used_at'', ''revoked'', ''revoked_at'', ''created_at'',
         ''updated_at'']),
      (''acl_groups'', [''group_id'', ''group_name'']),
      (''acl_roles'', [''role_id'', ''role_name'']),
      (''acl_group_members'', [''group_id'', ''member_type'', ''member_id'', ''expires_at'']),
      (''acl_role_assignments'', [''role_id'', ''assignee_type'', ''assignee_id'', ''expires_at'']),
      (''acl_authority_grants'', [''grant_id'', ''root_grant_id'', ''subject_type'', ''subject_id'', ''delegate_type'', ''delegate_id'',
         ''issued_by_type'', ''issued_by_id'', ''root_subject_type'', ''root_subject_id'', ''parent_grant_id'',
         ''may_delegate'', ''remaining_hops'', ''workspace_scope'', ''resource_scope'', ''operation_scope'',
         ''max_access_level'', ''audience_type'', ''audience_id'', ''valid_while_audience_active'',
         ''expires_at'', ''renewable_until'', ''renewed_at'', ''revoked'', ''revoked_at'', ''reason'',
         ''metadata'', ''created_at''])]"

definition check_proxy :: "faults \<Rightarrow> catalog \<Rightarrow> err + unit" where
  "check_proxy flt c =
     andthen (passes flt ''proxy version'' (map_of (ct_proxy c) ''schema_version'' \<noteq> None \<and>
       max_version (ct_proxy_ledger c) = 1 \<and> length (ct_proxy_ledger c) = 1)) (\<lambda>_.
     each (\<lambda>(t, cols). passes flt (''proxy:'' @ t) (case map_of (ct_proxy c) t of
       None \<Rightarrow> False | Some have \<Rightarrow> list_all (\<lambda>col. col \<in> set have) cols)) proxy_tables)"

definition verify_schema :: "faults \<Rightarrow> catalog \<Rightarrow> err + unit" where
  "verify_schema flt c = andthen (check_schema flt c) (\<lambda>_. check_proxy flt c)"

subsection \<open>The scripts\<close>

definition relation_exists :: "catalog \<Rightarrow> string \<Rightarrow> bool" where
  "relation_exists c name = (map_of (ct_public c) name \<noteq> None \<or> map_of (ct_indexes c) name \<noteq> None)"

definition add_table ::
  "string \<Rightarrow> table \<Rightarrow> string list \<Rightarrow> (string \<times> string \<times> string \<times> string) list \<Rightarrow> catalog \<Rightarrow> catalog" where
  "add_table t cols keys refs c = c\<lparr>ct_public := ct_public c @ [(t, cols)],
     ct_unique := ct_unique c @ map (\<lambda>k. (t, k)) keys,
     ct_fks := ct_fks c @ map (\<lambda>(col, rt, rcol, act). (t, col, rt, rcol, act)) refs\<rparr>"

text \<open>\<open>CREATE TABLE IF NOT EXISTS\<close> and \<open>CREATE TABLE\<close>\<close>

definition ensure_table ::
  "string \<Rightarrow> table \<Rightarrow> string list \<Rightarrow> (string \<times> string \<times> string \<times> string) list \<Rightarrow> catalog \<Rightarrow> catalog" where
  "ensure_table t cols keys refs c = (if relation_exists c t then c else add_table t cols keys refs c)"

definition create_table :: "string \<Rightarrow> table \<Rightarrow> string list \<Rightarrow> catalog \<Rightarrow> err + catalog" where
  "create_table t cols keys c = (if relation_exists c t then Inl (ErrPq ''42P07'') else Inr (add_table t cols keys [] c))"

definition create_index :: "bool \<Rightarrow> string \<Rightarrow> catalog \<Rightarrow> err + catalog" where
  "create_index uniq i c = (if relation_exists c i then Inl (ErrPq ''42P07'')
     else if uniq \<and> i \<in> set (ct_dups c) then Inl (ErrPq ''23505'')
     else Inr (c\<lparr>ct_indexes := ct_indexes c @ [(i, uniq)]\<rparr>))"

definition create_function :: "string \<Rightarrow> catalog \<Rightarrow> err + catalog" where
  "create_function f c = (if f \<in> set (ct_functions c) then Inl (ErrPq ''42723'')
     else Inr (c\<lparr>ct_functions := ct_functions c @ [f]\<rparr>))"

definition create_trigger :: "string \<Rightarrow> bool \<Rightarrow> string \<Rightarrow> catalog \<Rightarrow> err + catalog" where
  "create_trigger g rev_trigger t c =
     (if map_of (ct_public c) t = None then Inl (ErrPq ''42P01'')
      else if \<exists>(t', g', b) \<in> set (ct_triggers c). t' = t \<and> g' = g then Inl (ErrPq ''42710'')
      else Inr (c\<lparr>ct_triggers := ct_triggers c @ [(t, g, rev_trigger)]\<rparr>))"

fun run_each :: "('a \<Rightarrow> 's \<Rightarrow> 'e + 's) \<Rightarrow> 'a list \<Rightarrow> 's \<Rightarrow> 'e + 's" where
  "run_each f [] s = Inr s"
| "run_each f (x # xs) s = andthen (f x s) (run_each f xs)"

definition required :: "string \<Rightarrow> string \<Rightarrow> string \<times> column" where
  "required n typ = (n, \<lparr>co_type = typ, co_nullable = False, co_default = False\<rparr>)"

definition defaulted :: "string \<Rightarrow> string \<Rightarrow> string \<times> column" where
  "defaulted n typ = (n, \<lparr>co_type = typ, co_nullable = False, co_default = True\<rparr>)"

definition nullable :: "string \<Rightarrow> string \<Rightarrow> string \<times> column" where
  "nullable n typ = (n, \<lparr>co_type = typ, co_nullable = True, co_default = False\<rparr>)"

definition both_stamps :: table where
  "both_stamps = [defaulted ''created_at'' ''timestamptz'', defaulted ''updated_at'' ''timestamptz'']"

definition registry_tables :: "catalog \<Rightarrow> catalog" where
  "registry_tables c0 =
     (let c1 = ensure_table ''tenants'' ([defaulted ''id'' ''uuid'', required ''slug'' ''text'', required ''name'' ''text'',
            nullable ''metadata'' ''jsonb'', defaulted ''enabled'' ''bool''] @ both_stamps) [''id'', ''slug''] [] c0;
          c2 = ensure_table ''users'' ([defaulted ''id'' ''uuid'', required ''email'' ''text'', required ''name'' ''text'',
            nullable ''metadata'' ''jsonb'', defaulted ''enabled'' ''bool'', nullable ''default_tenant_slug'' ''text''] @ both_stamps)
            [''id'', ''email''] [(''default_tenant_slug'', ''tenants'', ''slug'', ''n'')] c1;
          c3 = ensure_table ''user_tenants'' [required ''user_id'' ''uuid'', required ''tenant_id'' ''uuid'',
            defaulted ''created_at'' ''timestamptz''] [''user_id,tenant_id'']
            [(''user_id'', ''users'', ''id'', ''c''), (''tenant_id'', ''tenants'', ''id'', ''c'')] c2;
          c4 = ensure_table ''tenant_domains'' ([defaulted ''id'' ''uuid'', required ''tenant_slug'' ''text'',
            required ''domain'' ''text''] @ both_stamps) [''id'', ''domain''] [(''tenant_slug'', ''tenants'', ''slug'', ''c'')] c3
      in ensure_table ''tenant_config'' ([required ''tenant_slug'' ''text'', required ''key'' ''text'',
            nullable ''value'' ''bytea''] @ both_stamps) [''tenant_slug,key''] [(''tenant_slug'', ''tenants'', ''slug'', ''c'')] c4)"

text \<open>\<open>001_auth.sql\<close>\<close>

definition auth_script :: "catalog \<Rightarrow> err + catalog" where
  "auth_script c0 =
     andthen (run_each (create_index True) normalized_indexes (registry_tables c0)) (\<lambda>c.
     andthen (create_table ''auth_admin_state'' [defaulted ''singleton'' ''bool'', defaulted ''revision'' ''int8'']
       [''singleton''] c) (\<lambda>c.
     andthen (Inr (c\<lparr>ct_singletons := 1\<rparr>)) (\<lambda>c.
     andthen (create_table ''auth_admin_sessions'' [required ''token_hash'' ''bytea'', required ''operator'' ''text'',
       required ''credential_hash'' ''bytea'', required ''csrf_hash'' ''bytea'', required ''expires_at'' ''timestamptz'',
       defaulted ''created_at'' ''timestamptz''] [''token_hash''] c) (\<lambda>c.
     andthen (create_index False ''auth_admin_sessions_expiry'' c) (\<lambda>c.
     andthen (create_table ''auth_admin_audit'' [required ''id'' ''int8'', required ''operator'' ''text'',
       required ''action'' ''text'', required ''resource'' ''text'', required ''fields'' ''_text'', required ''revision'' ''int8'',
       defaulted ''created_at'' ''timestamptz''] [''id''] c) (\<lambda>c.
     andthen (create_function ''auth_admin_bump_revision'' c) (\<lambda>c.
     andthen (create_function ''auth_admin_touch_updated_at'' c) (\<lambda>c.
     run_each (\<lambda>t c. andthen (create_trigger ''auth_admin_revision'' True t c) (\<lambda>c.
       if t \<noteq> ''user_tenants'' then create_trigger ''auth_admin_updated_at'' False t c else Inr c)) mt_tables c))))))))"

text \<open>\<open>002_membership_checks.sql\<close>\<close>

definition checks_script :: "catalog \<Rightarrow> err + catalog" where
  "checks_script c =
     (case map_of (ct_public c) ''user_tenants'' of
        None \<Rightarrow> Inl (ErrPq ''42P01'')
      | Some cols \<Rightarrow>
          if map_of cols ''auth_checks'' \<noteq> None then Inl (ErrPq ''42701'')
          else Inr (c\<lparr>ct_public := map (\<lambda>(t, cs). (t, if t = ''user_tenants'' then cs @ [defaulted ''auth_checks'' ''jsonb''] else cs))
            (ct_public c)\<rparr>))"

text \<open>\<open>001_proxy.sql\<close>: tables, ledger and the rows it seeds.\<close>

definition proxy_ddl :: "(string \<times> string list) list" where
  "proxy_ddl =
     [(''acl_rules'', [''rule_id'', ''principal_type'', ''principal_id'', ''resource_type'', ''resource_id'', ''access_level'',
         ''granted_by'', ''granted_at'', ''expires_at'', ''reason'']),
      (''acl_fallback_policies'', [''policy_id'', ''rule_category'', ''fallback_access_level'', ''updated_by'', ''updated_at'']),
      (''api_tokens'', [''id'', ''token_hash'', ''name'', ''principal_type'', ''workspace_patterns'', ''scopes'',
         ''created_by'', ''created_at'', ''updated_at'', ''expires_at'', ''revoked'', ''revoked_at'',
         ''last_used_at'', ''metadata'']),
      (''acl_authority_grants'', [''grant_id'', ''root_grant_id'', ''subject_type'', ''subject_id'', ''delegate_type'', ''delegate_id'',
         ''issued_by_type'', ''issued_by_id'', ''root_subject_type'', ''root_subject_id'', ''parent_grant_id'',
         ''may_delegate'', ''remaining_hops'', ''workspace_scope'', ''resource_scope'', ''operation_scope'',
         ''max_access_level'', ''audience_type'', ''audience_id'', ''valid_while_audience_active'',
         ''expires_at'', ''renewable_until'', ''renewed_at'', ''revoked'', ''revoked_at'', ''reason'',
         ''metadata'', ''created_at'']),
      (''acl_groups'', [''group_id'', ''group_name'', ''description'', ''created_by'', ''created_at'', ''metadata'']),
      (''acl_roles'', [''role_id'', ''role_name'', ''description'', ''created_by'', ''created_at'', ''metadata'']),
      (''acl_group_members'', [''id'', ''group_id'', ''member_type'', ''member_id'', ''granted_by'', ''granted_at'', ''expires_at'']),
      (''acl_role_assignments'', [''id'', ''role_id'', ''assignee_type'', ''assignee_id'', ''granted_by'', ''granted_at'', ''expires_at'']),
      (''schema_version'', [''version''])]"

definition ensure_proxy :: "(string \<times> string list) \<Rightarrow> catalog \<Rightarrow> catalog" where
  "ensure_proxy = (\<lambda>(t, cols) c. if map_of (ct_proxy c) t \<noteq> None then c else c\<lparr>ct_proxy := ct_proxy c @ [(t, cols)]\<rparr>)"

definition proxy_has :: "catalog \<Rightarrow> string \<times> string list \<Rightarrow> bool" where
  "proxy_has c = (\<lambda>(t, cols). case map_of (ct_proxy c) t of
     None \<Rightarrow> False | Some have \<Rightarrow> list_all (\<lambda>col. col \<in> set have) cols)"

definition seed_rule :: "catalog \<Rightarrow> catalog" where
  "seed_rule c = (if \<exists>(pt, pid, rt, rid, l) \<in> set (ct_rules c).
       (pt, pid, rt, rid) = (''wildcard'', ''_any_authenticated_user'', ''workspace'', ''auth-app'') then c
     else c\<lparr>ct_rules := ct_rules c @ [(''wildcard'', ''_any_authenticated_user'', ''workspace'', ''auth-app'', 20)]\<rparr>)"

definition seed_policies :: "catalog \<Rightarrow> catalog" where
  "seed_policies c = c\<lparr>ct_policies := ct_policies c @ map (\<lambda>category. (category, 0)) (filter (\<lambda>category. category \<notin> fst ` set (ct_policies c))
     [''user_workspace'', ''agent_workspace'', ''task_workspace'', ''service_workspace'', ''user_agent'', ''agent_agent'',
      ''global_read'', ''orchestrator_system'', ''user_kv_scope'', ''agent_kv_scope'', ''task_kv_scope'', ''service_kv_scope''])\<rparr>"

definition proxy_script :: "catalog \<Rightarrow> err + catalog" where
  "proxy_script c0 =
     (let c = fold ensure_proxy proxy_ddl c0;
          c = c\<lparr>ct_proxy_ledger := (if 1 \<in> set (ct_proxy_ledger c) then ct_proxy_ledger c else ct_proxy_ledger c @ [1])\<rparr>
      in if proxy_has c (''acl_rules'', [''principal_type'', ''principal_id'', ''resource_type'', ''resource_id'',
              ''access_level'', ''granted_by'', ''reason'']) \<and>
            proxy_has c (''acl_fallback_policies'', [''rule_category'', ''fallback_access_level'', ''updated_by''])
         then Inr (seed_policies (seed_rule c)) else Inl (ErrPq ''42703''))"

subsection \<open>Migrate\<close>

definition insert_version :: "int \<Rightarrow> catalog \<Rightarrow> err + catalog" where
  "insert_version v c = (if v \<in> set (ct_ledger c) then Inl (ErrPq ''23505'') else Inr (c\<lparr>ct_ledger := ct_ledger c @ [v]\<rparr>))"

definition upgrade :: "faults \<Rightarrow> int \<Rightarrow> catalog \<Rightarrow> err + catalog" where
  "upgrade flt v c1 =
     andthen (if v = 0 then andthen (stmt flt ''001'' (auth_script c1)) (\<lambda>c. stmt flt ''insert 1'' (insert_version 1 c))
              else Inr c1) (\<lambda>c2.
     if v < 2 then andthen (stmt flt ''002'' (checks_script c2)) (\<lambda>c. stmt flt ''insert 2'' (insert_version 2 c))
     else Inr c2)"

definition setup_proxy :: "faults \<Rightarrow> catalog \<Rightarrow> err + catalog" where
  "setup_proxy flt c =
     andthen (stmt flt ''to_regclass'' (Inr (map_of (ct_proxy c) ''schema_version'' \<noteq> None))) (\<lambda>present.
     if present then Inr c else stmt flt ''proxy'' (proxy_script c))"

definition ensure_ledger :: "catalog \<Rightarrow> catalog" where
  "ensure_ledger = ensure_table ''auth_admin_migrations''
     [required ''version'' ''int4'', defaulted ''applied_at'' ''timestamptz''] [''version''] []"

definition table_count :: "catalog \<Rightarrow> nat" where
  "table_count c = length (filter (\<lambda>t. map_of (ct_public c) t \<noteq> None) mt_tables)"

definition migrate :: "faults \<Rightarrow> catalog \<Rightarrow> err + catalog" where
  "migrate flt c0 =
     andthen (stmt flt ''begin'' (Inr ())) (\<lambda>_.
     andthen (stmt flt ''lock'' (Inr ())) (\<lambda>_.
     andthen (stmt flt ''count'' (Inr (table_count c0))) (\<lambda>n.
     andthen (guard_err (n \<noteq> 0 \<and> n \<noteq> 5) (ErrOther ''partial MT schema'')) (\<lambda>_.
     andthen (if n = 5 then check_mt flt c0 else Inr ()) (\<lambda>_.
     andthen (stmt flt ''ledger'' (Inr (ensure_ledger c0))) (\<lambda>c1.
     andthen (stmt flt ''max'' (if has_columns c1 (''auth_admin_migrations'', [''version''])
       then Inr (max_version (ct_ledger c1)) else Inl (ErrPq ''42703''))) (\<lambda>v.
     andthen (guard_err (2 < v) (ErrOther ''unsupported auth schema version'')) (\<lambda>_.
     andthen (upgrade flt v c1) (\<lambda>c3.
     andthen (check_schema flt c3) (\<lambda>_.
     andthen (setup_proxy flt c3) (\<lambda>c4.
     andthen (check_proxy flt c4) (\<lambda>_.
     stmt flt ''commit'' (Inr c4)))))))))))))"

subsection \<open>Lemmas\<close>

lemma each_Inr: "each f xs = Inr () \<longleftrightarrow> (\<forall>x \<in> set xs. f x = Inr ())"
  by (induction xs) (auto simp: andthen_Inr_iff)

lemma passes_Inr: "passes flt what ok = Inr () \<longleftrightarrow> flt what = None \<and> ok"
  by (auto simp: passes_def)

lemma andthen_unit: "andthen (m :: 'e + unit) f = Inr y \<longleftrightarrow> m = Inr () \<and> f () = Inr y"
  by (cases m) auto

lemma check_column_Inr:
  "check_column flt c t (col, typ) = Inr () \<longleftrightarrow> flt (''column:'' @ t @ ''.'' @ col) = None \<and>
     (\<exists>got. find_column c t col = Some got \<and> co_type got = typ \<and>
       (col \<in> {''id'', ''created_at'', ''updated_at''} \<longrightarrow> co_default got) \<and>
       (col \<notin> {''metadata'', ''default_tenant_slug'', ''value''} \<longrightarrow> \<not> co_nullable got))"
  unfolding check_column_def prod.case
  by (cases "flt (''column:'' @ t @ ''.'' @ col)"; cases "find_column c t col") simp_all

lemmas check_column_eq = check_column_Inr [of _ _ _ "fst p" "snd p" for p, unfolded prod.collapse]

text \<open>A check that succeeds under some faults succeeds without faults.\<close>

lemma check_mt_quiet: "check_mt flt c = Inr () \<Longrightarrow> check_mt (\<lambda>_. None) c = Inr ()"
  unfolding check_mt_def andthen_unit each_Inr passes_Inr split_beta
  by (simp add: check_column_eq)

lemma check_schema_quiet: "check_schema flt c = Inr () \<Longrightarrow> check_schema (\<lambda>_. None) c = Inr ()"
  unfolding check_schema_def andthen_unit each_Inr passes_Inr
  using check_mt_quiet by blast

lemma check_proxy_quiet: "check_proxy flt c = Inr () \<Longrightarrow> check_proxy (\<lambda>_. None) c = Inr ()"
  unfolding check_proxy_def andthen_unit each_Inr passes_Inr split_beta
  by blast

lemma contract_tables: "map fst contract = mt_tables"
  by (simp add: contract_def mt_tables_def)

lemma check_mt_tables:
  assumes "check_mt flt c = Inr ()"
  shows "\<forall>t \<in> set mt_tables. map_of (ct_public c) t \<noteq> None"
proof
  fix t assume "t \<in> set mt_tables"
  then have "t \<in> fst ` set contract" using contract_tables by (metis list.set_map)
  then obtain cols where tc: "(t, cols) \<in> set contract" by auto
  moreover from this have "cols \<noteq> []" by (auto simp: contract_def)
  then obtain col ty rest where "cols = (col, ty) # rest" by (cases cols) auto
  ultimately have "check_column flt c t (col, ty) = Inr ()"
    using assms unfolding check_mt_def andthen_unit each_Inr by fastforce
  then show "map_of (ct_public c) t \<noteq> None"
    unfolding check_column_Inr by (auto simp: find_column_def split: option.splits)
qed

text \<open>What a successful migration went through.\<close>

lemma migrate_Inr:
  assumes "migrate flt c0 = Inr c4"
  obtains c3 where "table_count c0 = 0 \<or> table_count c0 = 5 \<and> check_mt flt c0 = Inr ()"
    "max_version (ct_ledger (ensure_ledger c0)) \<le> 2"
    "upgrade flt (max_version (ct_ledger (ensure_ledger c0))) (ensure_ledger c0) = Inr c3"
    "check_schema flt c3 = Inr ()" "setup_proxy flt c3 = Inr c4" "check_proxy flt c4 = Inr ()"
  using assms unfolding migrate_def
  by (elim andthen_InrE) (auto simp: stmt_Inr split: if_split_asm)

text \<open>A migrated catalog.\<close>

definition migrated :: "catalog \<Rightarrow> bool" where
  "migrated c = (check_schema (\<lambda>_. None) c = Inr () \<and> check_proxy (\<lambda>_. None) c = Inr ())"

lemma check_schema_facts:
  assumes "check_schema flt c = Inr ()"
  shows "check_mt flt c = Inr ()" "relation_exists c ''auth_admin_migrations''"
    "max_version (ct_ledger c) = 2" "has_columns c (''auth_admin_migrations'', [''version''])"
  using assms unfolding check_schema_def andthen_unit each_Inr passes_Inr
  by (auto simp: has_columns_def relation_exists_def)

lemma table_count_full: "\<forall>t \<in> set mt_tables. map_of (ct_public c) t \<noteq> None \<Longrightarrow> table_count c = 5"
  unfolding table_count_def by (subst filter_True) (simp_all add: mt_tables_def)

lemma migrate_migrated:
  assumes "migrated c"
  shows "migrate (\<lambda>_. None) c = Inr c"
proof -
  let ?n = "\<lambda>_. None :: err option"
  from assms have s: "check_schema ?n c = Inr ()" and p: "check_proxy ?n c = Inr ()" by (auto simp: migrated_def)
  note f = check_schema_facts [OF s]
  have q: "map_of (ct_proxy c) ''schema_version'' \<noteq> None"
    using p unfolding check_proxy_def andthen_unit passes_Inr by blast
  have n: "table_count c = 5" by (rule table_count_full [OF check_mt_tables [OF f(1)]])
  have l: "ensure_ledger c = c" using f(2) by (simp add: ensure_ledger_def ensure_table_def)
  show ?thesis
    using s p q by (simp add: migrate_def stmt_def n f l upgrade_def setup_proxy_def)
qed

text \<open>The proxy script touches nothing the schema check reads.\<close>

lemma check_schema_cong:
  assumes "ct_public c' = ct_public c" "ct_unique c' = ct_unique c" "ct_fks c' = ct_fks c" "ct_ledger c' = ct_ledger c"
    "ct_singletons c' = ct_singletons c" "ct_triggers c' = ct_triggers c" "ct_indexes c' = ct_indexes c"
  shows "check_schema flt c' = check_schema flt c"
proof -
  have f: "find_column c' = find_column c" using assms(1) by (simp add: find_column_def fun_eq_iff)
  have h: "has_columns c' = has_columns c" using assms(1) f by (simp add: has_columns_def fun_eq_iff)
  have k: "check_column flt c' = check_column flt c" using f by (simp add: check_column_def fun_eq_iff)
  show ?thesis unfolding check_schema_def check_mt_def assms f h k ..
qed

lemma ensure_proxy_frame: "ct_public (ensure_proxy p c) = ct_public c" "ct_unique (ensure_proxy p c) = ct_unique c"
  "ct_fks (ensure_proxy p c) = ct_fks c" "ct_ledger (ensure_proxy p c) = ct_ledger c"
  "ct_singletons (ensure_proxy p c) = ct_singletons c" "ct_triggers (ensure_proxy p c) = ct_triggers c"
  "ct_indexes (ensure_proxy p c) = ct_indexes c"
  by (cases p; simp add: ensure_proxy_def)+

lemma fold_frame: "(\<And>p c. f (g p c) = f c) \<Longrightarrow> f (fold g ps c) = f c"
  by (induction ps arbitrary: c) auto

lemmas fold_proxy_frame = ensure_proxy_frame [THEN fold_frame [of _ ensure_proxy]]

lemma seed_frame: "ct_public (seed_policies (seed_rule c)) = ct_public c" "ct_unique (seed_policies (seed_rule c)) = ct_unique c"
  "ct_fks (seed_policies (seed_rule c)) = ct_fks c" "ct_ledger (seed_policies (seed_rule c)) = ct_ledger c"
  "ct_singletons (seed_policies (seed_rule c)) = ct_singletons c"
  "ct_triggers (seed_policies (seed_rule c)) = ct_triggers c" "ct_indexes (seed_policies (seed_rule c)) = ct_indexes c"
  by (simp_all add: seed_policies_def seed_rule_def)

lemma if_InrD: "(if b then Inr x else Inl e) = Inr y \<Longrightarrow> y = x"
  by (cases b) auto

lemma proxy_script_frame:
  assumes "proxy_script c = Inr c'"
  shows "ct_public c' = ct_public c" "ct_unique c' = ct_unique c" "ct_fks c' = ct_fks c" "ct_ledger c' = ct_ledger c"
    "ct_singletons c' = ct_singletons c" "ct_triggers c' = ct_triggers c" "ct_indexes c' = ct_indexes c"
  by (subst if_InrD [OF assms [unfolded proxy_script_def Let_def]], simp add: seed_frame fold_proxy_frame)+

lemma setup_proxy_cases: "setup_proxy flt c = Inr c' \<Longrightarrow> c' = c \<or> proxy_script c = Inr c'"
  unfolding setup_proxy_def stmt_def by (cases "map_of (ct_proxy c) ''schema_version''") (auto split: option.splits)

lemma setup_proxy_frame:
  assumes "setup_proxy flt c = Inr c'"
  shows "ct_public c' = ct_public c" "check_schema flt' c' = check_schema flt' c"
  using setup_proxy_cases [OF assms] proxy_script_frame [of c c'] check_schema_cong [of c' c flt'] by fastforce+

lemma migrate_Inr_migrated:
  assumes "migrate flt c0 = Inr c4"
  shows "migrated c4"
proof -
  obtain c3 where c: "check_schema flt c3 = Inr ()" "setup_proxy flt c3 = Inr c4" "check_proxy flt c4 = Inr ()"
    by (rule migrate_Inr [OF assms])
  from setup_proxy_frame(2) [OF c(2), of flt] c(1) have "check_schema flt c4 = Inr ()" by simp
  then show ?thesis
    using check_schema_quiet check_proxy_quiet c(3) by (auto simp: migrated_def)
qed

subsection \<open>Adoption\<close>

text \<open>Statements that leave the columns of every existing table alone.\<close>

definition keeps :: "catalog \<Rightarrow> catalog \<Rightarrow> bool" where
  "keeps c c' = (\<forall>t cols. map_of (ct_public c) t = Some cols \<longrightarrow> map_of (ct_public c') t = Some cols)"

definition kept :: "(catalog \<Rightarrow> err + catalog) \<Rightarrow> bool" where
  "kept f = (\<forall>c c'. f c = Inr c' \<longrightarrow> keeps c c')"

named_theorems kept_intros

lemma keeps_refl [simp]: "keeps c c"
  by (simp add: keeps_def)

lemma keeps_trans: "keeps c1 c2 \<Longrightarrow> keeps c2 c3 \<Longrightarrow> keeps c1 c3"
  by (simp add: keeps_def)

lemma keeps_same: "ct_public c' = ct_public c \<Longrightarrow> keeps c c'"
  by (simp add: keeps_def)

lemma keeps_add_table: "keeps c (add_table t cols keys refs c)"
  by (simp add: keeps_def add_table_def map_add_def)

lemma keeps_ensure: "keeps c (ensure_table t cols keys refs c)"
  by (simp add: ensure_table_def keeps_add_table)

lemma kept_then [kept_intros]: "kept f \<Longrightarrow> kept g \<Longrightarrow> kept (\<lambda>c. andthen (f c) g)"
  unfolding kept_def by (blast intro: keeps_trans elim: andthen_InrE)

lemma kept_Inr [kept_intros]: "(\<And>c. keeps c (f c)) \<Longrightarrow> kept (\<lambda>c. Inr (f c))"
  by (auto simp: kept_def)

lemma kept_if [kept_intros]: "kept f \<Longrightarrow> kept g \<Longrightarrow> kept (\<lambda>c. if b then f c else g c)"
  by (simp add: kept_def)

lemma kept_create [kept_intros]:
  "kept (create_table t cols keys)" "kept (create_index u i)" "kept (create_function f)" "kept (create_trigger g r t)"
  by (auto simp: kept_def create_table_def create_index_def create_function_def create_trigger_def
      keeps_add_table keeps_same split: if_split_asm)

lemma kept_run_each [kept_intros]: "(\<And>x. kept (f x)) \<Longrightarrow> kept (run_each f xs)"
proof (induction xs)
  case (Cons x xs)
  have "kept (\<lambda>c. andthen (f x c) (run_each f xs))" by (intro kept_intros Cons)
  then show ?case by (simp add: kept_def)
qed (simp add: kept_def)

lemma kept_stmt [kept_intros]: "kept f \<Longrightarrow> kept (\<lambda>c. stmt flt l (f c))"
  by (simp add: kept_def stmt_Inr)

lemma keeps_registry: "keeps c (registry_tables c)"
  unfolding registry_tables_def Let_def by ((rule keeps_trans [OF _ keeps_ensure])+) (rule keeps_refl)

lemma kept_after: "kept f \<Longrightarrow> (\<And>c. keeps c (h c)) \<Longrightarrow> kept (\<lambda>c. f (h c))"
  unfolding kept_def by (blast intro: keeps_trans)

lemma keeps_singletons: "keeps c (c\<lparr>ct_singletons := n\<rparr>)"
  by (simp add: keeps_def)

lemma kept_auth_script: "kept auth_script"
  unfolding auth_script_def [abs_def]
  by (rule kept_then, rule kept_after [OF kept_run_each keeps_registry]) (intro kept_intros keeps_singletons keeps_refl)+

lemma kept_insert [kept_intros]: "kept (insert_version v)"
  by (auto simp: kept_def insert_version_def keeps_same split: if_split_asm)

lemma map_of_map_table:
  "map_of (map (\<lambda>(t, cs). (t, if t = u then f cs else cs)) m) t =
     (case map_of m t of None \<Rightarrow> None | Some cs \<Rightarrow> Some (if t = u then f cs else cs))"
  by (induction m) auto

lemma checks_script_Inr:
  assumes "checks_script c = Inr c'" "map_of (ct_public c) t = Some cols"
  shows "map_of (ct_public c') t = Some (if t = ''user_tenants'' then cols @ [defaulted ''auth_checks'' ''jsonb''] else cols) \<and>
    (t = ''user_tenants'' \<longrightarrow> map_of cols ''auth_checks'' = None)"
  using assms unfolding checks_script_def
  by (auto simp: map_of_map_table split: option.splits if_split_asm)

lemma upgrade_adopts:
  assumes "upgrade flt v c = Inr c'" "map_of (ct_public c) t = Some cols"
  shows "map_of (ct_public c') t = Some cols \<or>
    t = ''user_tenants'' \<and> map_of cols ''auth_checks'' = None \<and>
    map_of (ct_public c') t = Some (cols @ [defaulted ''auth_checks'' ''jsonb''])"
proof -
  have "kept (\<lambda>c. if v = 0 then andthen (stmt flt ''001'' (auth_script c)) (\<lambda>c. stmt flt ''insert 1'' (insert_version 1 c))
      else Inr c)"
    by (intro kept_intros kept_auth_script keeps_refl)
  with assms obtain c2 where c2: "map_of (ct_public c2) t = Some cols"
    "(if v < 2 then andthen (stmt flt ''002'' (checks_script c2)) (\<lambda>c. stmt flt ''insert 2'' (insert_version 2 c))
      else Inr c2) = Inr c'"
    unfolding upgrade_def kept_def keeps_def by (elim andthen_InrE) blast
  show ?thesis
  proof (cases "v < 2")
    case True
    with c2(2) obtain c3 where "checks_script c2 = Inr c3" "insert_version 2 c3 = Inr c'"
      by (auto simp: stmt_Inr)
    moreover from this(2) have "keeps c3 c'" using kept_insert by (auto simp: kept_def)
    ultimately show ?thesis
      using checks_script_Inr [OF _ c2(1), of c3] by (auto simp: keeps_def split: if_split_asm)
  qed (use c2 in simp)
qed

lemma registry_dups: "ct_dups (registry_tables c) = ct_dups c"
  by (simp add: registry_tables_def Let_def ensure_table_def add_table_def)

lemma run_create_dups:
  "run_each (create_index True) is c = Inr c' \<Longrightarrow> set (ct_dups c) \<inter> set is = {} \<and> ct_dups c' = ct_dups c"
proof (induction "is" arbitrary: c)
  case (Cons i "is")
  then obtain c1 where "create_index True i c = Inr c1" "run_each (create_index True) is c1 = Inr c'" by auto
  moreover from this(1) have "i \<notin> set (ct_dups c)" "ct_dups c1 = ct_dups c"
    by (auto simp: create_index_def split: if_split_asm)
  ultimately show ?case using Cons.IH [of c1] by auto
qed simp

lemma auth_script_dups: "auth_script c = Inr c' \<Longrightarrow> set (ct_dups c) \<inter> set normalized_indexes = {}"
  unfolding auth_script_def using run_create_dups [of normalized_indexes "registry_tables c"]
  by (auto simp: registry_dups)

definition empty_catalog :: catalog where
  "empty_catalog = \<lparr>ct_public = [], ct_unique = [], ct_fks = [], ct_indexes = [], ct_functions = [], ct_triggers = [],
     ct_ledger = [], ct_singletons = 0, ct_dups = [], ct_proxy = [], ct_proxy_ledger = [], ct_rules = [], ct_policies = []\<rparr>"

subsection \<open>Properties\<close>

text \<open>C25. Migration is safe to repeat and leaves a schema every replica accepts: after a successful
  \<open>Migrate\<close> the startup check \<open>VerifySchema\<close> passes, and migrating again changes nothing at all,
  so an operator's later change (a removed proxy permission, say) is not undone.\<close>

theorem migrate_settles:
  assumes "migrate flt c = Inr c'"
  shows "verify_schema (\<lambda>_. None) c' = Inr () \<and> migrate (\<lambda>_. None) c' = Inr c'"
  using migrate_Inr_migrated [OF assms] migrate_migrated [OF migrate_Inr_migrated [OF assms]]
  by (simp add: migrated_def verify_schema_def)

text \<open>C26. Adoption is conservative: every table of the public schema that existed before keeps exactly
  its columns, except that memberships gain \<open>auth_checks\<close> when they had no such column.\<close>

theorem migrate_adopts:
  assumes "migrate flt c = Inr c'" "map_of (ct_public c) t = Some cols"
  shows "map_of (ct_public c') t = Some cols \<or>
    t = ''user_tenants'' \<and> map_of cols ''auth_checks'' = None \<and>
    map_of (ct_public c') t = Some (cols @ [defaulted ''auth_checks'' ''jsonb''])"
proof -
  obtain c3 v where u: "upgrade flt v (ensure_ledger c) = Inr c3" and p: "setup_proxy flt c3 = Inr c'"
    by (rule migrate_Inr [OF assms(1)])
  have "map_of (ct_public (ensure_ledger c)) t = Some cols"
    using assms(2) keeps_ensure unfolding ensure_ledger_def keeps_def by blast
  from upgrade_adopts [OF u this] show ?thesis by (simp add: setup_proxy_frame(1) [OF p])
qed

text \<open>What migration refuses: a partial registry, an incompatible complete one, a schema of a
  later version, and legacy rows that the normalized identities would merge. Nothing is committed.\<close>

theorem migrate_refuses:
  assumes "table_count c \<notin> {0, 5} \<or> table_count c = 5 \<and> check_mt flt c \<noteq> Inr () \<or>
    2 < max_version (ct_ledger c) \<and> relation_exists c ''auth_admin_migrations'' \<or>
    max_version (ct_ledger c) = 0 \<and> relation_exists c ''auth_admin_migrations'' \<and> set (ct_dups c) \<inter> set normalized_indexes \<noteq> {}"
  shows "\<exists>e. migrate flt c = Inl e"
proof (rule ccontr)
  assume "\<nexists>e. migrate flt c = Inl e"
  then obtain c' where "migrate flt c = Inr c'" by (cases "migrate flt c") auto
  then obtain c3 where m: "table_count c = 0 \<or> table_count c = 5 \<and> check_mt flt c = Inr ()"
    "max_version (ct_ledger (ensure_ledger c)) \<le> 2"
    "upgrade flt (max_version (ct_ledger (ensure_ledger c))) (ensure_ledger c) = Inr c3"
    by (rule migrate_Inr)
  have l: "ensure_ledger c = c" if "relation_exists c ''auth_admin_migrations''"
    using that by (simp add: ensure_ledger_def ensure_table_def)
  have "\<exists>c'. auth_script c = Inr c'"
    if "relation_exists c ''auth_admin_migrations''" "max_version (ct_ledger c) = 0"
    using m(3) that unfolding l [OF that(1)] upgrade_def by (auto simp: stmt_Inr)
  with m(1,2) l assms auth_script_dups show False by auto
qed

text \<open>A fresh installation. On an empty database, without faults, migration succeeds: it creates
  the registry and both ledgers, grants ordinary identities exactly one rule (read and write on the
  local gateway resource) and denies every other category by default.\<close>

theorem migrate_fresh:
  "case migrate (\<lambda>_. None) empty_catalog of
     Inl _ \<Rightarrow> False
   | Inr c \<Rightarrow> list_all (\<lambda>t. t \<in> set (map fst (ct_public c))) mt_tables \<and> ct_ledger c = [1, 2] \<and> ct_proxy_ledger c = [1] \<and>
       ct_singletons c = 1 \<and> list_all (\<lambda>p. snd p = 0) (ct_policies c) \<and>
       ct_rules c = [(''wildcard'', ''_any_authenticated_user'', ''workspace'', ''auth-app'', 20)]"
  by code_simp

subsection \<open>Witnesses\<close>

definition legacy_catalog :: catalog where
  "legacy_catalog = add_table ''tenant_kv_store'' [required ''key'' ''text''] [] [] (registry_tables empty_catalog)"

lemma demo_migrations: "is_ok (migrate (\<lambda>_. None) empty_catalog)" "is_ok (migrate (\<lambda>_. None) legacy_catalog)"
  by code_simp+

lemma is_okE: "is_ok r \<Longrightarrow> \<exists>x. r = Inr x"
  by (cases r) auto

theorem migrate_settles_witness:
  "\<exists>c. migrate (\<lambda>_. None) empty_catalog = Inr c \<and> verify_schema (\<lambda>_. None) c = Inr () \<and> migrate (\<lambda>_. None) c = Inr c"
  using is_okE [OF demo_migrations(1)] migrate_settles by blast

theorem migrate_adopts_witness:
  "\<exists>c. migrate (\<lambda>_. None) legacy_catalog = Inr c \<and>
     map_of (ct_public c) ''tenant_kv_store'' = Some [required ''key'' ''text'']"
proof -
  obtain c where c: "migrate (\<lambda>_. None) legacy_catalog = Inr c" using is_okE [OF demo_migrations(2)] by blast
  have "map_of (ct_public legacy_catalog) ''tenant_kv_store'' = Some [required ''key'' ''text'']" by code_simp
  from migrate_adopts [OF c this] c show ?thesis by simp
qed

theorem migrate_refuses_witness:
  "\<exists>e. migrate (\<lambda>_. None) (empty_catalog\<lparr>ct_public := [(''users'', [required ''email'' ''text''])]\<rparr>) = Inl e"
proof -
  have "table_count (empty_catalog\<lparr>ct_public := [(''users'', [required ''email'' ''text''])]\<rparr>) \<notin> {0, 5}" by code_simp
  then show ?thesis by (intro migrate_refuses) blast
qed

end
