(* ===== verification/Listeners.thy ===== *)
theory Listeners
  imports Go_Strings
begin

text \<open>
  \<open>cmd/scitrera-auth-proxy\<close>: the listener plan of \<open>listeners.go\<close>, which address serves which
  surface, and the readers of environment values in \<open>main.go\<close>.
\<close>

subsection \<open>Environment values\<close>

definition split_csv :: "string \<Rightarrow> string list" where
  "split_csv s = (if s = [] then [] else filter (\<lambda>t. t \<noteq> []) (map trim_space (split_on CHR '','' s)))"

definition parse_int_or :: "string \<Rightarrow> int \<Rightarrow> int" where
  "parse_int_or s d = (if s = [] then d else case parse_int64 s of Some n \<Rightarrow> n | None \<Rightarrow> d)"

lemma split_csv_parts: "p \<in> set (split_csv s) \<Longrightarrow> p \<noteq> [] \<and> trim_space p = p"
  by (auto simp: split_csv_def trim_space_idem split: if_split_asm)

lemma split_on_append: "c \<notin> set p \<Longrightarrow> split_on c (p @ c # s) = p # split_on c s"
  by (induction p) auto

lemma split_on_single: "c \<notin> set p \<Longrightarrow> split_on c p = [p]"
  by (induction p) auto

lemma split_join: "ps \<noteq> [] \<Longrightarrow> \<forall>p \<in> set ps. c \<notin> set p \<Longrightarrow> split_on c (join_with [c] ps) = ps"
  by (induction "[c]" ps rule: join_with.induct) (auto simp: split_on_single split_on_append)

lemma split_csv_join:
  assumes "\<forall>p \<in> set ps. p \<noteq> [] \<and> trim_space p = p \<and> CHR '','' \<notin> set p"
  shows "split_csv (join_with '','' ps) = ps"
proof (cases ps)
  case (Cons q qs)
  with assms have "join_with '','' ps \<noteq> []"
    by (cases qs) auto
  moreover have "map trim_space ps = ps" using assms by (simp add: map_idI)
  moreover have "filter (\<lambda>t. t \<noteq> []) ps = ps" using assms by (simp add: filter_id_conv)
  ultimately show ?thesis
    using split_join [of ps "CHR '',''"] assms Cons by (simp add: split_csv_def)
qed (simp add: split_csv_def)

subsection \<open>The plan\<close>

record listener_plan =
  lp_internal :: string
  lp_external :: string
  lp_admin :: string
  lp_metrics :: string

text \<open>\<open>net.SplitHostPort\<close>\<close>

definition split_host_port :: "string \<Rightarrow> (string \<times> string) option" where
  "split_host_port hp =
     (case last_index CHR '':'' hp of
        None \<Rightarrow> None
      | Some i \<Rightarrow>
          (let port = drop (i + 1) hp in
           if has_prefix hp ''['' then
             (case index_byte CHR '']'' hp of
                None \<Rightarrow> None
              | Some e \<Rightarrow>
                  if e + 1 \<noteq> i then None
                  else if CHR ''['' \<in> set (drop 1 hp) \<or> CHR '']'' \<in> set (drop (e + 1) hp) then None
                  else Some (take (e - 1) (drop 1 hp), port))
           else if CHR '':'' \<in> set (take i hp) \<or> CHR ''['' \<in> set hp \<or> CHR '']'' \<in> set hp then None
           else Some (take i hp, port)))"

definition bad_address :: "string \<Rightarrow> bool" where
  "bad_address addr = (addr \<noteq> [] \<and>
     (case split_host_port addr of None \<Rightarrow> True | Some (h, port) \<Rightarrow> port = []))"

text \<open>The first bad address is reported; Go visits the four in no fixed order.\<close>

definition plan_listeners :: "string \<Rightarrow> string \<Rightarrow> string \<Rightarrow> string \<Rightarrow> string + listener_plan" where
  "plan_listeners internal ext adm metrics =
     (let m = (if metrics = ''off'' then [] else if metrics \<noteq> [] then metrics
               else if adm \<noteq> [] then adm else internal) in
      case List.find bad_address [internal, ext, adm, m] of
        Some a \<Rightarrow> Inl a
      | None \<Rightarrow> Inr \<lparr>lp_internal = internal, lp_external = ext, lp_admin = adm, lp_metrics = m\<rparr>)"

fun unseen :: "string list \<Rightarrow> string list \<Rightarrow> string list" where
  "unseen seen [] = []"
| "unseen seen (a # r) = (if a \<in> set seen then unseen seen r else a # unseen (a # seen) r)"

definition extra_addresses :: "listener_plan \<Rightarrow> string list" where
  "extra_addresses p = unseen [lp_internal p, []] [lp_external p, lp_admin p, lp_metrics p]"

lemma unseen_set: "set (unseen seen xs) = set xs - set seen"
  by (induction seen xs rule: unseen.induct) auto

lemma unseen_distinct: "distinct (unseen seen xs)"
  by (induction seen xs rule: unseen.induct) (auto simp: unseen_set)

subsection \<open>Dispatch\<close>

datatype surface = Internal | External | Admin | Metrics

datatype served = Serve surface | AdminRedirect | BadMethod | Healthy | NotServed

definition under :: "string \<Rightarrow> string \<Rightarrow> bool" where
  "under path p = (path = p \<or> has_prefix path (p @ ''/''))"

definition admin_path :: "string \<Rightarrow> bool" where
  "admin_path path = (under path ''/admin'' \<or> under path ''/api/auth-admin/v1'')"

definition browser_path :: "string \<Rightarrow> bool" where
  "browser_path path =
     (path \<in> {''/'', ''/login'', ''/checkz'', ''/source.tar.gz'', ''/auth/logout'', ''/auth/checkz''} \<or>
      has_prefix path ''/auth/login/'' \<or> has_prefix path ''/auth/callback/'')"

text \<open>\<open>on s\<close> is whether the handler of surface \<open>s\<close> was given (not \<open>nil\<close>).\<close>

definition dispatch :: "listener_plan \<Rightarrow> string \<Rightarrow> (surface \<Rightarrow> bool) \<Rightarrow> string \<Rightarrow> string \<Rightarrow> served" where
  "dispatch p addr on m path =
     (if path = ''/metrics'' then
        (if addr = lp_metrics p \<and> on Metrics then
           (if m \<noteq> ''GET'' \<and> m \<noteq> ''HEAD'' then BadMethod else Serve Metrics)
         else NotServed)
      else if admin_path path \<and> addr = lp_admin p \<and> on Admin then
        (if path = ''/admin'' then AdminRedirect else Serve Admin)
      else if addr = lp_external p \<and> on External \<and> (addr \<noteq> lp_internal p \<or> browser_path path) then Serve External
      else if addr = lp_internal p \<and> on Internal then Serve Internal
      else if addr = lp_admin p \<and> on Admin \<and> path = ''/'' then Serve Admin
      else if path = ''/healthz'' \<and> (m = ''GET'' \<or> m = ''HEAD'') then Healthy
      else NotServed)"

text \<open>
  The listeners of \<open>run\<close>: one per extra address, without the internal handler, and the
  internal plane's own. \<open>up s\<close> is whether the surface is configured.
\<close>

definition listen :: "listener_plan \<Rightarrow> (surface \<Rightarrow> bool) \<Rightarrow> string \<Rightarrow> string \<Rightarrow> string \<Rightarrow> served option" where
  "listen p up addr m path =
     (if addr = lp_internal p then Some (dispatch p addr (up(Internal := True)) m path)
      else if addr \<in> set (extra_addresses p) then Some (dispatch p addr (up(Internal := False)) m path)
      else None)"

subsection \<open>Properties\<close>

text \<open>C14. Isolation of the planes. An address serves the trusted internal plane only if it is the
  internal one, the front door only if it is the external one (and where the two coincide only
  its browser paths), the operator API and dashboard only if it is the admin one, and metrics only
  as a read of \<open>/metrics\<close> on the metrics address. On the internal address a verification request
  always reaches the internal plane.\<close>

theorem listener_isolation:
  assumes "listen p up addr m path = Some r"
  shows "(r = Serve Internal \<longrightarrow> addr = lp_internal p) \<and>
    (r = Serve External \<longrightarrow> addr = lp_external p \<and> up External \<and> (addr = lp_internal p \<longrightarrow> browser_path path)) \<and>
    (r = Serve Admin \<longrightarrow> addr = lp_admin p \<and> up Admin \<and> (admin_path path \<or> path = ''/'')) \<and>
    (r = Serve Metrics \<longrightarrow> addr = lp_metrics p \<and> up Metrics \<and> path = ''/metrics'' \<and> m \<in> {''GET'', ''HEAD''}) \<and>
    (addr = lp_internal p \<and> path = ''/auth/verify'' \<longrightarrow> r = Serve Internal)"
proof -
  have v: "\<not> browser_path ''/auth/verify''" "\<not> admin_path ''/auth/verify''" by code_simp+
  have d: "r = dispatch p addr (if addr = lp_internal p then up(Internal := True) else up(Internal := False)) m path"
    using assms by (auto simp: listen_def split: if_split_asm)
  show ?thesis
  proof (cases "path = ''/metrics''")
    case True
    then show ?thesis using d by (auto simp: dispatch_def)
  next
    case False
    note d = d [unfolded dispatch_def if_not_P [OF False]]
    show ?thesis
    proof (intro conjI impI)
      assume "addr = lp_internal p \<and> path = ''/auth/verify''"
      with d v show "r = Serve Internal" by auto
    qed (use d in \<open>auto split: if_split_asm\<close>)
  qed
qed

text \<open>Of the four configured addresses, every one that is set has exactly one listener, a
  shared address included; metrics default to the admin address, then to the internal one.\<close>

theorem one_listener_each:
  assumes "plan_listeners internal ext adm metrics = Inr p" "internal \<noteq> []"
  shows "distinct (internal # extra_addresses p) \<and>
    set (internal # extra_addresses p) = {internal, ext, adm, lp_metrics p} - {[]} \<and>
    lp_metrics p = (if metrics = ''off'' then [] else if metrics \<noteq> [] then metrics
      else if adm \<noteq> [] then adm else internal) \<and>
    (\<forall>a \<in> set (internal # extra_addresses p). \<exists>h port. split_host_port a = Some (h, port) \<and> port \<noteq> [])"
proof -
  have p: "p = \<lparr>lp_internal = internal, lp_external = ext, lp_admin = adm, lp_metrics = lp_metrics p\<rparr>"
    "lp_metrics p = (if metrics = ''off'' then [] else if metrics \<noteq> [] then metrics
      else if adm \<noteq> [] then adm else internal)"
    "\<not> bad_address internal" "\<not> bad_address ext" "\<not> bad_address adm" "\<not> bad_address (lp_metrics p)"
    using assms(1) by (auto simp: plan_listeners_def Let_def split: if_split_asm)
  have f: "lp_internal p = internal" "lp_external p = ext" "lp_admin p = adm"
    by (subst p(1), simp)+
  have e: "set (extra_addresses p) = {ext, adm, lp_metrics p} - {internal, []}" "distinct (extra_addresses p)"
    unfolding extra_addresses_def f unseen_set by (simp_all only: unseen_distinct list.set)
  have s: "set (internal # extra_addresses p) = {internal, ext, adm, lp_metrics p} - {[]}"
    unfolding list.set e(1) using assms(2) by blast
  have good: "\<exists>h port. split_host_port a = Some (h, port) \<and> port \<noteq> []" if "\<not> bad_address a" "a \<noteq> []" for a
    using that by (auto simp: bad_address_def split: option.splits)
  have "\<exists>h port. split_host_port a = Some (h, port) \<and> port \<noteq> []" if "a \<in> set (internal # extra_addresses p)" for a
    using that good p(3-6) unfolding s by blast
  moreover have "distinct (internal # extra_addresses p)"
    unfolding distinct.simps e(1) using e(2) by blast
  ultimately show ?thesis using s p(2) by blast
qed

definition demo_plan :: listener_plan where
  "demo_plan = \<lparr>lp_internal = '':8080'', lp_external = '':8081'', lp_admin = ''127.0.0.1:9000'',
     lp_metrics = ''127.0.0.1:9000''\<rparr>"

theorem listener_isolation_witness:
  "listen demo_plan (\<lambda>_. True) '':8081'' ''GET'' ''/auth/verify'' \<noteq> Some (Serve Internal)"
proof
  assume "listen demo_plan (\<lambda>_. True) '':8081'' ''GET'' ''/auth/verify'' = Some (Serve Internal)"
  from listener_isolation [OF this] show False by (simp add: demo_plan_def)
qed

theorem one_listener_each_witness:
  "set ('':8080'' # extra_addresses demo_plan) = {'':8080'', '':8081'', ''127.0.0.1:9000''}"
proof -
  have "plan_listeners '':8080'' '':8081'' ''127.0.0.1:9000'' [] = Inr demo_plan" by code_simp
  from one_listener_each [OF this] show ?thesis by (auto simp: demo_plan_def)
qed

end
