(* ===== verification/External_Page.thy ===== *)
theory External_Page
  imports External_Redirect "HOL-Library.List_Lexorder" "HOL-Library.Char_ord" "HOL-Library.Multiset"
begin

text \<open>
  \<open>internal/external/page.go\<close>: the provider buttons and the branding of the sign-in page. The
  icons are names here, and the page itself is the branding and the buttons it shows.
\<close>

subsection \<open>Buttons\<close>

datatype icon = NoIcon | GoogleIcon | MicrosoftIcon

record provider_button =
  pb_name :: string
  pb_label :: string
  pb_class :: string
  pb_icon :: icon
  pb_url :: string

text \<open>
  \<open>strings.ToUpper(s[:1]) + s[1:]\<close>: the first byte, not the first rune. A lone byte above ASCII
  is no valid rune and comes back as U+FFFD.
\<close>

definition title_case :: "string \<Rightarrow> string" where
  "title_case s = (case s of [] \<Rightarrow> []
     | c # r \<Rightarrow> (if byte c < 128 then (if 97 \<le> byte c \<and> byte c \<le> 122 then [chr (byte c - 32)] else [c])
                 else encode_rune rune_error) @ r)"

definition provider_kind :: "'a lib_scheme \<Rightarrow> string \<Rightarrow> icon" where
  "provider_kind L name =
     (let n = to_lower L name in
      if n = ''google'' then GoogleIcon
      else if n \<in> {''azure'', ''microsoft'', ''entra'', ''azuread'', ''azure-ad''} then MicrosoftIcon
      else NoIcon)"

definition provider_button_for :: "'a lib_scheme \<Rightarrow> string \<Rightarrow> provider_button" where
  "provider_button_for L name =
     \<lparr>pb_name = name,
      pb_label = ''Sign in with '' @ (case provider_kind L name of
         GoogleIcon \<Rightarrow> ''Google'' | MicrosoftIcon \<Rightarrow> ''Microsoft'' | NoIcon \<Rightarrow> title_case name),
      pb_class = (case provider_kind L name of
         GoogleIcon \<Rightarrow> ''google-btn'' | MicrosoftIcon \<Rightarrow> ''microsoft-btn'' | NoIcon \<Rightarrow> ''generic-btn''),
      pb_icon = provider_kind L name, pb_url = ''/auth/login/'' @ name\<rparr>"

definition build_provider_buttons :: "'a lib_scheme \<Rightarrow> string list \<Rightarrow> provider_button list" where
  "build_provider_buttons L names = map (provider_button_for L) (sort names)"

lemma buttons_names: "map pb_name (build_provider_buttons L names) = sort names"
  by (simp add: build_provider_buttons_def comp_def provider_button_for_def)

subsection \<open>Branding\<close>

definition or_default :: "string \<Rightarrow> string \<Rightarrow> string" where
  "or_default v d = (if v \<noteq> [] then v else d)"

definition branding_with_defaults :: "ext_opts \<Rightarrow> branding" where
  "branding_with_defaults opts =
     (let b = eo_brand opts in
      \<lparr>br_name = or_default (br_name b) ''scitrera.ai'',
       br_logo = or_default (br_logo b) ''https://scitrera.com/logo2.png'',
       br_tagline = or_default (br_tagline b) ''Choose your organization's sign-in method.''\<rparr>)"

definition branding_from_env :: "(string \<Rightarrow> string) \<Rightarrow> branding" where
  "branding_from_env env =
     \<lparr>br_name = or_default (env ''SCITRERA_AUTH_BRAND_NAME'') ''scitrera.ai'',
      br_logo = or_default (env ''SCITRERA_AUTH_BRAND_LOGO_URL'') ''https://scitrera.com/logo2.png'',
      br_tagline = or_default (env ''SCITRERA_AUTH_BRAND_TAGLINE'')
        ''Choose your organization's sign-in method.''\<rparr>"

text \<open>The tenant named by the request, or the configured default; \<open>None\<close> if it is ambiguous.\<close>

definition tenant_hint :: "ext_opts \<Rightarrow> ext_req \<Rightarrow> string option" where
  "tenant_hint opts r =
     (if \<not> er_query_ok r then None
      else case map snd (filter (\<lambda>(k, _). k = ''tenant'') (er_query r)) of
        [] \<Rightarrow> Some (eo_default opts) | [h] \<Rightarrow> Some h | _ \<Rightarrow> None)"

definition logo_ok :: "'a lib_scheme \<Rightarrow> string \<Rightarrow> bool" where
  "logo_ok L logo = (case url_parse L logo of None \<Rightarrow> False
     | Some u \<Rightarrow> up_scheme u = ''https'' \<and> hostname (up_host u) \<noteq> [] \<and> \<not> up_user u)"

definition branding_for_request :: "'a lib_scheme \<Rightarrow> ext_opts \<Rightarrow> ext_env \<Rightarrow> ext_req \<Rightarrow> branding" where
  "branding_for_request L opts env r =
     (let b = branding_with_defaults opts in
      if \<not> eo_repo opts then b
      else case tenant_hint opts r of
        None \<Rightarrow> b
      | Some hint \<Rightarrow>
      (let s = to_lower L (trim_space hint) in
       if \<not> label_re s then b
       else case stmt (ee_fault env) ''branding'' (Inr (get_tenant_by_slug L (ee_db env) s)) of
         Inl e \<Rightarrow> b
       | Inr None \<Rightarrow> b
       | Inr (Some t) \<Rightarrow>
           if \<not> t_enabled t then b
           else let name = trim_space (t_name t); logo = trim_space (t_logo t);
                    b1 = (if name \<noteq> [] then b\<lparr>br_name := name\<rparr> else b)
                in if logo_ok L logo then b1\<lparr>br_logo := logo\<rparr> else b1))"

text \<open>The tenant whose presentation a request may show.\<close>

definition shown_tenant :: "'a lib_scheme \<Rightarrow> ext_opts \<Rightarrow> ext_env \<Rightarrow> ext_req \<Rightarrow> mtenant \<Rightarrow> bool" where
  "shown_tenant L opts env r t \<longleftrightarrow> eo_repo opts \<and> t_enabled t \<and>
     (\<exists>hint. tenant_hint opts r = Some hint \<and> label_re (to_lower L (trim_space hint)) \<and>
        get_tenant_by_slug L (ee_db env) (to_lower L (trim_space hint)) = Some t)"

lemma branding_cases:
  "branding_for_request L opts env r = branding_with_defaults opts \<or>
   (\<exists>t. shown_tenant L opts env r t \<and>
     branding_for_request L opts env r =
       (branding_with_defaults opts)
         \<lparr>br_name := or_default (trim_space (t_name t)) (br_name (branding_with_defaults opts)),
          br_logo := (if logo_ok L (trim_space (t_logo t)) then trim_space (t_logo t)
                      else br_logo (branding_with_defaults opts))\<rparr>)"
proof (cases "eo_repo opts")
  case repo: True
  show ?thesis
  proof (cases "tenant_hint opts r")
    case (Some hint)
    let ?s = "to_lower L (trim_space hint)"
    show ?thesis
    proof (cases "label_re ?s \<and> ee_fault env ''branding'' = None")
      case True
      show ?thesis
      proof (cases "get_tenant_by_slug L (ee_db env) ?s")
        case None
        with True Some repo show ?thesis by (simp add: branding_for_request_def Let_def stmt_def)
      next
        case (Some t)
        with True repo \<open>tenant_hint opts r = Some hint\<close> show ?thesis
          by (cases "t_enabled t")
            (auto simp: branding_for_request_def Let_def stmt_def shown_tenant_def or_default_def)
      qed
    next
      case False
      with Some show ?thesis by (auto simp: branding_for_request_def Let_def stmt_def)
    qed
  qed (simp add: branding_for_request_def Let_def)
qed (simp add: branding_for_request_def Let_def)

end
