(* ===== verification/External_Server.thy ===== *)
theory External_Server
  imports External_Page Resolver_Checks
begin

text \<open>
  \<open>internal/external/server.go\<close>, \<open>landing.go\<close>, \<open>checkz.go\<close> and \<open>logout.go\<close>: the public front
  door as one function from a request to the cookies it sets and its response. Aether's login
  handlers are outside the repository: a forwarded request is the result, and the response of
  their logout is a parameter, a list of calls on the response writer.
\<close>

subsection \<open>Landing\<close>

datatype ext_resp =
    XRedirect nat string
  | XLanding branding
  | XProblem nat string
  | XSession string string "(string \<times> string \<times> string \<times> string) list option"
  | XForward ext_req                             \<comment> \<open>handled by the login mux\<close>
  | XLogout nat "(string \<times> string) list" string  \<comment> \<open>status, headers, body\<close>
  | XSource
  | XHealthy

definition is_authenticated :: "ext_env \<Rightarrow> ext_req \<Rightarrow> bool" where
  "is_authenticated env r =
     (if er_session r = [] then False
      else case ee_session env (er_session r) of Inl e \<Rightarrow> False | Inr d \<Rightarrow> d \<noteq> None)"

definition handle_landing ::
  "'a ext_lib_scheme \<Rightarrow> ext_opts \<Rightarrow> cookie_cfg \<Rightarrow> ext_env \<Rightarrow> ext_req \<Rightarrow> cookie list \<times> ext_resp" where
  "handle_landing L opts c env r =
     (if er_method r \<noteq> ''GET'' \<and> er_method r \<noteq> ''HEAD'' then ([], XProblem 405 ''method not allowed'')
      else
       let rd = first_non_empty (query_get (er_query r) ''rd'') (query_get (er_query r) ''next'') in
       if is_authenticated env r then
         (let rc = read_return_cookie L opts r;
              dest1 = (if rc = [] then eo_target opts
                       else case sanitize_redirect L opts rc of None \<Rightarrow> eo_target opts | Some d \<Rightarrow> d);
              dest = (case sanitize_redirect L opts rd of None \<Rightarrow> dest1 | Some d \<Rightarrow> d)
          in ([clear_return_cookie c], XRedirect 302 dest))
       else
         (case sanitize_redirect L opts rd of None \<Rightarrow> [] | Some d \<Rightarrow> [set_return_cookie L opts c d],
          XLanding (branding_for_request L opts env r)))"

subsection \<open>Session status\<close>

definition checkz_origin_allowed :: "ext_opts \<Rightarrow> ext_req \<Rightarrow> bool" where
  "checkz_origin_allowed opts r =
     (if header_get r ''Sec-Fetch-Mode'' = ''navigate'' \<or> header_get r ''Sec-Fetch-Dest'' = ''document'' then False
      else let origin = header_get r ''Origin'' in
      origin = [] \<or> eo_checkz opts = [] \<or> origin \<in> set (eo_checkz opts))"

definition lookup_session :: "ext_env \<Rightarrow> ext_req \<Rightarrow> err + session_data option" where
  "lookup_session env r = (if er_session r = [] then Inr None else ee_session env (er_session r))"

text \<open>The parallel arrays of a user, slug by slug; a shorter array yields the empty string.\<close>

definition checkz_tenants :: "muser \<Rightarrow> (string \<times> string \<times> string \<times> string) list" where
  "checkz_tenants u =
     map (\<lambda>i. (u_slugs u ! i,
               (if i < length (u_names u) then u_names u ! i else []),
               (if i < length (u_logos u) then u_logos u ! i else []),
               (if i < length (u_dws u) then u_dws u ! i else []))) [0..<length (u_slugs u)]"

definition lookup_tenants ::
  "'a lib_scheme \<Rightarrow> ext_opts \<Rightarrow> ext_env \<Rightarrow> string \<Rightarrow> (string \<times> string \<times> string \<times> string) list option" where
  "lookup_tenants L opts env email =
     (if \<not> eo_repo opts \<or> email = [] then None
      else case stmt (ee_fault env) ''tenants'' (get_user_with_tenants L (ee_db env) email) of
        Inl e \<Rightarrow> None | Inr None \<Rightarrow> None | Inr (Some u) \<Rightarrow> Some (checkz_tenants u))"

definition handle_checkz :: "'a lib_scheme \<Rightarrow> ext_opts \<Rightarrow> ext_env \<Rightarrow> ext_req \<Rightarrow> ext_resp" where
  "handle_checkz L opts env r =
     (if \<not> checkz_origin_allowed opts r then XProblem 403 ''origin not allowed''
      else case lookup_session env r of
        Inl e \<Rightarrow> XProblem 500 ''session lookup failed''
      | Inr None \<Rightarrow> XProblem 401 ''no session''
      | Inr (Some d) \<Rightarrow> XSession (sd_user d) (sd_email d) (lookup_tenants L opts env (sd_email d)))"

subsection \<open>Logout\<close>

text \<open>Calls on a response writer: \<open>Header().Add\<close>, \<open>WriteHeader\<close> and \<open>Write\<close>.\<close>

datatype rw_call = RwHeader string string | RwStatus nat | RwWrite string

record capture =
  cp_header :: "(string \<times> string) list"
  cp_body :: string
  cp_status :: nat               \<comment> \<open>0 is unset\<close>

definition new_capture :: capture where
  "new_capture = \<lparr>cp_header = [], cp_body = [], cp_status = 0\<rparr>"

fun capture_call :: "capture \<Rightarrow> rw_call \<Rightarrow> capture" where
  "capture_call c (RwHeader k v) = c\<lparr>cp_header := cp_header c @ [(k, v)]\<rparr>"
| "capture_call c (RwStatus s) = (if cp_status c = 0 then c\<lparr>cp_status := s\<rparr> else c)"
| "capture_call c (RwWrite p) =
     (let c = (if cp_status c = 0 then c\<lparr>cp_status := 200\<rparr> else c) in c\<lparr>cp_body := cp_body c @ p\<rparr>)"

definition status_code :: "capture \<Rightarrow> nat" where
  "status_code c = (if cp_status c = 0 then 200 else cp_status c)"

definition redirect_logout :: "ext_opts \<Rightarrow> rw_call list \<Rightarrow> ext_resp" where
  "redirect_logout opts calls =
     (let c = foldl capture_call new_capture calls; status = status_code c in
      if status < 200 \<or> 300 \<le> status then XLogout status (cp_header c) (cp_body c)
      else XLogout 303 (filter (\<lambda>(k, v). k = ''Set-Cookie'') (cp_header c) @ [(''Location'', eo_target opts)]) [])"

subsection \<open>Routes\<close>

text \<open>\<open>sanitizeLoginNext\<close>: the request forwarded to the login handler.\<close>

definition sanitize_login_next :: "'a lib_scheme \<Rightarrow> ext_opts \<Rightarrow> ext_req \<Rightarrow> ext_req" where
  "sanitize_login_next L opts r =
     (let nx = query_get (er_query r) ''next'' in
      if nx \<noteq> [] \<and> sanitize_redirect L opts nx = None
      then r\<lparr>er_query := sort_key fst (filter (\<lambda>(k, _). k \<noteq> ''next'') (er_query r))\<rparr>
      else r)"

datatype route = RtSource | RtLogin | RtCallback | RtLogout | RtCheckz | RtNotFound | RtHealthz | RtLanding

definition route_table :: "ext_opts \<Rightarrow> (string \<times> route) list" where
  "route_table opts =
     (if eo_source opts then [(''/source.tar.gz'', RtSource)] else []) @
     [(''/auth/login/'', RtLogin), (''/auth/callback/'', RtCallback), (''/auth/logout'', RtLogout),
      (''/auth/checkz'', RtCheckz), (''/auth/'', RtNotFound), (''/checkz'', RtCheckz),
      (''/healthz'', RtHealthz), (''/login'', RtLanding), (''/'', RtLanding)]"

text \<open>
  \<open>http.ServeMux\<close>: a pattern that ends in a slash matches every path below it, any other one
  exactly itself; the longest match wins. A path that is not clean, and one that only a pattern
  with a trailing slash matches exactly, is redirected. (Escaped slashes are not represented.)
\<close>

definition pattern_matches :: "string \<Rightarrow> string \<Rightarrow> bool" where
  "pattern_matches p path = (if has_suffix p ''/'' then has_prefix path p else path = p)"

fun mux_match :: "(string \<times> route) list \<Rightarrow> string \<Rightarrow> (string \<times> route) option" where
  "mux_match [] path = None"
| "mux_match ((p, rt) # t) path =
     (case mux_match t path of
        None \<Rightarrow> if pattern_matches p path then Some (p, rt) else None
      | Some (q, rt') \<Rightarrow>
          if pattern_matches p path \<and> length q < length p then Some (p, rt) else Some (q, rt'))"

definition external_serve ::
  "'a ext_lib_scheme \<Rightarrow> ext_opts \<Rightarrow> cookie_cfg \<Rightarrow> (ext_req \<Rightarrow> rw_call list) \<Rightarrow> ext_env \<Rightarrow> ext_req \<Rightarrow>
   cookie list \<times> ext_resp" where
  "external_serve L opts c oss_logout env r =
     (let t = route_table opts; path = clean_path L (er_path r); slashed = path @ ''/'' in
      if \<not> has_suffix path ''/'' \<and> path \<notin> fst ` set t \<and> slashed \<in> fst ` set t then ([], XRedirect 301 slashed)
      else if path \<noteq> er_path r then ([], XRedirect 301 path)
      else case mux_match t path of
        None \<Rightarrow> ([], XProblem 404 ''not found'')
      | Some (_, rt) \<Rightarrow>
      (case rt of
         RtSource \<Rightarrow> ([], XSource)
       | RtLogin \<Rightarrow> ([], XForward (sanitize_login_next L opts r))
       | RtCallback \<Rightarrow> ([], XForward r)
       | RtLogout \<Rightarrow>
           ([], if er_method r \<noteq> ''POST'' then XProblem 405 ''method not allowed''
                else redirect_logout opts (oss_logout r))
       | RtCheckz \<Rightarrow> ([], handle_checkz L opts env r)
       | RtNotFound \<Rightarrow> ([], XProblem 404 ''not found'')
       | RtHealthz \<Rightarrow> ([], XHealthy)
       | RtLanding \<Rightarrow> handle_landing L opts c env r))"

end
