(* ===== verification/Observability.thy ===== *)
theory Observability
  imports Go_Strings
begin

text \<open>
  \<open>internal/observability\<close>: \<open>Init\<close> with its deferred \<open>Shutdown\<close>, and the HTTP instrumentation. The
  OpenTelemetry and Prometheus packages are outside the repository: each of their constructors
  can fail, and the providers they build are named by what they provide. \<open>Init\<close> is its result
  together with the providers it created, set globally and shut down, in order.
\<close>

subsection \<open>Providers\<close>

datatype provider = TracerProvider | MeterProvider

datatype otel_action = CreateProvider provider | ShutdownProvider provider | SetGlobal provider | SetPropagator

record telemetry =
  tl_metrics :: bool                  \<comment> \<open>the scrape handler is there (\<open>Metrics \<noteq> nil\<close>)\<close>
  tl_shutdown :: "provider list"

text \<open>What the packages answer: the failure of a constructor, by its name.\<close>

type_synonym otel_faults = "string \<Rightarrow> string option"

subsection \<open>\<open>Shutdown\<close>\<close>

text \<open>Every provider is shut down, whatever the others answer; the errors are joined.\<close>

definition telemetry_shutdown :: "(provider \<Rightarrow> string option) \<Rightarrow> telemetry \<Rightarrow> otel_action list \<times> string list" where
  "telemetry_shutdown closes t =
     (map ShutdownProvider (tl_shutdown t), concat (map (\<lambda>p. case closes p of None \<Rightarrow> [] | Some e \<Rightarrow> [e]) (tl_shutdown t)))"

subsection \<open>\<open>Init\<close>\<close>

definition otlp_enabled :: "(string \<Rightarrow> string) \<Rightarrow> string \<Rightarrow> bool" where
  "otlp_enabled env signal \<longleftrightarrow> env ''OTEL_EXPORTER_OTLP_ENDPOINT'' \<noteq> [] \<or>
     env (''OTEL_EXPORTER_OTLP_'' @ signal @ ''_ENDPOINT'') \<noteq> []"

definition otlp_protocol :: "(string \<Rightarrow> string) \<Rightarrow> string \<Rightarrow> string option" where
  "otlp_protocol env signal =
     (let v = env (''OTEL_EXPORTER_OTLP_'' @ signal @ ''_PROTOCOL'');
          v = (if v = [] then env ''OTEL_EXPORTER_OTLP_PROTOCOL'' else v) in
      if v \<noteq> [] \<and> v \<noteq> ''grpc'' then Some (''OTLP protocol unsupported: '' @ v) else None)"

text \<open>One signal's exporter: nothing unless enabled, then the protocol check, then the constructor.\<close>

definition otlp_exporter :: "(string \<Rightarrow> string) \<Rightarrow> otel_faults \<Rightarrow> string \<Rightarrow> string + bool" where
  "otlp_exporter env flt signal =
     (if \<not> otlp_enabled env signal then Inr False
      else case otlp_protocol env signal of Some e \<Rightarrow> Inl e
      | None \<Rightarrow> case flt (''exporter:'' @ signal) of Some e \<Rightarrow> Inl e | None \<Rightarrow> Inr True)"

text \<open>The deferred call: an error shuts down what \<open>t\<close> holds at that moment.\<close>

definition init_failed :: "string \<Rightarrow> telemetry \<Rightarrow> otel_action list \<Rightarrow> (string + telemetry) \<times> otel_action list" where
  "init_failed e t acts = (Inl e, acts @ fst (telemetry_shutdown (\<lambda>_. None) t))"

definition telemetry_init ::
  "(string \<Rightarrow> string) \<Rightarrow> otel_faults \<Rightarrow> bool \<Rightarrow> (string + telemetry) \<times> otel_action list" where
  "telemetry_init env flt prometheus =
     (let t0 = \<lparr>tl_metrics = False, tl_shutdown = []\<rparr> in
      case flt ''resource'' of Some e \<Rightarrow> init_failed e t0 []
      | None \<Rightarrow>
      case (if prometheus then flt ''prometheus'' else None) of Some e \<Rightarrow> init_failed e t0 []
      | None \<Rightarrow>
      let t1 = t0\<lparr>tl_metrics := prometheus\<rparr> in
      case otlp_exporter env flt ''TRACES'' of Inl e \<Rightarrow> init_failed e t1 []
      | Inr traces \<Rightarrow>
      let t2 = (if traces then t1\<lparr>tl_shutdown := tl_shutdown t1 @ [TracerProvider]\<rparr> else t1);
          a2 = (if traces then [CreateProvider TracerProvider, SetGlobal TracerProvider] else []) in
      case otlp_exporter env flt ''METRICS'' of Inl e \<Rightarrow> init_failed e t2 a2
      | Inr metrics \<Rightarrow>
      if prometheus \<or> otlp_enabled env ''METRICS'' then
        (let t3 = t2\<lparr>tl_shutdown := tl_shutdown t2 @ [MeterProvider]\<rparr>;
             a3 = a2 @ [CreateProvider MeterProvider, SetGlobal MeterProvider] in
         case flt ''runtime'' of Some e \<Rightarrow> init_failed e t3 a3
         | None \<Rightarrow> (Inr t3, a3 @ [SetPropagator]))
      else (Inr t2, a2 @ [SetPropagator]))"

subsection \<open>\<open>HTTP\<close>\<close>

text \<open>
  The instrumented handler: the wrapped handler's answer, and a span with its operation and its
  \<open>auth.surface\<close> label unless the path is filtered out.
\<close>

record span =
  sp_operation :: string
  sp_surface :: string

definition traced :: "string \<Rightarrow> bool" where
  "traced path \<longleftrightarrow> path \<noteq> ''/healthz'' \<and> path \<noteq> ''/metrics''"

definition otel_http :: "('r \<Rightarrow> 'a) \<Rightarrow> string \<Rightarrow> ('r \<Rightarrow> string) \<Rightarrow> 'r \<Rightarrow> 'a \<times> span list" where
  "otel_http next surface path r =
     (next r, if traced (path r) then [\<lparr>sp_operation = ''auth-go-'' @ surface, sp_surface = surface\<rparr>] else [])"

subsection \<open>Properties\<close>

text \<open>The providers alive after a sequence of actions.\<close>

fun alive :: "otel_action list \<Rightarrow> provider list" where
  "alive [] = []"
| "alive (CreateProvider p # r) = (if ShutdownProvider p \<in> set r then alive r else p # alive r)"
| "alive (_ # r) = alive r"

lemma init_failed_cases:
  "init_failed e t acts = (Inl e, acts @ map ShutdownProvider (tl_shutdown t))"
  by (simp add: init_failed_def telemetry_shutdown_def)

lemma otlp_exporter_Inr:
  "otlp_exporter env flt signal = Inr b \<Longrightarrow> b = otlp_enabled env signal \<and> (b \<longrightarrow> otlp_protocol env signal = None)"
  by (auto simp: otlp_exporter_def split: if_split_asm option.splits)

text \<open>C20. Telemetry starts completely or not at all. A failed \<open>Init\<close> has shut down every provider it
  created; a successful one leaves alive exactly the providers that its \<open>Shutdown\<close> ends: a
  tracer only if an OTLP endpoint for traces is set, a meter only for OTLP metrics or the
  scrape handler, which is there exactly when asked for; and no enabled signal has a protocol
  other than gRPC. Afterwards \<open>Shutdown\<close> leaves nothing alive, whatever the providers answer.\<close>

theorem telemetry_settles:
  "case telemetry_init env flt prometheus of
      (Inl e, acts) \<Rightarrow> alive acts = []
    | (Inr t, acts) \<Rightarrow>
        alive acts = tl_shutdown t \<and> alive (acts @ fst (telemetry_shutdown closes t)) = [] \<and>
        tl_metrics t = prometheus \<and>
        (TracerProvider \<in> set (tl_shutdown t) \<longleftrightarrow> otlp_enabled env ''TRACES'') \<and>
        (MeterProvider \<in> set (tl_shutdown t) \<longleftrightarrow> prometheus \<or> otlp_enabled env ''METRICS'') \<and>
        (\<forall>signal \<in> {''TRACES'', ''METRICS''}. otlp_enabled env signal \<longrightarrow> otlp_protocol env signal = None)"
proof -
  note x = otlp_exporter_Inr [of env flt]
  show ?thesis
    by (cases "flt ''resource''"; cases "if prometheus then flt ''prometheus'' else None";
        cases "otlp_exporter env flt ''TRACES''"; cases "otlp_exporter env flt ''METRICS''"; cases "flt ''runtime''")
      (auto simp: telemetry_init_def Let_def init_failed_cases telemetry_shutdown_def dest: x)
qed

definition otel_demo_env :: "string \<Rightarrow> string" where
  "otel_demo_env n = (if n = ''OTEL_EXPORTER_OTLP_TRACES_ENDPOINT'' then ''http://otel:4317''
     else if n = ''OTEL_EXPORTER_OTLP_PROTOCOL'' then ''grpc'' else [])"

theorem telemetry_settles_witness:
  "\<exists>t acts. telemetry_init otel_demo_env (\<lambda>_. None) True = (Inr t, acts) \<and>
     tl_shutdown t = [TracerProvider, MeterProvider] \<and> alive acts = [TracerProvider, MeterProvider]"
proof -
  let ?t = "\<lparr>tl_metrics = True, tl_shutdown = [TracerProvider, MeterProvider]\<rparr>"
  have "fst (telemetry_init otel_demo_env (\<lambda>_. None) True) = Inr ?t" by code_simp
  then obtain acts where r: "telemetry_init otel_demo_env (\<lambda>_. None) True = (Inr ?t, acts)"
    by (cases "telemetry_init otel_demo_env (\<lambda>_. None) True") simp
  from telemetry_settles [where env = otel_demo_env and flt = "\<lambda>_. None" and prometheus = True]
  have "alive acts = [TracerProvider, MeterProvider]" by (simp add: r)
  with r show ?thesis by simp
qed

text \<open>Without OTLP settings only the scrape handler brings a provider.\<close>

lemma telemetry_plain:
  assumes "\<And>n. has_prefix n ''OTEL_'' \<Longrightarrow> env n = []"
  shows "fst (telemetry_init env (\<lambda>_. None) p) =
    Inr \<lparr>tl_metrics = p, tl_shutdown = (if p then [MeterProvider] else [])\<rparr>"
proof -
  have "otlp_enabled env signal = False" for signal
    using assms by (simp add: otlp_enabled_def has_prefix_def)
  then show ?thesis by (simp add: telemetry_init_def otlp_exporter_def Let_def)
qed

text \<open>The instrumentation never changes an answer, and liveness probes and scrapes leave no span.\<close>

lemma otel_http_transparent:
  "fst (otel_http next surface path r) = next r \<and>
   (snd (otel_http next surface path r) = [] \<longleftrightarrow> path r \<in> {''/healthz'', ''/metrics''})"
  by (auto simp: otel_http_def traced_def)

end
