(* ===== verification/External_Response.thy ===== *)
theory External_Response
  imports External_Server Observability
begin

text \<open>
  What the front door puts on the wire: the response of \<open>External_Server\<close> as calls on the
  \<open>http.ResponseWriter\<close>, the writer's own rules, \<open>withRecover\<close> around a handler that may panic
  after any of its calls, and the instrumentation around that (\<open>server.go\<close>, \<open>page.go\<close>).
\<close>

subsection \<open>The response writer\<close>

datatype wcall = WSet string string | WAdd string string | WStatus nat | WBody string

text \<open>
  The first status, or the first write, sends the headers set by then; a later status and later
  headers change nothing. An informational status sends nothing. (The server drops the body of
  an answer to HEAD after that.)
\<close>

record writer =
  wr_header :: "(string \<times> string) list"
  wr_sent :: "(nat \<times> (string \<times> string) list) option"     \<comment> \<open>status and headers, once on the wire\<close>
  wr_body :: string

definition new_writer :: writer where
  "new_writer = \<lparr>wr_header = [], wr_sent = None, wr_body = []\<rparr>"

definition commit :: "nat \<Rightarrow> writer \<Rightarrow> writer" where
  "commit n w = (if wr_sent w = None \<and> (n < 100 \<or> 200 \<le> n \<or> n = 101) then w\<lparr>wr_sent := Some (n, wr_header w)\<rparr> else w)"

fun write_call :: "writer \<Rightarrow> wcall \<Rightarrow> writer" where
  "write_call w (WSet k v) = w\<lparr>wr_header := filter (\<lambda>(k', _). k' \<noteq> k) (wr_header w) @ [(k, v)]\<rparr>"
| "write_call w (WAdd k v) = w\<lparr>wr_header := wr_header w @ [(k, v)]\<rparr>"
| "write_call w (WStatus n) = commit n w"
| "write_call w (WBody s) = (let w = commit 200 w in w\<lparr>wr_body := wr_body w @ s\<rparr>)"

text \<open>What the client gets: status, headers and body.\<close>

definition reply :: "wcall list \<Rightarrow> nat \<times> (string \<times> string) list \<times> string" where
  "reply cs = (let w = foldl write_call new_writer cs in
     case wr_sent w of None \<Rightarrow> (200, wr_header w, wr_body w) | Some (n, h) \<Rightarrow> (n, h, wr_body w))"

text \<open>\<open>http.Error\<close>\<close>

definition http_error :: "nat \<Rightarrow> string \<Rightarrow> wcall list" where
  "http_error n msg = [WSet ''Content-Type'' ''text/plain; charset=utf-8'', WSet ''X-Content-Type-Options'' ''nosniff'',
     WStatus n, WBody (msg @ [CHR 0x0A])]"

definition quoted :: "string \<Rightarrow> string" where
  "quoted s = [CHR 0x27] @ s @ [CHR 0x27]"

definition json_type :: wcall where
  "json_type = WSet ''Content-Type'' ''application/json''"

definition json_error :: "string \<Rightarrow> string" where
  "json_error msg = [CHR ''{'', CHR 0x22] @ ''error'' @ [CHR 0x22, CHR '':'', CHR 0x22] @ msg @ [CHR 0x22, CHR ''}'']"

subsection \<open>Handlers\<close>

text \<open>
  The texts other packages produce: the rendered template (a failed rendering has written a
  part), a cookie line, the session's JSON, the location and the link of a redirect; and the
  handlers outside the repository or serving a fixed file.
\<close>

record reply_lib =
  rl_page :: "branding \<Rightarrow> provider_button list \<Rightarrow> string"
  rl_cookie :: "cookie \<Rightarrow> string"
  rl_session :: "string \<Rightarrow> string \<Rightarrow> (string \<times> string \<times> string \<times> string) list option \<Rightarrow> string"
  rl_location :: "string \<Rightarrow> string"
  rl_link :: "nat \<Rightarrow> string \<Rightarrow> string"
  rl_source :: "wcall list"
  rl_login :: "ext_req \<Rightarrow> wcall list"

definition render_landing :: "reply_lib \<Rightarrow> provider_button list \<Rightarrow> branding \<Rightarrow> wcall list" where
  "render_landing R buttons b =
     [WSet ''Content-Type'' ''text/html; charset=utf-8'', WSet ''Cache-Control'' ''no-store'',
      WSet ''X-Content-Type-Options'' ''nosniff'', WSet ''X-Frame-Options'' ''DENY'',
      WSet ''Referrer-Policy'' ''strict-origin-when-cross-origin'',
      WSet ''Content-Security-Policy'' (''default-src '' @ quoted ''none'' @ ''; img-src '' @ quoted ''self'' @
        '' https: data:; style-src '' @ quoted ''unsafe-inline'' @ ''; base-uri '' @ quoted ''none'' @
        ''; frame-ancestors '' @ quoted ''none''),
      WBody (rl_page R b buttons)]"

definition handle_healthz :: "wcall list" where
  "handle_healthz = [json_type, WStatus 200,
     WBody ([CHR ''{'', CHR 0x22] @ ''status'' @ [CHR 0x22, CHR '':'', CHR 0x22] @ ''ok'' @ [CHR 0x22, CHR ''}''])]"

definition handle_not_found :: "wcall list" where
  "handle_not_found = http_error 404 (json_error ''not found'')"

definition guard_refusal :: "wcall list" where
  "guard_refusal = [json_type, WStatus 405, WBody (json_error ''method not allowed'')]"

definition checkz_headers :: "wcall list" where
  "checkz_headers = [json_type, WSet ''Cache-Control'' ''no-store'']"

text \<open>\<open>http.Redirect\<close>; only a GET gets the link.\<close>

definition http_redirect :: "reply_lib \<Rightarrow> ext_req \<Rightarrow> nat \<Rightarrow> string \<Rightarrow> wcall list" where
  "http_redirect R r n dest =
     [WSet ''Location'' (rl_location R dest)] @
     (if er_method r \<in> {''GET'', ''HEAD''} then [WSet ''Content-Type'' ''text/html; charset=utf-8''] else []) @
     [WStatus n] @ (if er_method r = ''GET'' then [WBody (rl_link R n dest)] else [])"

definition respond :: "reply_lib \<Rightarrow> provider_button list \<Rightarrow> ext_req \<Rightarrow> ext_resp \<Rightarrow> wcall list" where
  "respond R buttons r resp =
     (case resp of
        XRedirect n dest \<Rightarrow> http_redirect R r n dest
      | XLanding b \<Rightarrow> render_landing R buttons b
      | XProblem n msg \<Rightarrow>
          if n = 404 then handle_not_found
          else if n = 405 then
            (if er_path r = ''/auth/logout'' then guard_refusal else http_error 405 (json_error ''method not allowed''))
          else checkz_headers @ [WStatus n, WBody (json_error msg)]
      | XSession uid email tenants \<Rightarrow> checkz_headers @ [WBody (rl_session R uid email tenants)]
      | XForward r' \<Rightarrow> rl_login R r'
      | XLogout n hs body \<Rightarrow> map (\<lambda>(k, v). WAdd k v) hs @ [WStatus n] @ (if body = [] then [] else [WBody body])
      | XSource \<Rightarrow> rl_source R
      | XHealthy \<Rightarrow> handle_healthz)"

subsection \<open>Panics and instrumentation\<close>

text \<open>A handler that panics after its first \<open>k\<close> calls, or not at all.\<close>

definition run_handler :: "nat option \<Rightarrow> wcall list \<Rightarrow> wcall list \<times> bool" where
  "run_handler panics calls = (case panics of None \<Rightarrow> (calls, False) | Some k \<Rightarrow> (take k calls, True))"

definition with_recover :: "wcall list \<times> bool \<Rightarrow> wcall list" where
  "with_recover h = (case h of (calls, panicked) \<Rightarrow>
     if panicked then calls @ [json_type, WStatus 500, WBody (json_error ''internal server error'')] else calls)"

definition front_door ::
  "'a ext_lib_scheme \<Rightarrow> reply_lib \<Rightarrow> ext_opts \<Rightarrow> cookie_cfg \<Rightarrow> provider_button list \<Rightarrow> (ext_req \<Rightarrow> rw_call list) \<Rightarrow>
   ext_env \<Rightarrow> nat option \<Rightarrow> ext_req \<Rightarrow> wcall list \<times> span list" where
  "front_door L R opts c buttons oss_logout env panics =
     otel_http (\<lambda>r. case external_serve L opts c oss_logout env r of (cookies, resp) \<Rightarrow>
       with_recover (run_handler panics
         (map (\<lambda>k. WAdd ''Set-Cookie'' (rl_cookie R k)) cookies @ respond R buttons r resp)))
     ''external'' er_path"

subsection \<open>Properties\<close>

lemma commit_sent [simp]: "wr_sent w = Some x \<Longrightarrow> commit n w = w"
  by (simp add: commit_def)

lemma commit_body [simp]: "wr_body (commit n w) = wr_body w"
  by (simp add: commit_def)

text \<open>Once sent, status and headers stay, and the body only grows.\<close>

lemma write_calls_sent:
  "wr_sent w = Some x \<Longrightarrow> wr_sent (foldl write_call w cs) = Some x \<and>
   (\<exists>s. wr_body (foldl write_call w cs) = wr_body w @ s)"
proof (induction cs arbitrary: w)
  case (Cons a cs)
  have w: "wr_sent (write_call w a) = Some x" "\<exists>s. wr_body (write_call w a) = wr_body w @ s"
    using Cons.prems by (cases a; simp add: Let_def)+
  from Cons.IH [OF w(1)] w(2) show ?case by auto
qed simp

text \<open>Nothing of the body leaves before the headers.\<close>

lemma write_calls_unsent:
  "wr_sent (foldl write_call new_writer cs) = None \<Longrightarrow> wr_body (foldl write_call new_writer cs) = []"
proof (induction cs rule: rev_induct)
  case (snoc a cs)
  have "wr_sent (foldl write_call new_writer cs) = None"
  proof (rule ccontr)
    assume "wr_sent (foldl write_call new_writer cs) \<noteq> None"
    then obtain x where "wr_sent (foldl write_call new_writer cs) = Some x" by blast
    from write_calls_sent [OF this, of "[a]"] snoc.prems show False by simp
  qed
  with snoc show ?case by (cases a) (auto simp: Let_def commit_def split: if_split_asm)
qed (simp add: new_writer_def)

definition panic_body :: string where
  "panic_body = json_error ''internal server error''"

text \<open>A recovered panic: the answer under way with the error appended, or a 500 of its own.\<close>

lemma recovered_reply:
  assumes "reply (with_recover (take k cs, True)) = (n, h, b)" and "reply cs = (n', h', b')"
  shows "n = n' \<and> h = h' \<and> (\<exists>s t. b' = s @ t \<and> b = s @ panic_body) \<or>
    n = 500 \<and> (''Content-Type'', ''application/json'') \<in> set h \<and> b = panic_body"
proof -
  let ?w = "foldl write_call new_writer (take k cs)"
  have split: "foldl write_call new_writer cs = foldl write_call ?w (drop k cs)"
    by (metis append_take_drop_id foldl_append)
  show ?thesis
  proof (cases "wr_sent ?w")
    case None
    with assms(1) write_calls_unsent [of "take k cs"] show ?thesis
      by (auto simp: reply_def with_recover_def json_type_def commit_def panic_body_def Let_def)
  next
    case (Some x)
    from write_calls_sent [OF Some, of "drop k cs"] assms Some show ?thesis
      by (cases x) (auto simp: reply_def with_recover_def json_type_def panic_body_def Let_def split)
  qed
qed

lemma foldl_adds:
  "foldl write_call w (map (\<lambda>k. WAdd (f k) (g k)) ks) = w\<lparr>wr_header := wr_header w @ map (\<lambda>k. (f k, g k)) ks\<rparr>"
  by (induction ks arbitrary: w) auto

definition landing_guards :: "(string \<times> string) list" where
  "landing_guards = [(''Content-Type'', ''text/html; charset=utf-8''), (''Cache-Control'', ''no-store''),
     (''X-Content-Type-Options'', ''nosniff''), (''X-Frame-Options'', ''DENY'')]"

definition session_guards :: "(string \<times> string) list" where
  "session_guards = [(''Content-Type'', ''application/json''), (''Cache-Control'', ''no-store'')]"

lemma landing_reply:
  "reply (map (\<lambda>k. WAdd ''Set-Cookie'' (g k)) ks @ respond R buttons r (XLanding b)) = (n, h, s) \<Longrightarrow>
   n = 200 \<and> set landing_guards \<subseteq> set h \<and> s = rl_page R b buttons"
  by (auto simp: reply_def respond_def render_landing_def foldl_adds commit_def new_writer_def landing_guards_def Let_def)

lemma session_reply:
  "reply (map (\<lambda>k. WAdd ''Set-Cookie'' (g k)) ks @ respond R buttons r (XSession u e ts)) = (n, h, s) \<Longrightarrow>
   n = 200 \<and> set session_guards \<subseteq> set h \<and> s = rl_session R u e ts"
  by (auto simp: reply_def respond_def checkz_headers_def json_type_def foldl_adds commit_def new_writer_def
      session_guards_def Let_def)

lemma redirect_reply:
  assumes "reply (map (\<lambda>k. WAdd ''Set-Cookie'' (g k)) ks @ respond R buttons r (XRedirect m dest)) = (n, h, s)" "200 \<le> m"
  shows "n = m \<and> (''Location'', rl_location R dest) \<in> set h \<and> (\<forall>k \<in> set ks. (''Set-Cookie'', g k) \<in> set h)"
  using assms by (auto simp: reply_def respond_def http_redirect_def foldl_adds commit_def new_writer_def Let_def split: if_split_asm)

text \<open>C19. What reaches the browser, wherever a handler panics: either the status and headers of
  the complete answer, with a part of its body and at most the error after it, or a JSON 500 of
  its own that says nothing else. A sign-in page never goes out without its content type,
  no-store, nosniff and DENY headers, nor a session's data without JSON and no-store, and none
  of either in an error.\<close>

theorem front_replies:
  "case (external_serve L opts c oss_logout env r,
         reply (fst (front_door L R opts c buttons oss_logout env panics r)),
         reply (fst (front_door L R opts c buttons oss_logout env None r))) of
     ((cookies, resp), (n, h, b), (n', h', b')) \<Rightarrow>
       (n = n' \<and> h = h' \<and> (\<exists>s t. b' = s @ t \<and> b \<in> {s, s @ panic_body}) \<or>
        panics \<noteq> None \<and> n = 500 \<and> (''Content-Type'', ''application/json'') \<in> set h \<and> b = panic_body) \<and>
       (case resp of
          XLanding br \<Rightarrow> n = 200 \<and> set landing_guards \<subseteq> set h \<and> b' = rl_page R br buttons \<or> n = 500 \<and> b = panic_body
        | XSession u e ts \<Rightarrow> n = 200 \<and> set session_guards \<subseteq> set h \<and> b' = rl_session R u e ts \<or> n = 500 \<and> b = panic_body
        | _ \<Rightarrow> True)"
proof -
  obtain cookies resp where x: "external_serve L opts c oss_logout env r = (cookies, resp)" by fastforce
  let ?cs = "map (\<lambda>k. WAdd ''Set-Cookie'' (rl_cookie R k)) cookies @ respond R buttons r resp"
  have door: "fst (front_door L R opts c buttons oss_logout env p r) = with_recover (run_handler p ?cs)" for p
    by (simp add: front_door_def otel_http_def x)
  obtain n' h' b' where f: "reply ?cs = (n', h', b')" by (metis prod_cases3)
  obtain n h b where p: "reply (with_recover (run_handler panics ?cs)) = (n, h, b)" by (metis prod_cases3)
  have full: "with_recover (run_handler None ?cs) = ?cs" by (simp add: with_recover_def run_handler_def)
  have cut: "n = n' \<and> h = h' \<and> (\<exists>s t. b' = s @ t \<and> b \<in> {s, s @ panic_body}) \<or>
      panics \<noteq> None \<and> n = 500 \<and> (''Content-Type'', ''application/json'') \<in> set h \<and> b = panic_body"
  proof (cases panics)
    case None
    then show ?thesis using p f full by auto
  next
    case (Some k)
    with p have "reply (with_recover (take k ?cs, True)) = (n, h, b)" by (simp add: run_handler_def)
    from recovered_reply [OF this f] Some show ?thesis by blast
  qed
  have "case resp of
      XLanding br \<Rightarrow> n = 200 \<and> set landing_guards \<subseteq> set h \<and> b' = rl_page R br buttons \<or> n = 500 \<and> b = panic_body
    | XSession u e ts \<Rightarrow> n = 200 \<and> set session_guards \<subseteq> set h \<and> b' = rl_session R u e ts \<or> n = 500 \<and> b = panic_body
    | _ \<Rightarrow> True"
    using cut f landing_reply [of "rl_cookie R" cookies R buttons r _ n' h' b']
      session_reply [of "rl_cookie R" cookies R buttons r _ _ _ n' h' b']
    by (cases resp) (simp_all, blast+)
  with cut show ?thesis by (simp add: x door full f p)
qed

end
