(* ===== verification/Process.thy ===== *)
theory Process
  imports Admin_Setup Schema Listeners Resolver External_Response
begin

text \<open>
  \<open>cmd/scitrera-auth-proxy\<close>: the operator commands of \<open>commands.go\<close>, and \<open>run\<close> of \<open>main.go\<close> up to
  the moment the planes are served, with the resources it opens and closes on every return.
\<close>

subsection \<open>The world and the packages outside\<close>

record world =
  wo_fs :: fs
  wo_catalog :: catalog

record login_provider =
  lo_name :: string
  lo_issuer :: string
  lo_client :: string
  lo_redirect :: string

text \<open>
  \<open>pkgauthproxy.LoginConfig\<close> and what its builders answer; \<open>lg_store\<close> is the session store with
  whether it can list sessions and whether it comes with a Redis client.
\<close>

record login_cfg =
  lg_enabled :: bool
  lg_providers :: "login_provider list"
  lg_store :: "(string \<times> bool \<times> bool) option"
  lg_registry :: bool
  lg_handlers :: bool

record outside =
  ou_flags :: "string list \<Rightarrow> (string \<times> string \<times> nat) option"   \<comment> \<open>\<open>flag\<close>: token file, operator, \<open>NArg\<close>\<close>
  ou_token :: string                                       \<comment> \<open>\<open>randomToken\<close>\<close>
  ou_dsn :: "string \<Rightarrow> bool"                                 \<comment> \<open>\<open>sql.Open\<close> accepts the data source\<close>
  ou_ping :: "string \<Rightarrow> bool"                                \<comment> \<open>the database answers the ping in time\<close>
  ou_faults :: faults
  ou_config :: "(string \<Rightarrow> string) \<Rightarrow> string option"          \<comment> \<open>\<open>LoadConfigFromEnv\<close>: listen address\<close>
  ou_otel :: otel_faults
  ou_login :: "(string \<Rightarrow> string) \<Rightarrow> login_cfg option"
  ou_duration :: "string \<Rightarrow> int option"                     \<comment> \<open>\<open>time.ParseDuration\<close>\<close>
  ou_search_path :: "string \<Rightarrow> string option"               \<comment> \<open>the URL with \<open>search_path\<close> set\<close>
  ou_same :: bool                                          \<comment> \<open>the token file is not replaced during the read\<close>

subsection \<open>The registry's connection pool\<close>

datatype resource = Telemetry | RegistryPool | AdminRedis | FrontRedis

datatype action = Open resource | Close resource

record pool =
  pl_max_open :: nat
  pl_max_idle :: nat

text \<open>\<open>mtdb.New\<close>: a pool whose first ping fails is closed again.\<close>

definition mtdb_new :: "outside \<Rightarrow> string \<Rightarrow> (string + pool) \<times> action list" where
  "mtdb_new X dsn =
     (if \<not> ou_dsn X dsn then (Inl ''open db'', [])
      else if \<not> ou_ping X dsn then (Inl ''ping db'', [Open RegistryPool, Close RegistryPool])
      else (Inr \<lparr>pl_max_open = 10, pl_max_idle = 5\<rparr>, [Open RegistryPool]))"

definition mtdb_close :: "action list" where
  "mtdb_close = [Close RegistryPool]"

subsection \<open>Commands\<close>

datatype command_result = NotHandled | Handled "string option"

definition command ::
  "'a setup_lib_scheme \<Rightarrow> outside \<Rightarrow> (string \<Rightarrow> string) \<Rightarrow> string list \<Rightarrow> world \<Rightarrow> command_result \<times> world" where
  "command A X env args w =
     (case args of
        [] \<Rightarrow> (NotHandled, w)
      | name # rest \<Rightarrow>
          if name = ''version'' then (Handled None, w)
          else if name = ''bootstrap'' then
            (case ou_flags X rest of
               None \<Rightarrow> (Handled (Some ''flags''), w)
             | Some (path, operator, nargs) \<Rightarrow>
                 if nargs \<noteq> 0 then (Handled (Some ''unexpected bootstrap arguments''), w)
                 else case bootstrap A (ou_token X) path operator (wo_fs w) of
                   Inl e \<Rightarrow> (Handled (Some ''bootstrap''), w)
                 | Inr fs' \<Rightarrow> (Handled None, w\<lparr>wo_fs := fs'\<rparr>))
          else if name = ''migrate'' then
            (if rest \<noteq> [] then (Handled (Some ''migrate takes no arguments''), w)
             else if env ''SCITRERA_MT_DB_URL'' = [] then (Handled (Some ''SCITRERA_MT_DB_URL is required''), w)
             else case fst (mtdb_new X (env ''SCITRERA_MT_DB_URL'')) of Inl e \<Rightarrow> (Handled (Some e), w)
             | Inr _ \<Rightarrow>
             case migrate (ou_faults X) (wo_catalog w) of
               Inl e \<Rightarrow> (Handled (Some ''migrate''), w)
             | Inr c \<Rightarrow> (Handled None, w\<lparr>wo_catalog := c\<rparr>))
          else if name \<in> {''help'', ''-h'', ''--help''} then (Handled None, w)
          else (Handled (Some (''unknown command '' @ name)), w))"

subsection \<open>The dashboard's files\<close>

text \<open>
  \<open>adminui.Handler\<close>: without a built dashboard the preparation page; the browser routes reload
  the dashboard's page; anything else goes to the file server.
\<close>

datatype ui_reply = UiPrepare | UiIndex bool | UiFile string

definition ui_serve :: "bool \<Rightarrow> string \<Rightarrow> string \<Rightarrow> ui_reply" where
  "ui_serve built m path =
     (if \<not> built then UiPrepare
      else let p = (if has_prefix path ''/admin/'' then drop 7 path else path);
               area = takeWhile (\<lambda>c. c \<noteq> CHR ''/'') p in
      if area \<in> {''tenants'', ''users'', ''status''} then UiIndex (m \<noteq> ''HEAD'') else UiFile p)"

subsection \<open>Startup\<close>

definition parse_dur :: "outside \<Rightarrow> string \<Rightarrow> int \<Rightarrow> int" where
  "parse_dur X s d = (if s = [] then d else case ou_duration X s of Some n \<Rightarrow> n | None \<Rightarrow> d)"

definition search_path_suffix :: string where
  "search_path_suffix = '' search_path='' @ [CHR 0x27] @ ''auth_proxy,public'' @ [CHR 0x27]"

definition proxy_dsn :: "outside \<Rightarrow> string \<Rightarrow> string" where
  "proxy_dsn X dsn =
     (if has_prefix dsn ''postgres://'' \<or> has_prefix dsn ''postgresql://'' then
        (case ou_search_path X dsn of Some u \<Rightarrow> u | None \<Rightarrow> dsn @ search_path_suffix)
      else dsn @ search_path_suffix)"

definition provider_info :: "login_provider \<Rightarrow> string \<times> bool \<times> string list" where
  "provider_info p =
     (lo_name p, lo_issuer p \<noteq> [] \<and> lo_client p \<noteq> [] \<and> lo_redirect p \<noteq> [],
      [''email'', ''sub''] @
      (if lo_name p \<in> {''azure'', ''entra'', ''microsoft''} then [''tid'']
       else if lo_name p = ''google'' then [''hd''] else []))"

text \<open>The options of the front door, from the environment.\<close>

definition external_options :: "(string \<Rightarrow> string) \<Rightarrow> ext_opts" where
  "external_options env =
     \<lparr>eo_source = True, eo_target = env ''SCITRERA_AUTH_POST_LOGIN_TARGET'',
      eo_hosts = split_csv (env ''SCITRERA_AUTH_ALLOWED_REDIRECT_HOSTS''),
      eo_origins = split_csv (env ''SCITRERA_AUTH_ALLOWED_REDIRECT_ORIGINS''),
      eo_key = env ''AUTH_PROXY_TOKEN_HMAC_KEY'', eo_brand = branding_from_env env,
      eo_default = env ''SCITRERA_AUTH_LOGIN_DEFAULT_TENANT'',
      eo_checkz = split_csv (env ''SCITRERA_AUTH_CHECKZ_ALLOWED_ORIGINS''), eo_repo = True\<rparr>"

text \<open>
  \<open>external.New\<close>: the sign-in buttons of the registry's providers; the Redis client of its session
  store is closed again when a later step fails.
\<close>

definition external_new ::
  "'a lib_scheme \<Rightarrow> login_cfg option \<Rightarrow> string \<Rightarrow> string \<Rightarrow> (string + provider_button list) \<times> action list" where
  "external_new L login addr target =
     (if addr = [] then (Inl ''ListenAddr is required'', [])
      else if target = [] then (Inl ''TargetURL is required'', [])
      else case login of
        None \<Rightarrow> (Inl ''load login config'', [])
      | Some lg \<Rightarrow>
      if \<not> lg_enabled lg then (Inl ''no login providers configured'', [])
      else case lg_store lg of
        None \<Rightarrow> (Inl ''build session store'', [])
      | Some (name, manager, redis) \<Rightarrow>
          let opened = (if redis then [Open FrontRedis] else []);
              closed = (if redis then [Close FrontRedis] else []) in
          if \<not> lg_registry lg then (Inl ''build provider registry'', opened @ closed)
          else if \<not> lg_handlers lg then (Inl ''build login handlers'', opened @ closed)
          else (Inr (build_provider_buttons L (map lo_name (lg_providers lg))), opened))"

text \<open>\<open>Server.Stop\<close>: the outcome of the HTTP server's shutdown; the Redis client is closed in any case.\<close>

definition external_stop :: "string option \<Rightarrow> bool \<Rightarrow> string option \<times> action list" where
  "external_stop shutdown redis = (shutdown, if redis then [Close FrontRedis] else [])"

record front =
  fr_opts :: ext_opts
  fr_buttons :: "provider_button list"

record started =
  sd_plan :: listener_plan
  sd_telemetry :: telemetry
  sd_pool :: pool
  sd_resolver :: rstate
  sd_admin :: "admin_cfg option"
  sd_providers :: "(string \<times> bool \<times> string list) list"
  sd_external :: "front option"
  sd_redis :: bool

text \<open>
  The part of \<open>run\<close> that builds the operator API: the configuration, the actions, and the
  resources the deferred calls will close.
\<close>

definition start_admin ::
  "'a setup_lib_scheme \<Rightarrow> outside \<Rightarrow> (string \<Rightarrow> string) \<Rightarrow> world \<Rightarrow> string \<Rightarrow>
   (string + (admin_cfg \<times> (string \<times> bool \<times> string list) list)) \<times> resource list" where
  "start_admin A X env w addr =
     (case ou_login X env of
        None \<Rightarrow> (Inl ''admin provider configuration'', [])
      | Some lg \<Rightarrow>
      if lg_enabled lg \<and> lg_store lg = None then (Inl ''admin browser sessions'', [])
      else
        let store = (if lg_enabled lg then lg_store lg else None);
            held = (case store of Some (_, _, True) \<Rightarrow> [AdminRedis] | _ \<Rightarrow> []) in
        case admin_new A (ou_same X) (wo_fs w)
          \<lparr>op_db = True, op_addr = addr, op_origin = env ''SCITRERA_AUTH_ADMIN_ORIGIN'',
           op_token_file = env ''SCITRERA_AUTH_ADMIN_TOKEN_FILE'',
           op_ttl = parse_dur X (env ''SCITRERA_AUTH_ADMIN_SESSION_TTL'') (8 * hour), op_ui = True,
           op_store = map_option fst store,
           op_manager = (case store of Some (_, m, _) \<Rightarrow> m | None \<Rightarrow> False)\<rparr> of
          Inl e \<Rightarrow> (Inl ''admin configuration'', held)
        | Inr cfg \<Rightarrow> (Inr (cfg, map provider_info (lg_providers lg)), held))"

text \<open>Both optional planes: the operator API, then the front door.\<close>

definition start_planes ::
  "'a setup_lib_scheme \<Rightarrow> outside \<Rightarrow> (string \<Rightarrow> string) \<Rightarrow> world \<Rightarrow> listener_plan \<Rightarrow>
   (string + (admin_cfg \<times> (string \<times> bool \<times> string list) list) option \<times> front option) \<times> resource list \<times> action list" where
  "start_planes A X env w plan =
     (case (if lp_admin plan = [] then (Inr None, [])
            else map_prod (map_sum id Some) id (start_admin A X env w (lp_admin plan))) of
        (Inl e, extra) \<Rightarrow> (Inl e, extra, map Open extra)
      | (Inr a, extra) \<Rightarrow>
          if lp_external plan = [] then (Inr (a, None), extra, map Open extra)
          else case external_new A (ou_login X env) (lp_external plan) (env ''SCITRERA_AUTH_POST_LOGIN_TARGET'') of
            (Inl e, acts) \<Rightarrow> (Inl e, extra, map Open extra @ acts)
          | (Inr buttons, acts) \<Rightarrow>
              (Inr (a, Some \<lparr>fr_opts = external_options env, fr_buttons = buttons\<rparr>), extra, map Open extra @ acts))"

definition closing :: "resource list \<Rightarrow> action list" where
  "closing held = map Close held"

text \<open>
  \<open>run\<close> up to the listeners. The result of a failed startup has its deferred calls behind it; a
  started process still holds what \<open>held\<close> lists, innermost first.
\<close>

definition startup ::
  "'a setup_lib_scheme \<Rightarrow> outside \<Rightarrow> (string \<Rightarrow> string) \<Rightarrow> world \<Rightarrow> (string + started \<times> resource list) \<times> action list" where
  "startup A X env0 w =
     (let env = (if env0 ''AUTH_PROXY_DB_URL'' = [] \<and> env0 ''SCITRERA_MT_DB_URL'' \<noteq> []
                 then env0(''AUTH_PROXY_DB_URL'' := proxy_dsn X (env0 ''SCITRERA_MT_DB_URL'')) else env0) in
      case ou_config X env of
        None \<Rightarrow> (Inl ''failed to load config'', [])
      | Some addr \<Rightarrow>
      case plan_listeners addr (env ''SCITRERA_AUTH_EXTERNAL_ADDR'') (env ''SCITRERA_AUTH_ADMIN_ADDR'')
          (env ''SCITRERA_AUTH_METRICS_ADDR'') of
        Inl e \<Rightarrow> (Inl ''listen address'', [])
      | Inr plan \<Rightarrow>
      case fst (telemetry_init env (ou_otel X) (lp_metrics plan \<noteq> [])) of
        Inl e \<Rightarrow> (Inl ''observability'', [])
      | Inr telemetry \<Rightarrow>
        let dsn = env ''SCITRERA_MT_DB_URL'' in
        if dsn = [] then (Inl ''SCITRERA_MT_DB_URL is required'', [Open Telemetry] @ closing [Telemetry])
        else case mtdb_new X dsn of
          (Inl e, acts) \<Rightarrow> (Inl ''failed to connect'', [Open Telemetry] @ acts @ closing [Telemetry])
        | (Inr pool, acts) \<Rightarrow>
          let opened = [Open Telemetry] @ acts; held = [RegistryPool, Telemetry] in
          case verify_schema (ou_faults X) (wo_catalog w) of
            Inl e \<Rightarrow> (Inl ''schema smoke test failed'', opened @ closing held)
          | Inr _ \<Rightarrow>
          let st = new_resolver (parse_int_or (env ''SCITRERA_AUTH_CACHE_CAPACITY'') 16384)
                     (parse_dur X (env ''SCITRERA_AUTH_CACHE_TTL'') (5 * minute)) in
          (case start_planes A X env w plan of
             (Inl e, extra, acts) \<Rightarrow> (Inl e, opened @ acts @ closing (extra @ held))
           | (Inr (a, f), extra, acts) \<Rightarrow>
               (Inr (\<lparr>sd_plan = plan, sd_telemetry = telemetry, sd_pool = pool, sd_resolver = st, sd_admin = map_option fst a,
                  sd_providers = (case a of None \<Rightarrow> [] | Some (_, ps) \<Rightarrow> ps),
                  sd_external = f, sd_redis = (Open FrontRedis \<in> set acts)\<rparr>, extra @ held),
                opened @ acts)))"

text \<open>The surfaces' instrumentation: the internal plane's and the operator API's (the front door has its own).\<close>

definition internal_otel :: "('r \<Rightarrow> 'a) \<Rightarrow> ('r \<Rightarrow> string) \<Rightarrow> 'r \<Rightarrow> 'a \<times> span list" where
  "internal_otel next = otel_http next ''internal''"

definition admin_otel :: "('r \<Rightarrow> 'a) \<Rightarrow> ('r \<Rightarrow> string) \<Rightarrow> 'r \<Rightarrow> 'a \<times> span list" where
  "admin_otel next = otel_http next ''admin''"

text \<open>\<open>main\<close> and the beginning of \<open>run\<close>: a command ends the process, else it starts up; an error is exit
  status 1. The actions are those of \<open>startup\<close>.\<close>

datatype process_end = Exited nat | Serving started "resource list"

definition process_main ::
  "'a setup_lib_scheme \<Rightarrow> outside \<Rightarrow> (string \<Rightarrow> string) \<Rightarrow> string list \<Rightarrow> world \<Rightarrow> process_end \<times> action list \<times> world" where
  "process_main A X env args w =
     (case command A X env args w of
        (Handled err, w') \<Rightarrow> (Exited (if err = None then 0 else 1), [], w')
      | (NotHandled, w') \<Rightarrow>
          (case startup A X env w' of
             (Inl e, acts) \<Rightarrow> (Exited 1, acts, w')
           | (Inr (s, held), acts) \<Rightarrow> (Serving s held, acts, w')))"

text \<open>Only a command that succeeds writes a file or the database's schema; a process that serves, or
  that failed for any reason, has written neither.\<close>

lemma process_main_writes:
  assumes "process_main A X env args w = (r, acts, w')" "w' \<noteq> w"
  shows "r = Exited 0 \<and> acts = [] \<and> (args = [''migrate''] \<or> hd args = ''bootstrap'')"
  using assms
  by (auto simp: process_main_def command_def split: list.splits if_splits option.splits prod.splits sum.splits)

subsection \<open>Properties\<close>

definition settled :: "resource list \<Rightarrow> action list \<Rightarrow> bool" where
  "settled held acts = (\<forall>r. count_list acts (Open r) \<le> 1 \<and>
     count_list acts (Open r) = count_list acts (Close r) + count_list held r)"

lemma count_list_map_Open [simp]: "count_list (map Open rs) (Open r) = count_list rs r" "count_list (map Open rs) (Close r) = 0"
  by (induction rs) auto

lemma count_list_map_Close [simp]: "count_list (map Close rs) (Close r) = count_list rs r" "count_list (map Close rs) (Open r) = 0"
  by (induction rs) auto

lemma start_admin_held: "start_admin A X env w addr = (r, held) \<Longrightarrow> held = [] \<or> held = [AdminRedis]"
  unfolding start_admin_def Let_def
  by (auto split: option.splits if_split_asm sum.splits prod.splits bool.splits)

lemma external_new_acts:
  "external_new L lg addr target = (Inl e, acts) \<Longrightarrow> acts = [] \<or> acts = [Open FrontRedis, Close FrontRedis]"
  "external_new L lg addr target = (Inr u, acts) \<Longrightarrow> acts = [] \<or> acts = [Open FrontRedis]"
  unfolding external_new_def Let_def
  by (auto split: option.splits if_split_asm prod.splits)

lemma external_new_Inr:
  assumes "external_new L lg addr target = (Inr u, acts)"
  shows "addr \<noteq> [] \<and> target \<noteq> [] \<and> (\<exists>l. lg = Some l \<and> lg_enabled l \<and> lg_store l \<noteq> None \<and> lg_registry l \<and> lg_handlers l \<and>
    u = build_provider_buttons L (map lo_name (lg_providers l)))"
  using assms unfolding external_new_def Let_def
  by (auto split: option.splits if_split_asm prod.splits)

lemma start_admin_Inr:
  assumes "start_admin A X env w addr = (Inr (cfg, ps), held)"
  shows "\<exists>opts. admin_new A (ou_same X) (wo_fs w) opts = Inr cfg \<and> op_addr opts = addr \<and>
    op_origin opts = env ''SCITRERA_AUTH_ADMIN_ORIGIN'' \<and> op_token_file opts = env ''SCITRERA_AUTH_ADMIN_TOKEN_FILE''"
proof -
  obtain lg where lg: "ou_login X env = Some lg" "\<not> (lg_enabled lg \<and> lg_store lg = None)"
    using assms by (auto simp: start_admin_def split: option.splits if_split_asm)
  note r = assms [unfolded start_admin_def lg(1) option.case if_not_P [OF lg(2)] Let_def]
  from r show ?thesis
    by (cases "admin_new A (ou_same X) (wo_fs w)
          \<lparr>op_db = True, op_addr = addr, op_origin = env ''SCITRERA_AUTH_ADMIN_ORIGIN'',
           op_token_file = env ''SCITRERA_AUTH_ADMIN_TOKEN_FILE'',
           op_ttl = parse_dur X (env ''SCITRERA_AUTH_ADMIN_SESSION_TTL'') (8 * hour), op_ui = True,
           op_store = map_option fst (if lg_enabled lg then lg_store lg else None),
           op_manager = (case if lg_enabled lg then lg_store lg else None of Some (_, m, _) \<Rightarrow> m | None \<Rightarrow> False)\<rparr>") force+
qed

lemma start_planes_settled:
  assumes "start_planes A X env w plan = (r, extra, acts)"
  shows "extra = [] \<or> extra = [AdminRedis]" and
    "(\<exists>e. r = Inl e) \<Longrightarrow> acts = map Open extra \<or> acts = map Open extra @ [Open FrontRedis, Close FrontRedis]" and
    "(\<exists>a. r = Inr a) \<Longrightarrow> acts = map Open extra \<or> acts = map Open extra @ [Open FrontRedis]"
proof -
  obtain x h where x: "(if lp_admin plan = [] then (Inr None, [])
      else map_prod (map_sum id Some) id (start_admin A X env w (lp_admin plan))) = (x, h)"
    by fastforce
  have h: "h = [] \<or> h = [AdminRedis]"
    using x start_admin_held [of A X env w "lp_admin plan"]
    by (cases "start_admin A X env w (lp_admin plan)") (auto split: if_split_asm)
  note a = assms [unfolded start_planes_def x prod.case]
  note e = external_new_acts [of A "ou_login X env" "lp_external plan" "env ''SCITRERA_AUTH_POST_LOGIN_TARGET''"]
  show "extra = [] \<or> extra = [AdminRedis]"
    using a h by (auto split: sum.splits if_split_asm prod.splits)
  show "acts = map Open extra \<or> acts = map Open extra @ [Open FrontRedis, Close FrontRedis]" if "\<exists>e. r = Inl e"
    using a that e(1) by (auto split: sum.splits if_split_asm prod.splits)
  show "acts = map Open extra \<or> acts = map Open extra @ [Open FrontRedis]" if "\<exists>a. r = Inr a"
    using a that e(2) by (auto split: sum.splits if_split_asm prod.splits)
qed

lemma start_planes_Inr:
  assumes "start_planes A X env w plan = (Inr (a, f), extra, acts)"
  shows "(lp_admin plan = [] \<longrightarrow> a = None) \<and>
    (lp_admin plan \<noteq> [] \<longrightarrow> (\<exists>cfg ps opts. a = Some (cfg, ps) \<and> admin_new A (ou_same X) (wo_fs w) opts = Inr cfg \<and>
       op_addr opts = lp_admin plan \<and> op_origin opts = env ''SCITRERA_AUTH_ADMIN_ORIGIN'' \<and>
       op_token_file opts = env ''SCITRERA_AUTH_ADMIN_TOKEN_FILE'')) \<and>
    (lp_external plan = [] \<longrightarrow> f = None) \<and>
    (lp_external plan \<noteq> [] \<longrightarrow> env ''SCITRERA_AUTH_POST_LOGIN_TARGET'' \<noteq> [] \<and>
       (\<exists>l. ou_login X env = Some l \<and> lg_enabled l \<and> lg_store l \<noteq> None \<and> lg_registry l \<and>
          f = Some \<lparr>fr_opts = external_options env, fr_buttons = build_provider_buttons A (map lo_name (lg_providers l))\<rparr>))"
proof -
  obtain x h where x: "(if lp_admin plan = [] then (Inr None, [])
      else map_prod (map_sum id Some) id (start_admin A X env w (lp_admin plan))) = (x, h)"
    by fastforce
  note a = assms [unfolded start_planes_def x prod.case]
  then have "x = Inr a" by (auto split: sum.splits if_split_asm prod.splits)
  then have "(lp_admin plan = [] \<longrightarrow> a = None) \<and> (lp_admin plan \<noteq> [] \<longrightarrow>
      (\<exists>cfg ps. a = Some (cfg, ps) \<and> start_admin A X env w (lp_admin plan) = (Inr (cfg, ps), h)))"
    using x by (cases "start_admin A X env w (lp_admin plan)"; cases "fst (start_admin A X env w (lp_admin plan))")
      (auto split: if_split_asm)
  moreover have "lp_external plan \<noteq> [] \<longrightarrow> (\<exists>u acts. external_new A (ou_login X env) (lp_external plan)
      (env ''SCITRERA_AUTH_POST_LOGIN_TARGET'') = (Inr u, acts) \<and>
      f = Some \<lparr>fr_opts = external_options env, fr_buttons = u\<rparr>)"
    using a by (auto split: sum.splits if_split_asm prod.splits)
  moreover have "lp_external plan = [] \<longrightarrow> f = None"
    using a by (auto split: sum.splits if_split_asm prod.splits)
  ultimately show ?thesis
    using start_admin_Inr [of A X env w "lp_admin plan"] external_new_Inr by fast
qed

lemma settled_startup:
  assumes "extra = [] \<or> extra = [AdminRedis]"
  shows "settled [] ([Open Telemetry, Open RegistryPool] @ map Open extra @ closing (extra @ [RegistryPool, Telemetry]))"
    "settled [] ([Open Telemetry, Open RegistryPool] @ (map Open extra @ [Open FrontRedis, Close FrontRedis]) @
      closing (extra @ [RegistryPool, Telemetry]))"
    "settled (extra @ [RegistryPool, Telemetry]) ([Open Telemetry, Open RegistryPool] @ map Open extra)"
    "settled ([FrontRedis] @ extra @ [RegistryPool, Telemetry])
      ([Open Telemetry, Open RegistryPool] @ map Open extra @ [Open FrontRedis])"
  using assms by (auto simp: settled_def closing_def split: resource.splits)

text \<open>The value \<open>startup\<close> works on once the environment, the plan and the registry are there.\<close>

lemma startup_cases:
  obtains (early) e acts where "startup A X env0 w = (Inl e, acts)" "settled [] acts"
  | (planes) env addr plan telemetry pool r extra acts where
    "env = (if env0 ''AUTH_PROXY_DB_URL'' = [] \<and> env0 ''SCITRERA_MT_DB_URL'' \<noteq> []
       then env0(''AUTH_PROXY_DB_URL'' := proxy_dsn X (env0 ''SCITRERA_MT_DB_URL'')) else env0)"
    "ou_config X env = Some addr"
    "plan_listeners addr (env ''SCITRERA_AUTH_EXTERNAL_ADDR'') (env ''SCITRERA_AUTH_ADMIN_ADDR'')
       (env ''SCITRERA_AUTH_METRICS_ADDR'') = Inr plan"
    "fst (telemetry_init env (ou_otel X) (lp_metrics plan \<noteq> [])) = Inr telemetry"
    "env ''SCITRERA_MT_DB_URL'' \<noteq> []" "mtdb_new X (env ''SCITRERA_MT_DB_URL'') = (Inr pool, [Open RegistryPool])"
    "verify_schema (ou_faults X) (wo_catalog w) = Inr ()"
    "start_planes A X env w plan = (r, extra, acts)"
    "startup A X env0 w = (case r of
       Inl e \<Rightarrow> (Inl e, [Open Telemetry, Open RegistryPool] @ acts @ closing (extra @ [RegistryPool, Telemetry]))
     | Inr (a, f) \<Rightarrow> (Inr (\<lparr>sd_plan = plan, sd_telemetry = telemetry, sd_pool = pool,
           sd_resolver = new_resolver (parse_int_or (env ''SCITRERA_AUTH_CACHE_CAPACITY'') 16384)
             (parse_dur X (env ''SCITRERA_AUTH_CACHE_TTL'') (5 * minute)),
           sd_admin = map_option fst a, sd_providers = (case a of None \<Rightarrow> [] | Some (_, ps) \<Rightarrow> ps),
           sd_external = f, sd_redis = (Open FrontRedis \<in> set acts)\<rparr>,
           extra @ [RegistryPool, Telemetry]), [Open Telemetry, Open RegistryPool] @ acts))"
proof -
  define env where "env = (if env0 ''AUTH_PROXY_DB_URL'' = [] \<and> env0 ''SCITRERA_MT_DB_URL'' \<noteq> []
       then env0(''AUTH_PROXY_DB_URL'' := proxy_dsn X (env0 ''SCITRERA_MT_DB_URL'')) else env0)"
  note d = startup_def [of A X env0 w, folded env_def, unfolded Let_def]
  have s: "settled [] []" "settled [] ([Open Telemetry] @ closing [Telemetry])"
    "settled [] ([Open Telemetry, Open RegistryPool] @ closing [RegistryPool, Telemetry])"
    "settled [] ([Open Telemetry] @ [Open RegistryPool, Close RegistryPool] @ closing [Telemetry])"
    by (auto simp: settled_def closing_def split: resource.splits)
  show thesis
  proof (cases "ou_config X env")
    case None
    with d s(1) early show thesis by simp
  next
    case (Some addr)
    note d = d [unfolded Some option.case] and cfg = Some
    show thesis
    proof (cases "plan_listeners addr (env ''SCITRERA_AUTH_EXTERNAL_ADDR'') (env ''SCITRERA_AUTH_ADMIN_ADDR'')
        (env ''SCITRERA_AUTH_METRICS_ADDR'')")
      case (Inl e)
      with d s(1) early show thesis by simp
    next
      case plan: (Inr plan)
      note d = d [unfolded plan sum.case]
      show thesis
      proof (cases "fst (telemetry_init env (ou_otel X) (lp_metrics plan \<noteq> []))")
        case (Inl e)
        show thesis by (rule early [OF _ s(1)]) (use Inl d in simp)
      next
        case tel: (Inr telemetry)
        note d = d [unfolded tel sum.case]
        show thesis
        proof (cases "env ''SCITRERA_MT_DB_URL'' = []")
          case True
          show thesis by (rule early [OF _ s(2)]) (use True d in simp)
        next
          case url: False
          note d = d [unfolded if_not_P [OF url]]
          obtain pr pacts where new: "mtdb_new X (env ''SCITRERA_MT_DB_URL'') = (pr, pacts)" by fastforce
          show thesis
          proof (cases pr)
            case (Inl e)
            then have "pacts = [] \<or> pacts = [Open RegistryPool, Close RegistryPool]"
              using new by (auto simp: mtdb_new_def split: if_split_asm)
            then have "settled [] ([Open Telemetry] @ pacts @ closing [Telemetry])" using s(2,4) by auto
            then show thesis by (rule early [rotated]) (use Inl new d in simp)
          next
            case pool: (Inr pool)
            then have acts: "pacts = [Open RegistryPool]"
              using new by (auto simp: mtdb_new_def split: if_split_asm)
            show thesis
            proof (cases "verify_schema (ou_faults X) (wo_catalog w)")
              case (Inl e)
              show thesis by (rule early [OF _ s(3)]) (use Inl new pool acts d in simp)
            next
              case (Inr u)
              obtain r extra acts' where p: "start_planes A X env w plan = (r, extra, acts')" by (metis prod_cases3)
              have v: "verify_schema (ou_faults X) (wo_catalog w) = Inr ()" using Inr by simp
              show thesis
                by (rule planes [OF env_def cfg plan tel url new [unfolded pool acts] v p])
                  (use new pool acts v in \<open>simp add: d p split: sum.split\<close>)
            qed
          qed
        qed
      qed
    qed
  qed
qed

text \<open>Closing what is held settles the account.\<close>

lemma settled_close: "settled held acts \<Longrightarrow> settled [] (acts @ map Close held)"
  unfolding settled_def by (metis count_list_append count_list_map_Close add.right_neutral count_list.simps(1))

lemma startup_holds:
  "case startup A X env w of
     (Inl e, acts) \<Rightarrow> settled [] acts
   | (Inr (s, held), acts) \<Rightarrow> settled ((if sd_redis s then [FrontRedis] else []) @ held) acts"
proof (cases rule: startup_cases [of A X env w])
  case (early e acts)
  then show ?thesis by simp
next
  case (planes env' addr plan telemetry pool r extra acts)
  note p = start_planes_settled [OF planes(8)]
  note s = settled_startup [OF p(1)]
  show ?thesis
  proof (cases r)
    case (Inl e)
    with p(2) s(1,2) show ?thesis unfolding planes(9) by auto
  next
    case (Inr af)
    obtain a f where af: "af = (a, f)" by fastforce
    from Inr consider "acts = map Open extra" | "acts = map Open extra @ [Open FrontRedis]" using p(3) by blast
    then show ?thesis
    proof cases
      case 1
      then have "Open FrontRedis \<notin> set acts" using p(1) by auto
      with 1 s(3) Inr af show ?thesis unfolding planes(9) by simp
    next
      case 2
      with s(4) Inr af show ?thesis unfolding planes(9) by simp
    qed
  qed
qed

text \<open>C33. No leaks at startup. A startup that fails has closed every resource it opened, each once;
  one that succeeds holds exactly what its deferred calls, and the front door's \<open>Stop\<close>, will close:
  after these, whatever the shutdown answered, every resource has been closed exactly once.\<close>

theorem startup_settled:
  "case startup A X env w of
     (Inl e, acts) \<Rightarrow> settled [] acts
   | (Inr (s, held), acts) \<Rightarrow> settled ((if sd_redis s then [FrontRedis] else []) @ held) acts \<and>
       settled [] (acts @ snd (external_stop shutdown (sd_redis s)) @ closing held)"
  using startup_holds [of A X env w] settled_close [of "FrontRedis # _"] settled_close
  by (auto simp: external_stop_def closing_def split: sum.splits prod.splits)

lemma started_guards:
  assumes "startup A X env w = (Inr (s, held), acts)"
  shows "env ''SCITRERA_MT_DB_URL'' \<noteq> [] \<and> verify_schema (ou_faults X) (wo_catalog w) = Inr () \<and>
    (\<exists>addr. plan_listeners addr (env ''SCITRERA_AUTH_EXTERNAL_ADDR'') (env ''SCITRERA_AUTH_ADMIN_ADDR'')
       (env ''SCITRERA_AUTH_METRICS_ADDR'') = Inr (sd_plan s)) \<and>
    (lp_admin (sd_plan s) = [] \<longrightarrow> sd_admin s = None) \<and>
    (lp_admin (sd_plan s) \<noteq> [] \<longrightarrow> (\<exists>cfg opts. sd_admin s = Some cfg \<and> admin_new A (ou_same X) (wo_fs w) opts = Inr cfg \<and>
       op_addr opts = lp_admin (sd_plan s) \<and> op_origin opts = env ''SCITRERA_AUTH_ADMIN_ORIGIN'' \<and>
       op_token_file opts = env ''SCITRERA_AUTH_ADMIN_TOKEN_FILE'')) \<and>
    (sd_external s = None \<longleftrightarrow> lp_external (sd_plan s) = []) \<and>
    (\<forall>f. sd_external s = Some f \<longrightarrow> env ''SCITRERA_AUTH_POST_LOGIN_TARGET'' \<noteq> [] \<and> fr_opts f = external_options env \<and>
       (\<exists>l env'. ou_login X env' = Some l \<and> lg_enabled l \<and> lg_store l \<noteq> None \<and>
          fr_buttons f = build_provider_buttons A (map lo_name (lg_providers l))))"
proof (cases rule: startup_cases [of A X env w])
  case (early e acts')
  with assms show ?thesis by simp
next
  case (planes env' addr plan telemetry pool r extra acts')
  then obtain a f where r: "r = Inr (a, f)" using assms by (cases r) auto
  have e: "env' n = env n" if "n \<noteq> ''AUTH_PROXY_DB_URL''" for n using planes(1) that by simp
  have s: "sd_plan s = plan" "sd_admin s = map_option fst a" "sd_external s = f"
    using assms unfolding planes(9) r by auto
  have o: "external_options env' = external_options env" by (simp add: external_options_def branding_from_env_def e)
  from start_planes_Inr [OF planes(8) [unfolded r]] planes(3-7) show ?thesis
    unfolding s o by (force simp: e)
qed

lemma started_front:
  assumes "startup A X env w = (Inr (s, held), acts)" "sd_external s = Some f"
  shows "env ''SCITRERA_AUTH_POST_LOGIN_TARGET'' \<noteq> [] \<and> fr_opts f = external_options env"
  using started_guards [OF assms(1)] assms(2) by blast


subsection \<open>Witness\<close>

definition demo_process_env :: "string \<Rightarrow> string" where
  "demo_process_env n =
     (if n = ''SCITRERA_MT_DB_URL'' then ''postgres://db''
      else if n = ''SCITRERA_AUTH_ADMIN_ADDR'' then ''127.0.0.1:9443''
      else if n = ''SCITRERA_AUTH_ADMIN_ORIGIN'' then ''https://ops.acme.com''
      else if n = ''SCITRERA_AUTH_ADMIN_TOKEN_FILE'' then ''/run/admin-tokens'' else [])"

definition demo_outside :: outside where
  "demo_outside = \<lparr>ou_flags = (\<lambda>_. None), ou_token = demo_token, ou_dsn = (\<lambda>_. True), ou_ping = (\<lambda>_. True), ou_faults = (\<lambda>_. None),
     ou_config = (\<lambda>_. Some '':8080''), ou_otel = (\<lambda>_. None),
     ou_login = (\<lambda>_. Some \<lparr>lg_enabled = False, lg_providers = [], lg_store = None, lg_registry = True, lg_handlers = True\<rparr>),
     ou_duration = (\<lambda>_. None), ou_search_path = (\<lambda>s. Some s), ou_same = True\<rparr>"

lemma demo_startup:
  assumes "verify_schema (\<lambda>_. None) c = Inr ()"
  shows "\<exists>s held acts. startup demo_setup demo_outside demo_process_env \<lparr>wo_fs = demo_file, wo_catalog = c\<rparr> =
    (Inr (s, held), acts) \<and> lp_admin (sd_plan s) = ''127.0.0.1:9443''"
proof -
  have p: "plan_listeners '':8080'' [] ''127.0.0.1:9443'' [] = Inr \<lparr>lp_internal = '':8080'', lp_external = [],
      lp_admin = ''127.0.0.1:9443'', lp_metrics = ''127.0.0.1:9443''\<rparr>"
    by code_simp
  have t: "fst (telemetry_init (demo_process_env(''AUTH_PROXY_DB_URL'' := v)) (\<lambda>_. None) True) =
      Inr \<lparr>tl_metrics = True, tl_shutdown = [MeterProvider]\<rparr>" for v
  proof (rule telemetry_plain [where p = True, simplified])
    fix n assume "has_prefix n ''OTEL_''"
    then obtain r where "n = ''OTEL_'' @ r" unfolding has_prefix_def by (metis append_take_drop_id)
    then show "(demo_process_env(''AUTH_PROXY_DB_URL'' := v)) n = []" by (simp add: demo_process_env_def)
  qed
  show ?thesis
    using assms t
    by (simp add: startup_def mtdb_new_def demo_outside_def demo_process_env_def p start_planes_def start_admin_def
        admin_new_def demo_url demo_loaded valid_origin_def has_suffix_def parse_dur_def minute_def hour_def)
qed


end
