(* ===== verification/External_Guarantees.thy ===== *)
theory External_Guarantees
  imports External_Server Enrollment
begin

text \<open>
  What the public front door guarantees: where it sends a browser, what the return cookie
  carries, which requests reach the login handlers, who reads the session, and what a
  sign-in page shows.
\<close>

subsection \<open>Destinations\<close>

text \<open>The return URL a request asks for.\<close>

definition requested_return :: "ext_req \<Rightarrow> string" where
  "requested_return r = first_non_empty (query_get (er_query r) ''rd'') (query_get (er_query r) ''next'')"

lemma handle_landing_authenticated:
  assumes "er_method r \<in> {''GET'', ''HEAD''}" "is_authenticated env r"
  shows "handle_landing L opts c env r = ([clear_return_cookie c], XRedirect 302
    (case sanitize_redirect L opts (requested_return r) of Some d \<Rightarrow> d
     | None \<Rightarrow> (case sanitize_redirect L opts (read_return_cookie L opts r) of Some d \<Rightarrow> d
       | None \<Rightarrow> eo_target opts)))"
proof -
  have "sanitize_redirect L opts [] = None" by (simp add: sanitize_redirect_def trim_space_def)
  with assms show ?thesis
    by (auto simp: handle_landing_def requested_return_def Let_def split: option.splits)
qed

lemma handle_landing_anonymous:
  assumes "er_method r \<in> {''GET'', ''HEAD''}" "\<not> is_authenticated env r"
  shows "handle_landing L opts c env r =
    (case sanitize_redirect L opts (requested_return r) of None \<Rightarrow> [] | Some d \<Rightarrow> [set_return_cookie L opts c d],
     XLanding (branding_for_request L opts env r))"
  using assms by (auto simp: handle_landing_def requested_return_def Let_def)

lemma handle_landing_method:
  "er_method r \<notin> {''GET'', ''HEAD''} \<Longrightarrow>
     handle_landing L opts c env r = ([], XProblem 405 ''method not allowed'')"
  by (simp add: handle_landing_def)



text \<open>
  A tab after the slash is not rejected, although a browser that drops tabs reads the
  destination as protocol-relative.
\<close>

lemma tabbed_path_accepted:
  "sanitize_redirect L opts (CHR ''/'' # CHR 0x09 # ''/evil.com'') = Some (CHR ''/'' # CHR 0x09 # ''/evil.com'')"
proof -
  have "trim_space (CHR ''/'' # CHR 0x09 # ''/evil.com'') = CHR ''/'' # CHR 0x09 # ''/evil.com''"
    by code_simp
  then show ?thesis by (simp add: sanitize_redirect_def has_prefix_def)
qed

subsection \<open>Routes\<close>

lemma mux_match_Some:
  assumes "mux_match t path = Some (p, rt)"
  shows "(p, rt) \<in> set t \<and> pattern_matches p path \<and> (\<forall>(q, x) \<in> set t. pattern_matches q path \<longrightarrow> length q \<le> length p)"
  using assms
proof (induction t arbitrary: p rt)
  case (Cons e t)
  obtain p0 rt0 where e: "e = (p0, rt0)" by (cases e)
  show ?case
  proof (cases "mux_match t path")
    case None
    have "\<not> pattern_matches q path" if "(q, x) \<in> set t" for q x
      using None that by (induction t) (auto split: option.splits if_split_asm)
    with Cons.prems None show ?thesis by (fastforce simp: e split: if_split_asm)
  next
    case (Some m)
    obtain q rt' where m: "m = (q, rt')" by (cases m)
    from Cons.IH Some m have "(q, rt') \<in> set t \<and> pattern_matches q path \<and>
      (\<forall>(q', x) \<in> set t. pattern_matches q' path \<longrightarrow> length q' \<le> length q)" by blast
    with Cons.prems Some m show ?thesis by (fastforce simp: e split: if_split_asm)
  qed
qed simp

lemma route_table_unique:
  "(p, rt) \<in> set (route_table opts) \<Longrightarrow>
     (rt = RtLogin \<longrightarrow> p = ''/auth/login/'') \<and> (rt = RtCallback \<longrightarrow> p = ''/auth/callback/'') \<and>
     (rt = RtLogout \<longrightarrow> p = ''/auth/logout'') \<and> (rt = RtCheckz \<longrightarrow> p = ''/auth/checkz'' \<or> p = ''/checkz'')"
  by (auto simp: route_table_def split: if_split_asm)

lemma query_get_removed: "query_get (sort_key fst (filter (\<lambda>(k, _). k \<noteq> x) q)) x = []"
proof -
  have "map_of (sort_key fst (filter (\<lambda>(k, _). k \<noteq> x) q)) x = None"
    by (auto simp: map_of_eq_None_iff)
  then show ?thesis by (simp add: query_get_def get_or_def)
qed

lemma sanitize_login_next_safe:
  "query_get (er_query (sanitize_login_next L opts r)) ''next'' = [] \<or>
   sanitize_redirect L opts (query_get (er_query (sanitize_login_next L opts r)) ''next'') \<noteq> None"
  by (cases "query_get (er_query r) ''next'' \<noteq> [] \<and> sanitize_redirect L opts (query_get (er_query r) ''next'') = None")
    (auto simp: sanitize_login_next_def Let_def query_get_removed)

lemma sanitize_login_next_path [simp]: "er_path (sanitize_login_next L opts r) = er_path r"
  by (simp add: sanitize_login_next_def Let_def)

lemma landing_response:
  "handle_landing L opts c env r = (cs, resp) \<Longrightarrow>
     (\<exists>n d. resp = XRedirect n d) \<or> (\<exists>b. resp = XLanding b) \<or> (\<exists>n e. resp = XProblem n e)"
  by (auto simp: handle_landing_def Let_def split: if_split_asm)

lemma checkz_response:
  "(\<exists>n e. handle_checkz L opts env r = XProblem n e) \<or> (\<exists>u e ts. handle_checkz L opts env r = XSession u e ts)"
  by (auto simp: handle_checkz_def split: sum.split option.split)

lemma redirect_logout_response: "\<exists>n h b. redirect_logout opts calls = XLogout n h b"
  by (simp add: redirect_logout_def Let_def)

lemma external_serve_cases:
  assumes "external_serve L opts c oss env r = (cs, resp)"
  obtains (moved) d where "resp = XRedirect 301 d" "cs = []"
  | (unknown) "resp = XProblem 404 ''not found''" "cs = []"
  | (login) "has_prefix (er_path r) ''/auth/login/''" "resp = XForward (sanitize_login_next L opts r)" "cs = []"
  | (callback) "has_prefix (er_path r) ''/auth/callback/''" "resp = XForward r" "cs = []"
  | (logout) "er_path r = ''/auth/logout''" "cs = []"
      "resp = (if er_method r \<noteq> ''POST'' then XProblem 405 ''method not allowed'' else redirect_logout opts (oss r))"
  | (checkz) "er_path r = ''/auth/checkz'' \<or> er_path r = ''/checkz''" "resp = handle_checkz L opts env r" "cs = []"
  | (landing) "\<not> has_prefix (er_path r) ''/auth/''" "handle_landing L opts c env r = (cs, resp)"
  | (other) "\<not> has_prefix (er_path r) ''/auth/''" "resp = XSource \<or> resp = XHealthy" "cs = []"
proof -
  let ?t = "route_table opts" and ?path = "clean_path L (er_path r)"
  note s = assms [unfolded external_serve_def Let_def]
  show ?thesis
  proof (cases "(\<not> has_suffix ?path ''/'' \<and> ?path \<notin> fst ` set ?t \<and> ?path @ ''/'' \<in> fst ` set ?t) \<or> ?path \<noteq> er_path r")
    case True
    with s have "(\<exists>d. resp = XRedirect 301 d) \<and> cs = []" by (auto split: if_split_asm)
    with moved show ?thesis by blast
  next
    case False
    then have c: "\<not> (\<not> has_suffix ?path ''/'' \<and> ?path \<notin> fst ` set ?t \<and> ?path @ ''/'' \<in> fst ` set ?t)"
      "?path = er_path r" "\<not> ?path \<noteq> er_path r" by blast+
    note s = s [unfolded if_not_P [OF c(1)] if_not_P [OF c(3)], unfolded c(2)]
    show ?thesis
    proof (cases "mux_match ?t (er_path r)")
      case None
      with s show ?thesis by (intro unknown) simp_all
    next
      case (Some m)
      obtain p rt where m: "m = (p, rt)" by (cases m)
      note s = s [unfolded Some m option.case prod.case]
      from mux_match_Some [OF Some [unfolded m]] have p: "(p, rt) \<in> set ?t" "pattern_matches p (er_path r)"
        and longest: "\<And>q x. (q, x) \<in> set ?t \<Longrightarrow> pattern_matches q (er_path r) \<Longrightarrow> length q \<le> length p"
        by blast+
      note u = route_table_unique [OF p(1)]
      have auth: "rt \<in> {RtLanding, RtSource, RtHealthz} \<Longrightarrow> \<not> has_prefix (er_path r) ''/auth/''"
      proof
        assume rt: "rt \<in> {RtLanding, RtSource, RtHealthz}" and pre: "has_prefix (er_path r) ''/auth/''"
        then have "length ''/auth/'' \<le> length p"
          by (intro longest [of "''/auth/''" RtNotFound]) (simp_all add: route_table_def pattern_matches_def has_suffix_def)
        with p rt pre show False
          by (auto simp: route_table_def pattern_matches_def has_suffix_def has_prefix_def split: if_split_asm)
      qed
      show ?thesis
      proof (cases rt)
        case RtSource with s auth show ?thesis by (intro other) auto
      next
        case RtLogin with s u p(2) show ?thesis by (intro login) (auto simp: pattern_matches_def has_suffix_def)
      next
        case RtCallback with s u p(2) show ?thesis by (intro callback) (auto simp: pattern_matches_def has_suffix_def)
      next
        case RtLogout with s u p(2) show ?thesis by (intro logout) (auto simp: pattern_matches_def has_suffix_def)
      next
        case RtCheckz with s u p(2) show ?thesis by (intro checkz) (auto simp: pattern_matches_def has_suffix_def)
      next
        case RtNotFound with s show ?thesis by (intro unknown) auto
      next
        case RtHealthz with s auth show ?thesis by (intro other) auto
      next
        case RtLanding with s auth show ?thesis by (intro landing) auto
      qed
    qed
  qed
qed

text \<open>C34. The public surface. A request reaches Aether's login handlers only below
  \<open>/auth/login/\<close>, with no \<open>next\<close> or one the allowlist accepts, or below \<open>/auth/callback/\<close>, or as
  a POST of \<open>/auth/logout\<close>; the session is read out only on the two checkz paths; every other
  path below \<open>/auth/\<close> is unknown here, in particular \<open>/auth/me\<close> and \<open>/auth/verify\<close>.\<close>

theorem external_surface:
  assumes "external_serve L opts c oss env r = (cs, resp)"
  shows "(case resp of
      XForward r2 \<Rightarrow> er_path r2 = er_path r \<and>
        (has_prefix (er_path r) ''/auth/login/'' \<and> (query_get (er_query r2) ''next'' = [] \<or>
           sanitize_redirect L opts (query_get (er_query r2) ''next'') \<noteq> None) \<or>
         has_prefix (er_path r) ''/auth/callback/'')
    | XLogout n h b \<Rightarrow> er_path r = ''/auth/logout'' \<and> er_method r = ''POST''
    | XSession u e ts \<Rightarrow> er_path r \<in> {''/checkz'', ''/auth/checkz''}
    | _ \<Rightarrow> True) \<and>
    (has_prefix (er_path r) ''/auth/'' \<and> \<not> has_prefix (er_path r) ''/auth/login/'' \<and>
       \<not> has_prefix (er_path r) ''/auth/callback/'' \<and> er_path r \<notin> {''/auth/logout'', ''/auth/checkz''} \<longrightarrow>
       resp = XProblem 404 ''not found'' \<or> (\<exists>d. resp = XRedirect 301 d))"
proof (rule external_serve_cases [OF assms])
  assume "er_path r = ''/auth/logout''" "resp = (if er_method r \<noteq> ''POST'' then XProblem 405 ''method not allowed''
    else redirect_logout opts (oss r))"
  with redirect_logout_response [of opts "oss r"] show ?thesis by (auto split: ext_resp.split)
next
  assume "er_path r = ''/auth/checkz'' \<or> er_path r = ''/checkz''" "resp = handle_checkz L opts env r"
  with checkz_response [of L opts env r] show ?thesis by (auto simp: has_prefix_def)
next
  assume "\<not> has_prefix (er_path r) ''/auth/''" "handle_landing L opts c env r = (cs, resp)"
  with landing_response [OF this(2)] show ?thesis by auto
next
  assume "has_prefix (er_path r) ''/auth/login/''" "resp = XForward (sanitize_login_next L opts r)"
  with sanitize_login_next_safe [of L opts r] show ?thesis by simp
qed auto

subsection \<open>Session status\<close>

text \<open>C35. The session's identity is read out only to a request that is no navigation and whose
  Origin, if it has one and an allowlist is configured, is on it, for the live session of its own
  cookie; the tenants shown are those of the registry's user with that address, in the shape the
  resolver reports them.\<close>

theorem checkz_guarded:
  assumes "handle_checkz L opts env r = XSession user email ts"
  shows "header_get r ''Sec-Fetch-Mode'' \<noteq> ''navigate'' \<and> header_get r ''Sec-Fetch-Dest'' \<noteq> ''document'' \<and>
    (header_get r ''Origin'' = [] \<or> eo_checkz opts = [] \<or> header_get r ''Origin'' \<in> set (eo_checkz opts)) \<and>
    er_session r \<noteq> [] \<and> ee_session env (er_session r) = Inr (Some \<lparr>sd_user = user, sd_email = email\<rparr>) \<and>
    (\<forall>xs. ts = Some xs \<longrightarrow> (\<exists>u. get_user_with_tenants L (ee_db env) email = Inr (Some u) \<and>
       xs = to_pkg_tenants (arrays_to_tenants (u_slugs u) (u_names u) (u_logos u) (u_dws u))))"
proof -
  have shape: "checkz_tenants u = to_pkg_tenants (arrays_to_tenants (u_slugs u) (u_names u) (u_logos u) (u_dws u))" for u
    by (simp add: checkz_tenants_def to_pkg_tenants_def arrays_to_tenants_def nth_or_def comp_def)
  from assms have o: "checkz_origin_allowed opts r"
    by (auto simp: handle_checkz_def split: if_split_asm)
  from assms o obtain d where d: "lookup_session env r = Inr (Some d)" "user = sd_user d" "email = sd_email d"
    "ts = lookup_tenants L opts env email"
    by (auto simp: handle_checkz_def split: sum.splits option.splits)
  have s: "er_session r \<noteq> []" "ee_session env (er_session r) = Inr (Some d)"
    using d(1) by (auto simp: lookup_session_def split: if_split_asm)
  have t: "\<exists>u. get_user_with_tenants L (ee_db env) email = Inr (Some u) \<and>
      xs = to_pkg_tenants (arrays_to_tenants (u_slugs u) (u_names u) (u_logos u) (u_dws u))" if "ts = Some xs" for xs
    using that d(4) by (auto simp: lookup_tenants_def shape split: if_split_asm sum.splits option.splits)
  from o s t d(2,3) show ?thesis
    by (auto simp: checkz_origin_allowed_def Let_def split: if_split_asm)
qed

subsection \<open>Sign-in page\<close>

text \<open>The sign-in page shows a tenant's name and logo only if the request names exactly one
  tenant (or none, and one is configured), by a valid slug, and that tenant is enabled; the logo
  is then an HTTPS URL with a host and without credentials, or the configured one. The tagline is
  always the configured one, and every provider has its button, in byte order.\<close>

theorem sign_in_page:
  shows "(branding_for_request L opts env r = branding_with_defaults opts \<or>
     (\<exists>t hint. eo_repo opts \<and> tenant_hint opts r = Some hint \<and> label_re (to_lower L (trim_space hint)) \<and>
        get_tenant_by_slug L (ee_db env) (to_lower L (trim_space hint)) = Some t \<and> t_enabled t \<and>
        br_name (branding_for_request L opts env r) \<in>
          {br_name (branding_with_defaults opts), trim_space (t_name t)} \<and>
        (br_logo (branding_for_request L opts env r) = br_logo (branding_with_defaults opts) \<or>
         br_logo (branding_for_request L opts env r) = trim_space (t_logo t) \<and>
         logo_ok L (br_logo (branding_for_request L opts env r))))) \<and>
    br_tagline (branding_for_request L opts env r) = br_tagline (branding_with_defaults opts) \<and>
    mset (map pb_name (build_provider_buttons L names)) = mset names \<and>
    sorted (map pb_name (build_provider_buttons L names))"
  using branding_cases [of L opts env r]
  by (elim disjE exE conjE) (auto simp: buttons_names shown_tenant_def or_default_def)

subsection \<open>Logout\<close>

text \<open>The status a handler reports: its first explicit one, or 200 from the first write on.\<close>

fun reported_status :: "rw_call list \<Rightarrow> nat" where
  "reported_status [] = 200"
| "reported_status (RwHeader k v # cs) = reported_status cs"
| "reported_status (RwStatus s # cs) = (if s = 0 then reported_status cs else s)"
| "reported_status (RwWrite p # cs) = 200"

lemma capture_fixed_status:
  "cp_status c \<noteq> 0 \<Longrightarrow> cp_status (foldl capture_call c calls) = cp_status c"
proof (induction calls arbitrary: c)
  case (Cons x calls)
  then show ?case by (cases x) (simp_all add: Let_def)
qed simp

lemma capture_status:
  "cp_status c = 0 \<Longrightarrow> status_code (foldl capture_call c calls) = reported_status calls"
proof (induction calls arbitrary: c)
  case (Cons x calls)
  show ?case
  proof (cases x)
    case (RwStatus s)
    with Cons show ?thesis by (cases "s = 0") (simp_all add: status_code_def capture_fixed_status)
  next
    case (RwWrite p)
    with Cons.prems show ?thesis by (simp add: status_code_def capture_fixed_status Let_def)
  qed (use Cons in \<open>simp_all\<close>)
qed (simp add: status_code_def)

lemma capture_header:
  "cp_header (foldl capture_call c calls) = cp_header c @ [(k, v). RwHeader k v \<leftarrow> calls]"
proof (induction calls arbitrary: c)
  case (Cons x calls)
  then show ?case by (cases x) (simp_all add: Let_def)
qed simp

lemma capture_body:
  "cp_body (foldl capture_call c calls) = cp_body c @ concat [p. RwWrite p \<leftarrow> calls]"
proof (induction calls arbitrary: c)
  case (Cons x calls)
  then show ?case by (cases x) (simp_all add: Let_def)
qed simp

text \<open>A sign-out that the login handler refuses is passed on unchanged; a successful one
  becomes a redirect to the configured target that carries exactly the handler's cookies.\<close>

theorem logout_redirects:
  shows "redirect_logout opts calls =
    (if 200 \<le> reported_status calls \<and> reported_status calls < 300
     then XLogout 303 ([(k, v). RwHeader k v \<leftarrow> calls, k = ''Set-Cookie''] @ [(''Location'', eo_target opts)]) []
     else XLogout (reported_status calls) [(k, v). RwHeader k v \<leftarrow> calls] (concat [p. RwWrite p \<leftarrow> calls]))"
proof -
  have f: "filter (\<lambda>(k, v). k = ''Set-Cookie'') [(k, v). RwHeader k v \<leftarrow> calls] =
      [(k, v). RwHeader k v \<leftarrow> calls, k = ''Set-Cookie'']"
    by (induction calls) (auto split: rw_call.split)
  have st: "status_code (foldl capture_call new_capture calls) = reported_status calls"
    by (rule capture_status) (simp add: new_capture_def)
  show ?thesis
    unfolding redirect_logout_def Let_def st capture_header capture_body f [symmetric]
    by (auto simp: new_capture_def not_less not_le)
qed

subsection \<open>A worked example\<close>

text \<open>Two letters per byte stand for base64, and the key before the message for the MAC.\<close>

definition demo_hex :: "string \<Rightarrow> string" where
  "demo_hex s = concat (map (\<lambda>c. [chr (97 + byte c div 16), chr (97 + byte c mod 16)]) s)"

fun demo_unhex :: "string \<Rightarrow> string option" where
  "demo_unhex [] = Some []"
| "demo_unhex [x] = None"
| "demo_unhex (x # y # r) =
     map_option (\<lambda>t. chr ((byte x - 97) * 16 + (byte y - 97)) # t) (demo_unhex r)"

lemma byte_bound: "byte c < 256"
  by (simp add: byte_def)

lemma chr_byte [simp]: "chr (byte c) = c"
  by (simp add: chr_def byte_def)

lemma demo_hex_inverse: "demo_unhex (demo_hex s) = Some s"
proof (induction s)
  case (Cons c s)
  have "byte c div 16 < 16" using byte_bound [of c] by simp
  with Cons show ?case by (simp add: demo_hex_def)
qed (simp add: demo_hex_def)

lemma demo_hex_dot: "CHR ''.'' \<notin> set (demo_hex s)"
proof -
  have k: "CHR ''.'' \<noteq> chr (97 + k)" if "k < 16" for k
  proof
    assume "CHR ''.'' = chr (97 + k)"
    then have "byte CHR ''.'' = byte (chr (97 + k))" by (rule arg_cong)
    moreover have "byte CHR ''.'' = 46" by (simp add: byte_def)
    ultimately show False using that by simp
  qed
  have b: "byte c div 16 < 16" "byte c mod 16 < 16" for c using byte_bound [of c] by simp_all
  show ?thesis
  proof (induction s)
    case (Cons c s)
    have "set (demo_hex (c # s)) = {chr (97 + byte c div 16), chr (97 + byte c mod 16)} \<union> set (demo_hex s)"
      unfolding demo_hex_def by simp
    with k [OF b(1)] k [OF b(2)] Cons show ?case by simp
  qed (simp add: demo_hex_def)
qed

definition demo_ext :: ext_lib where
  "demo_ext = lib.extend demo_lib (ext_lib.fields (@) demo_hex demo_unhex id)"

definition demo_opts :: ext_opts where
  "demo_opts = \<lparr>eo_source = False, eo_target = ''https://app.example'', eo_hosts = [''app.example''], eo_origins = [],
     eo_key = ''key'', eo_brand = \<lparr>br_name = [], br_logo = [], br_tagline = []\<rparr>, eo_default = [],
     eo_checkz = [''https://app.example''], eo_repo = True\<rparr>"

definition demo_cookies :: cookie_cfg where
  "demo_cookies = \<lparr>cc_secure = True, cc_same_site = 0\<rparr>"

definition demo_visit :: "string \<Rightarrow> (string \<times> string) list \<Rightarrow> string \<Rightarrow> string option \<Rightarrow> ext_req" where
  "demo_visit path q sid ret = \<lparr>er_method = ''GET'', er_path = path, er_query = q, er_query_ok = True,
     er_header = [(''Origin'', ''https://app.example'')], er_session = sid, er_return = ret\<rparr>"

definition demo_front :: ext_env where
  "demo_front = \<lparr>ee_session = (\<lambda>i. Inr (if i = ''S1'' then Some \<lparr>sd_user = ''U1'', sd_email = ''a@acme.com''\<rparr> else None)),
     ee_db = fst demo_enroll, ee_fault = (\<lambda>_. None)\<rparr>"

definition demo_first :: ext_req where
  "demo_first = demo_visit ''/'' [(''rd'', ''/docs'')] [] None"

definition demo_return_cookie :: cookie where
  "demo_return_cookie = set_return_cookie demo_ext demo_opts demo_cookies ''/docs''"

definition demo_second :: ext_req where
  "demo_second = demo_visit ''/'' [] ''S1'' (Some (ck_value demo_return_cookie))"

lemma demo_ext_codec:
  "b64_decode demo_ext (b64_encode demo_ext m) = Some m" "CHR ''.'' \<notin> set (b64_encode demo_ext m)"
  by (simp_all add: demo_ext_def lib.defs ext_lib.defs demo_hex_inverse demo_hex_dot demo_lib_def)

lemma demo_first_runs:
  "handle_landing demo_ext demo_opts demo_cookies demo_front demo_first =
     ([demo_return_cookie], XLanding (branding_for_request demo_ext demo_opts demo_front demo_first))"
  by code_simp



theorem external_surface_witness:
  "external_serve demo_ext demo_opts demo_cookies (\<lambda>_. []) demo_front (demo_visit ''/auth/me'' [] ''S1'' None) =
     ([], XProblem 404 ''not found'')"
proof -
  let ?r = "external_serve demo_ext demo_opts demo_cookies (\<lambda>_. []) demo_front (demo_visit ''/auth/me'' [] ''S1'' None)"
  have "?r = (fst ?r, snd ?r)" by simp
  from external_surface [OF this] have
    "snd ?r = XProblem 404 ''not found'' \<or> (\<exists>d. snd ?r = XRedirect 301 d)"
    by (simp add: demo_visit_def has_prefix_def)
  moreover have "?r = ([], XProblem 404 ''not found'')" by code_simp
  ultimately show ?thesis by simp
qed

theorem checkz_guarded_witness:
  "ee_session demo_front ''S1'' = Inr (Some \<lparr>sd_user = ''U1'', sd_email = ''a@acme.com''\<rparr>)"
proof -
  have "handle_checkz demo_ext demo_opts demo_front (demo_visit ''/checkz'' [] ''S1'' None) =
     XSession ''U1'' ''a@acme.com'' (Some [(''acme'', ''Acme'', [], [])])" by code_simp
  from checkz_guarded [OF this] show ?thesis by (simp add: demo_visit_def)
qed

text \<open>
  The address of the session is looked up as it is: in another letter case the registry's user
  is not found, although the resolver admits it.
\<close>

lemma checkz_address_verbatim:
  "lookup_tenants demo_ext demo_opts demo_front ''a@acme.com'' = Some [(''acme'', ''Acme'', [], [])] \<and>
   lookup_tenants demo_ext demo_opts demo_front ''A@acme.com'' = None"
  by code_simp

end
