(* ===== verification/Front_Configuration.thy ===== *)
theory Front_Configuration
  imports Process External_Guarantees
begin

text \<open>
  From the environment of the process to what its front door does: \<open>run\<close> of \<open>main.go\<close> and
  \<open>external.New\<close> composed with the request handlers of \<open>internal/external\<close>.
\<close>

text \<open>A URL that the configured lists permit: of a listed origin, or of a listed host without any origin listed.\<close>

definition listed_url :: "'a lib_scheme \<Rightarrow> (string \<Rightarrow> string) \<Rightarrow> string \<Rightarrow> bool" where
  "listed_url L env x \<longleftrightarrow> (\<exists>u. url_parse L x = Some u \<and> up_scheme u \<in> {''http'', ''https''} \<and> \<not> up_user u \<and>
     hostname (up_host u) \<noteq> [] \<and>
     (case split_csv (env ''SCITRERA_AUTH_ALLOWED_REDIRECT_ORIGINS'') of
        [] \<Rightarrow> \<exists>h \<in> set (split_csv (env ''SCITRERA_AUTH_ALLOWED_REDIRECT_HOSTS'')). to_lower L h = to_lower L (hostname (up_host u))
      | os \<Rightarrow> \<exists>o' \<in> set os. origin_matches L u o'))"

lemma allowed_url_listed: "allowed_url L (external_options env) x = listed_url L env x"
proof -
  have "trim_space h = h" if "h \<in> set (split_csv s)" for h s using split_csv_parts [OF that] by blast
  then show ?thesis
    unfolding allowed_url_def listed_url_def external_options_def
    by (cases "split_csv (env ''SCITRERA_AUTH_ALLOWED_REDIRECT_ORIGINS'')") (simp_all cong: bex_cong)
qed

lemma landing_redirect:
  assumes "handle_landing L opts c env r = (cs, XRedirect code dest)"
  shows "code = 302 \<and> is_authenticated env r \<and> (dest = eo_target opts \<or> local_path dest \<or> allowed_url L opts dest)"
proof (cases "er_method r \<in> {''GET'', ''HEAD''} \<and> is_authenticated env r")
  case True
  with assms handle_landing_authenticated [of r env L opts c] show ?thesis
    by (auto split: option.splits dest: sanitize_redirect_Some)
next
  case False
  with assms handle_landing_method [of r L opts c env] handle_landing_anonymous [of r env L opts c] show ?thesis
    by auto
qed


subsection \<open>Witness\<close>

definition front_env :: "string \<Rightarrow> string" where
  "front_env n =
     (if n = ''SCITRERA_MT_DB_URL'' then ''postgres://db''
      else if n = ''SCITRERA_AUTH_EXTERNAL_ADDR'' then '':8081''
      else if n = ''SCITRERA_AUTH_POST_LOGIN_TARGET'' then ''https://app.acme.com''
      else if n = ''SCITRERA_AUTH_ALLOWED_REDIRECT_HOSTS'' then '' docs.acme.com ,'' else [])"

definition front_outside :: outside where
  "front_outside = demo_outside\<lparr>ou_login := (\<lambda>_. Some \<lparr>lg_enabled = True,
     lg_providers = [\<lparr>lo_name = ''google'', lo_issuer = ''i'', lo_client = ''c'', lo_redirect = ''r''\<rparr>],
     lg_store = Some (''redis'', False, True), lg_registry = True, lg_handlers = True\<rparr>)\<rparr>"

lemma front_starts:
  assumes "verify_schema (\<lambda>_. None) c = Inr ()"
  shows "\<exists>s held acts f. startup demo_setup front_outside front_env \<lparr>wo_fs = demo_file, wo_catalog = c\<rparr> =
    (Inr (s, held), acts) \<and> sd_external s = Some f \<and> fr_opts f = external_options front_env"
proof -
  have p: "plan_listeners '':8080'' '':8081'' [] [] = Inr \<lparr>lp_internal = '':8080'', lp_external = '':8081'',
      lp_admin = [], lp_metrics = '':8080''\<rparr>"
    by code_simp
  have t: "fst (telemetry_init (front_env(''AUTH_PROXY_DB_URL'' := v)) (\<lambda>_. None) True) =
      Inr \<lparr>tl_metrics = True, tl_shutdown = [MeterProvider]\<rparr>" for v
  proof (rule telemetry_plain [where p = True, simplified])
    fix n assume "has_prefix n ''OTEL_''"
    then obtain r where "n = ''OTEL_'' @ r" unfolding has_prefix_def by (metis append_take_drop_id)
    then show "(front_env(''AUTH_PROXY_DB_URL'' := v)) n = []" by (simp add: front_env_def)
  qed
  have o: "external_options (front_env(''AUTH_PROXY_DB_URL'' := v)) = external_options front_env" for v
    by (simp add: external_options_def branding_from_env_def)
  have e: "front_env ''AUTH_PROXY_DB_URL'' = []" "front_env ''SCITRERA_MT_DB_URL'' = ''postgres://db''"
    "front_env ''SCITRERA_AUTH_EXTERNAL_ADDR'' = '':8081''" "front_env ''SCITRERA_AUTH_ADMIN_ADDR'' = []"
    "front_env ''SCITRERA_AUTH_METRICS_ADDR'' = []" "front_env ''SCITRERA_AUTH_POST_LOGIN_TARGET'' = ''https://app.acme.com''"
    "front_env ''SCITRERA_AUTH_CACHE_CAPACITY'' = []" "front_env ''SCITRERA_AUTH_CACHE_TTL'' = []"
    by (simp_all add: front_env_def)
  show ?thesis
    using assms t
    by (simp add: startup_def mtdb_new_def front_outside_def demo_outside_def e p start_planes_def external_new_def o)
qed

text \<open>A signed-in browser asking for a page on the listed host.\<close>

definition front_visit :: ext_req where
  "front_visit = demo_visit ''/'' [(''rd'', ''https://docs.acme.com'')] ''S1'' None"


end
