(* ===== verification/Lifecycle.thy ===== *)
theory Lifecycle
  imports Listeners Transition_Systems
begin

text \<open>
  The second half of \<open>run\<close> in \<open>main.go\<close>: the goroutines of a started process as a step relation.
  The internal plane is \<open>pkgauthproxy.Run\<close>, outside the repository: it may return at any time,
  and it does return once its context is cancelled.
\<close>

subsection \<open>State\<close>

datatype plane = PlaneRuns | PlaneSent "string option" | PlaneTaken

datatype listener = ListenerWaits | ListenerServes | ListenerGone

text \<open>
  Program counter of \<open>run\<close>: at the \<open>select\<close>; shutting down the remaining servers; waiting for the
  internal plane; returned. It carries \<open>runFailure\<close> and \<open>internalDone\<close>.
\<close>

datatype main_pc =
    Selecting
  | Stopping "string option" bool "string list"
  | Draining "string option" bool
  | Returned "string option"

record proc =
  ps_cancelled :: bool
  ps_init :: bool                      \<comment> \<open>\<open>libraryInitialized\<close> is closed\<close>
  ps_plane :: plane
  ps_listeners :: "string \<Rightarrow> listener"
  ps_errs :: "string option list"      \<comment> \<open>\<open>serveErrCh\<close>, oldest first\<close>
  ps_shut :: "string list"             \<comment> \<open>servers whose \<open>Shutdown\<close> was called\<close>
  ps_main :: main_pc

definition proc_start :: proc where
  "proc_start = \<lparr>ps_cancelled = False, ps_init = False, ps_plane = PlaneRuns, ps_listeners = (\<lambda>_. ListenerWaits),
     ps_errs = [], ps_shut = [], ps_main = Selecting\<rparr>"

subsection \<open>Steps\<close>

text \<open>What happens to the process from outside: a signal, a plane or a listener that fails.\<close>

inductive happens :: "string list \<Rightarrow> proc \<Rightarrow> proc \<Rightarrow> bool" for addrs where
  signal: "\<not> ps_cancelled s \<Longrightarrow> happens addrs s (s\<lparr>ps_cancelled := True\<rparr>)"
| plane_returns: "ps_plane s = PlaneRuns \<Longrightarrow> happens addrs s (s\<lparr>ps_plane := PlaneSent e\<rparr>)"
| listener_fails: "\<lbrakk>a \<in> set addrs; ps_listeners s a = ListenerServes\<rbrakk> \<Longrightarrow>
     happens addrs s (s\<lparr>ps_listeners := (ps_listeners s)(a := ListenerGone), ps_errs := ps_errs s @ [Some e]\<rparr>)"

text \<open>What the goroutines do by themselves.\<close>

inductive proceeds :: "string list \<Rightarrow> proc \<Rightarrow> proc \<Rightarrow> bool" for addrs where
  initialize: "\<lbrakk>ps_plane s = PlaneRuns; \<not> ps_init s\<rbrakk> \<Longrightarrow> proceeds addrs s (s\<lparr>ps_init := True\<rparr>)"
| plane_drains: "\<lbrakk>ps_plane s = PlaneRuns; ps_cancelled s\<rbrakk> \<Longrightarrow> proceeds addrs s (s\<lparr>ps_plane := PlaneSent e\<rparr>)"
| listener_starts: "\<lbrakk>a \<in> set addrs; ps_listeners s a = ListenerWaits; ps_init s\<rbrakk> \<Longrightarrow>
     proceeds addrs s (s\<lparr>ps_listeners := (ps_listeners s)(a := ListenerServes)\<rparr>)"
| listener_quits: "\<lbrakk>a \<in> set addrs; ps_listeners s a = ListenerWaits; ps_cancelled s\<rbrakk> \<Longrightarrow>
     proceeds addrs s (s\<lparr>ps_listeners := (ps_listeners s)(a := ListenerGone)\<rparr>)"
| listener_closes: "\<lbrakk>a \<in> set addrs; ps_listeners s a = ListenerServes; a \<in> set (ps_shut s)\<rbrakk> \<Longrightarrow>
     proceeds addrs s (s\<lparr>ps_listeners := (ps_listeners s)(a := ListenerGone), ps_errs := ps_errs s @ [None]\<rparr>)"
| main_signal: "\<lbrakk>ps_main s = Selecting; ps_cancelled s\<rbrakk> \<Longrightarrow>
     proceeds addrs s (s\<lparr>ps_main := Stopping None False addrs\<rparr>)"
| main_plane: "\<lbrakk>ps_main s = Selecting; ps_plane s = PlaneSent e\<rbrakk> \<Longrightarrow>
     proceeds addrs s (s\<lparr>ps_main := Stopping e True addrs, ps_plane := PlaneTaken, ps_cancelled := True\<rparr>)"
| main_listener: "\<lbrakk>ps_main s = Selecting; ps_errs s = e # es\<rbrakk> \<Longrightarrow>
     proceeds addrs s (s\<lparr>ps_main := Stopping e False addrs, ps_errs := es, ps_cancelled := True\<rparr>)"
| main_shutdown: "ps_main s = Stopping f d (a # as) \<Longrightarrow>
     proceeds addrs s (s\<lparr>ps_main := Stopping f d as, ps_shut := a # ps_shut s\<rparr>)"
| main_external: "ps_main s = Stopping f d [] \<Longrightarrow> proceeds addrs s (s\<lparr>ps_main := Draining f d\<rparr>)"
| main_drained: "ps_main s = Draining f True \<Longrightarrow> proceeds addrs s (s\<lparr>ps_main := Returned f\<rparr>)"
| main_waits: "\<lbrakk>ps_main s = Draining f False; ps_plane s = PlaneSent e\<rbrakk> \<Longrightarrow>
     proceeds addrs s (s\<lparr>ps_main := Returned f, ps_plane := PlaneTaken\<rparr>)"

definition proc_step :: "string list \<Rightarrow> proc \<Rightarrow> proc \<Rightarrow> bool" where
  "proc_step addrs s s' = (happens addrs s s' \<or> proceeds addrs s s')"

abbreviation proc_steps :: "string list \<Rightarrow> proc \<Rightarrow> proc \<Rightarrow> bool" where
  "proc_steps addrs \<equiv> (proc_step addrs)\<^sup>*\<^sup>*"

subsection \<open>Measure\<close>

fun plane_rank :: "plane \<Rightarrow> nat" where
  "plane_rank PlaneRuns = 2" | "plane_rank (PlaneSent e) = 1" | "plane_rank PlaneTaken = 0"

fun listener_rank :: "listener \<Rightarrow> nat" where
  "listener_rank ListenerWaits = 2" | "listener_rank ListenerServes = 1" | "listener_rank ListenerGone = 0"

fun main_rank :: "nat \<Rightarrow> main_pc \<Rightarrow> nat" where
  "main_rank n Selecting = n + 3"
| "main_rank n (Stopping f d as) = length as + 2"
| "main_rank n (Draining f d) = 1"
| "main_rank n (Returned f) = 0"

definition proc_rank :: "string list \<Rightarrow> proc \<Rightarrow> nat" where
  "proc_rank addrs s = (if ps_cancelled s then 0 else 1) + (if ps_init s then 0 else 1) + plane_rank (ps_plane s) +
     (\<Sum>a \<in> set addrs. listener_rank (ps_listeners s a)) + main_rank (length addrs) (ps_main s)"

lemma sum_listeners_less:
  assumes "a \<in> set addrs" "listener_rank l < listener_rank (f a)"
  shows "(\<Sum>b \<in> set addrs. listener_rank ((f(a := l)) b)) < (\<Sum>b \<in> set addrs. listener_rank (f b))"
  using assms by (intro sum_strict_mono_ex1) auto

lemma proc_step_rank: "proc_step addrs s s' \<Longrightarrow> proc_rank addrs s' < proc_rank addrs s"
  unfolding proc_step_def
proof (elim disjE)
  assume "happens addrs s s'"
  then show ?thesis
    using sum_listeners_less [of _ addrs ListenerGone "ps_listeners s"]
    by (cases rule: happens.cases) (auto simp: proc_rank_def simp del: fun_upd_apply)
next
  assume "proceeds addrs s s'"
  then show ?thesis
    using sum_listeners_less [of _ addrs _ "ps_listeners s"]
    by (cases rule: proceeds.cases) (auto simp: proc_rank_def simp del: fun_upd_apply)
qed

subsection \<open>Invariant\<close>

definition stopping :: "main_pc \<Rightarrow> bool" where
  "stopping pc = (pc \<noteq> Selecting)"

fun pending :: "string list \<Rightarrow> main_pc \<Rightarrow> string list" where
  "pending addrs Selecting = addrs"
| "pending addrs (Stopping f d as) = as"
| "pending addrs _ = []"

fun plane_done :: "main_pc \<Rightarrow> bool" where
  "plane_done (Stopping f d as) = d" | "plane_done (Draining f d) = d" | "plane_done (Returned f) = True"
| "plane_done Selecting = False"

definition gone :: "string list \<Rightarrow> (string \<Rightarrow> listener) \<Rightarrow> nat" where
  "gone addrs f = card {a \<in> set addrs. f a = ListenerGone}"

definition proc_inv :: "string list \<Rightarrow> proc \<Rightarrow> bool" where
  "proc_inv addrs s =
     ((stopping (ps_main s) \<longrightarrow> ps_cancelled s) \<and>
      set (pending addrs (ps_main s)) \<union> set (ps_shut s) = set addrs \<and>
      (plane_done (ps_main s) \<longleftrightarrow> ps_plane s = PlaneTaken) \<and>
      length (ps_errs s) \<le> gone addrs (ps_listeners s) \<and>
      (ps_main s = Selecting \<longrightarrow> ps_shut s = [] \<and> None \<notin> set (ps_errs s)))"

lemma proc_rank_start: "proc_rank addrs proc_start \<le> 3 * length addrs + 7"
  using card_length [of addrs] by (simp add: proc_rank_def proc_start_def)

lemma gone_update:
  assumes "a \<in> set addrs" "f a \<noteq> ListenerGone"
  shows "gone addrs (f(a := ListenerGone)) = Suc (gone addrs f)"
proof -
  from assms have "{b \<in> set addrs. (f(a := ListenerGone)) b = ListenerGone} = insert a {b \<in> set addrs. f b = ListenerGone}" by auto
  with assms show ?thesis by (simp add: gone_def)
qed

lemma gone_start: "f a = ListenerWaits \<Longrightarrow> gone addrs (f(a := ListenerServes)) = gone addrs f"
  by (auto simp: gone_def intro!: arg_cong [where f = card])

lemma gone_bound: "gone addrs f \<le> length addrs"
  unfolding gone_def by (rule order_trans [OF card_mono [of "set addrs"] card_length]) auto

lemma proc_inv_start: "proc_inv addrs proc_start"
  by (simp add: proc_inv_def proc_start_def stopping_def)

lemma proc_inv_happens: "happens addrs s s' \<Longrightarrow> proc_inv addrs s \<Longrightarrow> proc_inv addrs s'"
  by (induction rule: happens.induct)
    (auto simp: proc_inv_def gone_update simp del: fun_upd_apply)

lemma proc_inv_proceeds: "proceeds addrs s s' \<Longrightarrow> proc_inv addrs s \<Longrightarrow> proc_inv addrs s'"
  by (induction rule: proceeds.induct)
    (auto simp: proc_inv_def gone_update gone_start stopping_def simp del: fun_upd_apply)

interpretation proc: invariant_steps "proc_step addrs" "proc_inv addrs" for addrs
  by unfold_locales (auto simp: proc_step_def intro: proc_inv_happens proc_inv_proceeds)

interpretation proc: ranked_steps "proc_step addrs" "proc_rank addrs" for addrs
  by unfold_locales (rule proc_step_rank)

interpretation proceeds: ranked_steps "proceeds addrs" "proc_rank addrs" for addrs
  by unfold_locales (simp add: proc_step_rank proc_step_def)

lemma proc_rank_reachable:
  assumes "proc_steps addrs proc_start s"
  shows "proc_rank addrs s \<le> 3 * length addrs + 7"
proof -
  obtain n where "(proc_step addrs ^^ n) proc_start s" using rtranclp_imp_relpowp [OF assms] by blast
  from proc.steps_bounded [OF this] proc_rank_start [of addrs] show ?thesis by simp
qed

lemma proc_inv_reachable: "proc_steps addrs proc_start s \<Longrightarrow> proc_inv addrs s"
  by (rule proc.inv_steps [OF _ proc_inv_start])

subsection \<open>Properties\<close>


definition woken :: "proc \<Rightarrow> bool" where
  "woken s = (ps_cancelled s \<or> ps_plane s \<noteq> PlaneRuns \<or> ps_errs s \<noteq> [])"

lemma proceeds_woken: "proceeds addrs s s' \<Longrightarrow> woken s \<Longrightarrow> woken s'"
  by (induction rule: proceeds.induct) (auto simp: woken_def)

interpretation woken: invariant_steps "proceeds addrs" woken for addrs
  by unfold_locales (rule proceeds_woken)

lemma at_rest:
  assumes "proc_steps (extra_addresses p) proc_start s" "\<nexists>s'. proceeds (extra_addresses p) s s'"
    and "woken s"
  shows "(\<exists>f. ps_main s = Returned f) \<and> ps_plane s = PlaneTaken \<and>
    (\<forall>a \<in> set (extra_addresses p). ps_listeners s a = ListenerGone \<and> a \<in> set (ps_shut s))"
proof -
  let ?as = "extra_addresses p"
  have i: "proc_inv ?as s" by (rule proc_inv_reachable [OF assms(1)])
  have plane: "\<not> (ps_plane s = PlaneRuns \<and> ps_cancelled s)" using assms(2) by (blast intro: plane_drains)
  have main: "\<exists>f. ps_main s = Returned f"
  proof (cases "ps_main s")
    case Selecting
    have "\<not> ps_cancelled s" using assms(2) main_signal [OF Selecting] by blast
    moreover have "ps_errs s = []" using assms(2) main_listener [OF Selecting] by (cases "ps_errs s") blast+
    moreover have "\<And>e. ps_plane s \<noteq> PlaneSent e" using assms(2) main_plane [OF Selecting] by blast
    moreover have "ps_plane s \<noteq> PlaneTaken" using i Selecting by (simp add: proc_inv_def)
    ultimately have False using assms(3) by (cases "ps_plane s") (auto simp: woken_def)
    then show ?thesis ..
  next
    case (Stopping f d as)
    then show ?thesis using assms(2) main_shutdown main_external by (cases as) blast+
  next
    case (Draining f d)
    have c: "ps_cancelled s" using i Draining by (simp add: proc_inv_def stopping_def)
    have d: "\<not> d" using assms(2) Draining main_drained by (cases d) auto
    then have "ps_plane s \<noteq> PlaneTaken" using i Draining by (simp add: proc_inv_def)
    moreover have "ps_main s = Draining f False" using Draining d by simp
    then have "ps_plane s \<noteq> PlaneSent e" for e using assms(2) main_waits by blast
    ultimately show ?thesis using plane c by (cases "ps_plane s") auto
  qed blast
  then have r: "ps_plane s = PlaneTaken" "ps_cancelled s" "set ?as = set (ps_shut s)"
    using i by (auto simp: proc_inv_def stopping_def)
  have "ps_listeners s a = ListenerGone" if a: "a \<in> set ?as" for a
  proof (cases "ps_listeners s a")
    case ListenerWaits
    with assms(2) listener_quits [OF a] r(2) show ?thesis by blast
  next
    case ListenerServes
    with assms(2) listener_closes [OF a] r(3) a show ?thesis by blast
  qed simp
  with main r show ?thesis by blast
qed

text \<open>C30. Shutdown completes. Once a signal arrived, the internal plane returned or a listener failed,
  then whatever the goroutines do next, they come to rest within \<open>3 n + 7\<close> steps of their own, and
  where they rest \<open>run\<close> has returned, the internal plane is drained, every server was shut down and
  every listener is gone: nothing blocks for ever.\<close>

theorem shutdown_completes:
  assumes "proc_steps (extra_addresses p) proc_start s"
    and "ps_cancelled s \<or> ps_plane s \<noteq> PlaneRuns \<or> ps_errs s \<noteq> []"
  shows "(\<exists>t. (proceeds (extra_addresses p))\<^sup>*\<^sup>* s t \<and> (\<nexists>u. proceeds (extra_addresses p) t u)) \<and>
    (\<forall>k t. (proceeds (extra_addresses p) ^^ k) s t \<longrightarrow> k \<le> 3 * length (extra_addresses p) + 7 \<and>
       ((\<nexists>u. proceeds (extra_addresses p) t u) \<longrightarrow>
          (\<exists>f. ps_main t = Returned f) \<and> ps_plane t = PlaneTaken \<and>
          (\<forall>a \<in> set (extra_addresses p). ps_listeners t a = ListenerGone \<and> a \<in> set (ps_shut t))))"
proof (intro conjI allI impI)
  let ?as = "extra_addresses p"
  show "\<exists>t. (proceeds ?as)\<^sup>*\<^sup>* s t \<and> (\<nexists>u. proceeds ?as t u)" by (rule proceeds.comes_to_rest)
  fix k t
  assume k: "(proceeds ?as ^^ k) s t"
  show "k \<le> 3 * length ?as + 7"
    using proceeds.steps_bounded [OF k] proc_rank_reachable [OF assms(1)] by simp
  have t: "(proceeds ?as)\<^sup>*\<^sup>* s t" using k by (rule relpowp_imp_rtranclp)
  then have "proc_steps ?as s t" by (rule rtranclp_mono [THEN predicate2D, rotated]) (auto simp: proc_step_def)
  with assms(1) have r: "proc_steps ?as proc_start t" by (rule rtranclp_trans)
  have "woken s" using assms(2) by (simp add: woken_def)
  with t have w: "woken t" by (rule woken.inv_steps)
  assume "\<nexists>u. proceeds ?as t u"
  from at_rest [OF r this w] show "\<exists>f. ps_main t = Returned f" "ps_plane t = PlaneTaken"
    "\<forall>a \<in> set ?as. ps_listeners t a = ListenerGone \<and> a \<in> set (ps_shut t)"
    by blast+
qed

text \<open>Order of the shutdown. When \<open>run\<close> returns, so that its deferred calls close the registry,
  the internal plane has drained and every server was told to shut down. No goroutine ever blocks on
  \<open>serveErrCh\<close>: it never holds more than its capacity, one slot per extra address.\<close>

theorem drained_before_return:
  assumes "proc_steps (extra_addresses p) proc_start s"
  shows "length (ps_errs s) \<le> length (extra_addresses p) \<and>
    (\<forall>f. ps_main s = Returned f \<longrightarrow> ps_plane s = PlaneTaken \<and> ps_cancelled s \<and>
       set (extra_addresses p) \<subseteq> set (ps_shut s))"
  using proc_inv_reachable [OF assms] gone_bound [of "extra_addresses p" "ps_listeners s"]
  by (auto simp: proc_inv_def stopping_def)

subsection \<open>Witnesses\<close>

definition one_listener :: listener_plan where
  "one_listener = \<lparr>lp_internal = '':8080'', lp_external = '':8081'', lp_admin = [], lp_metrics = '':8080''\<rparr>"

definition demo_stopped :: proc where
  "demo_stopped = \<lparr>ps_cancelled = True, ps_init = True, ps_plane = PlaneTaken,
     ps_listeners = (\<lambda>_. ListenerWaits)('':8081'' := ListenerGone), ps_errs = [], ps_shut = ['':8081''], ps_main = Returned None\<rparr>"

lemma one_listener_extra: "extra_addresses one_listener = ['':8081'']"
  by (simp add: one_listener_def extra_addresses_def)

lemma proceeds_then: "proc_steps as s t \<Longrightarrow> proceeds as t u \<Longrightarrow> proc_steps as s u"
  by (simp add: proc_step_def rtranclp.rtrancl_into_rtrancl)

lemma demo_shutdown: "proc_steps ['':8081''] proc_start demo_stopped"
proof -
  let ?A = "['':8081'']"
  let ?s1 = "proc_start\<lparr>ps_cancelled := True\<rparr>"
  let ?s2 = "?s1\<lparr>ps_init := True\<rparr>"
  let ?s3 = "?s2\<lparr>ps_listeners := (ps_listeners ?s2)('':8081'' := ListenerGone)\<rparr>"
  let ?s4 = "?s3\<lparr>ps_plane := PlaneSent None\<rparr>"
  let ?s5 = "?s4\<lparr>ps_main := Stopping None False ?A\<rparr>"
  let ?s6 = "?s5\<lparr>ps_main := Stopping None False [], ps_shut := '':8081'' # ps_shut ?s5\<rparr>"
  let ?s7 = "?s6\<lparr>ps_main := Draining None False\<rparr>"
  let ?s8 = "?s7\<lparr>ps_main := Returned None, ps_plane := PlaneTaken\<rparr>"
  have "happens ?A proc_start ?s1" by (rule signal) (simp add: proc_start_def)
  then have "proc_steps ?A proc_start ?s1" by (auto simp: proc_step_def)
  then have "proc_steps ?A proc_start ?s2" by (rule proceeds_then, intro initialize) (simp_all add: proc_start_def)
  then have "proc_steps ?A proc_start ?s3" by (rule proceeds_then, intro listener_quits) (simp_all add: proc_start_def)
  then have "proc_steps ?A proc_start ?s4" by (rule proceeds_then, intro plane_drains) (simp_all add: proc_start_def)
  then have "proc_steps ?A proc_start ?s5" by (rule proceeds_then, intro main_signal) (simp_all add: proc_start_def)
  then have "proc_steps ?A proc_start ?s6" by (rule proceeds_then, intro main_shutdown) (simp_all add: proc_start_def)
  then have "proc_steps ?A proc_start ?s7" by (rule proceeds_then, intro main_external) (simp_all add: proc_start_def)
  then have "proc_steps ?A proc_start ?s8" by (rule proceeds_then, intro main_waits) (simp_all add: proc_start_def)
  then show ?thesis by (simp add: proc_start_def demo_stopped_def)
qed


theorem shutdown_completes_witness:
  "\<exists>t. proc_steps ['':8081''] proc_start (proc_start\<lparr>ps_cancelled := True\<rparr>) \<and>
     (proceeds ['':8081''])\<^sup>*\<^sup>* (proc_start\<lparr>ps_cancelled := True\<rparr>) t \<and> (\<exists>f. ps_main t = Returned f)"
proof -
  let ?s = "proc_start\<lparr>ps_cancelled := True\<rparr>"
  have "happens ['':8081''] proc_start ?s" by (rule signal) (simp add: proc_start_def)
  then have s: "proc_steps (extra_addresses one_listener) proc_start ?s"
    unfolding one_listener_extra by (auto simp: proc_step_def)
  have c: "ps_cancelled ?s \<or> ps_plane ?s \<noteq> PlaneRuns \<or> ps_errs ?s \<noteq> []" by simp
  from shutdown_completes [OF s c, unfolded one_listener_extra] obtain t where
    "(proceeds ['':8081''])\<^sup>*\<^sup>* ?s t" "\<exists>f. ps_main t = Returned f"
    by (metis rtranclp_imp_relpowp)
  with s show ?thesis unfolding one_listener_extra by blast
qed

theorem drained_before_return_witness: "ps_plane demo_stopped = PlaneTaken \<and> set ['':8081''] \<subseteq> set (ps_shut demo_stopped)"
  using drained_before_return [of one_listener demo_stopped] demo_shutdown unfolding one_listener_extra
  by (simp add: demo_stopped_def)

end
