(* ===== verification/Replica_Concurrency.thy ===== *)
theory Replica_Concurrency
  imports Cache_Concurrency Revision_Gate Enrollment Transition_Systems
begin

text \<open>
  One replica at the granularity of its critical sections: requests that overlap, the revision
  gate with its mutex and its probe, and a cache of \<open>Cache_Concurrency\<close> that the gate purges,
  while registries are committed elsewhere. Each request passes \<open>RevisionGate.Check\<close> and then
  calls \<open>TTLCache.Get\<close> any number of times; what it does with the values is the subject of
  \<open>Overlapping_Requests\<close>. \<open>look\<close> is the cache's loader (of users, domains or
  policies) on a committed registry.

  \<open>rp_commits\<close> is the history of the registry, the oldest first, and \<open>rp_born e\<close> how many registries
  had been committed when the cache's epoch \<open>e\<close> began. No rule of the program reads them, except
  that a loader reads a registry in force while it runs.
\<close>

subsection \<open>State and steps\<close>

datatype request = Idle | Asked int | Through int | Denied      \<comment> \<open>with the time the request began\<close>

record gate_probe =
  gp_by :: nat
  gp_now :: int              \<comment> \<open>the clock at the window check\<close>
  gp_started :: int
  gp_read :: "int option"    \<comment> \<open>the revision, once read\<close>
  gp_cleared :: bool         \<comment> \<open>\<open>Invalidate\<close> has purged the cache\<close>

record 'v replica =
  rp_cache :: "(err, 'v) cache_sys"
  rp_gate :: gate
  rp_probe :: "gate_probe option"      \<comment> \<open>the request that holds the mutex during a probe\<close>
  rp_req :: "nat \<Rightarrow> request"
  rp_commits :: "(int \<times> mtdb) list"
  rp_born :: "nat \<Rightarrow> nat"

abbreviation rp_clock :: "'v replica \<Rightarrow> int" where
  "rp_clock s \<equiv> clock (rp_cache s)"

abbreviation rp_epoch :: "'v replica \<Rightarrow> nat" where
  "rp_epoch s \<equiv> epoch (rp_cache s)"

definition fresh_replica :: "int \<Rightarrow> int \<Rightarrow> int \<Rightarrow> int \<Rightarrow> mtdb \<Rightarrow> 'v replica" where
  "fresh_replica cap t iv now d = \<lparr>rp_cache = init_sys cap t now, rp_gate = new_gate iv, rp_probe = None,
     rp_req = (\<lambda>_. Idle), rp_commits = [(now, d)], rp_born = (\<lambda>_. 1)\<rparr>"

definition current_revision :: "'v replica \<Rightarrow> int" where
  "current_revision s = db_revision (snd (last (rp_commits s)))"

text \<open>The cache moves on; a new epoch remembers the commits so far.\<close>

definition with_cache :: "(err, 'v) cache_sys \<Rightarrow> 'v replica \<Rightarrow> 'v replica" where
  "with_cache c s = s\<lparr>rp_cache := c,
     rp_born := (if epoch c = rp_epoch s then rp_born s else (rp_born s)(epoch c := length (rp_commits s)))\<rparr>"

text \<open>\<open>TTLCache.Purge\<close>.\<close>

definition purged_cache :: "('e, 'v) cache_sys \<Rightarrow> ('e, 'v) cache_sys" where
  "purged_cache c = c\<lparr>cache := purge (cache c), epoch := Suc (epoch c),
     hist := (hist c)(Suc (epoch c) := (\<lambda>_. Suc (epoch c)))\<rparr>"

text \<open>Loaded values were read from a registry in force since the loader was called.\<close>

definition loads_from :: "(mtdb \<Rightarrow> string \<Rightarrow> err + 'v) \<Rightarrow> 'v replica \<Rightarrow> (string \<times> 'v \<times> nat \<times> int) set \<Rightarrow> bool" where
  "loads_from look s new \<longleftrightarrow> (\<forall>(k, v, ep, st) \<in> new. \<exists>q. rp_born s ep \<le> Suc q \<and> q < length (rp_commits s) \<and>
     look (snd (rp_commits s ! q)) k = Inr v)"

inductive rep_step ::
  "(mtdb \<Rightarrow> string \<Rightarrow> err + 'v) \<Rightarrow> (nat \<Rightarrow> nat) \<Rightarrow> 'v replica \<Rightarrow> 'v replica \<Rightarrow> bool" for look own where
  commit: "current_revision s \<le> db_revision d \<Longrightarrow>
     rep_step look own s (s\<lparr>rp_commits := rp_commits s @ [(rp_clock s, d)]\<rparr>)"
| ask: "rp_req s i = Idle \<Longrightarrow> rep_step look own s (s\<lparr>rp_req := (rp_req s)(i := Asked (rp_clock s))\<rparr>)"
| fresh: "rp_req s i = Asked b \<Longrightarrow> rp_probe s = None \<Longrightarrow> within_window (rp_gate s) (rp_clock s) \<Longrightarrow>
     rep_step look own s (s\<lparr>rp_req := (rp_req s)(i := Through b)\<rparr>)"
| probe: "rp_req s i = Asked b \<Longrightarrow> rp_probe s = None \<Longrightarrow> b \<le> now \<Longrightarrow> now \<le> rp_clock s \<Longrightarrow>
     \<not> within_window (rp_gate s) now \<Longrightarrow>
     rep_step look own s (s\<lparr>rp_probe := Some \<lparr>gp_by = i, gp_now = now, gp_started = rp_clock s, gp_read = None, gp_cleared = False\<rparr>\<rparr>)"
| read: "rp_probe s = Some p \<Longrightarrow> gp_read p = None \<Longrightarrow>
     rep_step look own s (s\<lparr>rp_probe := Some (p\<lparr>gp_read := Some (current_revision s)\<rparr>)\<rparr>)"
| clear: "rp_probe s = Some p \<Longrightarrow> gp_read p = Some rv \<Longrightarrow> \<not> gp_cleared p \<Longrightarrow>
     gate_check (rp_gate s) (gp_now p) (gp_started p) (Inr rv :: err + int) = (g, True, Inr ()) \<Longrightarrow>
     rep_step look own s ((with_cache (purged_cache (rp_cache s)) s)\<lparr>rp_probe := Some (p\<lparr>gp_cleared := True\<rparr>)\<rparr>)"
| open_gate: "rp_probe s = Some p \<Longrightarrow> gp_read p = Some rv \<Longrightarrow> rp_req s (gp_by p) = Asked b \<Longrightarrow>
     gate_check (rp_gate s) (gp_now p) (gp_started p) (Inr rv :: err + int) = (g, changed, Inr ()) \<Longrightarrow>
     (changed \<Longrightarrow> gp_cleared p) \<Longrightarrow>
     rep_step look own s (s\<lparr>rp_gate := g, rp_probe := None, rp_req := (rp_req s)(gp_by p := Through b)\<rparr>)"
| deny: "rp_probe s = Some p \<Longrightarrow>
     gate_check (rp_gate s) (gp_now p) (gp_started p) (Inl e :: err + int) = (g, changed, Inl e) \<Longrightarrow>
     rep_step look own s (s\<lparr>rp_gate := g, rp_probe := None, rp_req := (rp_req s)(gp_by p := Denied)\<rparr>)"
| work: "cache_step (rp_cache s) c \<Longrightarrow>
     (\<And>j. getters (rp_cache s) j = None \<Longrightarrow> getters c j \<noteq> None \<Longrightarrow> \<exists>b. rp_req s (own j) = Through b) \<Longrightarrow>
     loads_from look s (loads c - loads (rp_cache s)) \<Longrightarrow>
     rep_step look own s (with_cache c s)"

abbreviation rep_steps ::
  "(mtdb \<Rightarrow> string \<Rightarrow> err + 'v) \<Rightarrow> (nat \<Rightarrow> nat) \<Rightarrow> 'v replica \<Rightarrow> 'v replica \<Rightarrow> bool" where
  "rep_steps look own \<equiv> (rep_step look own)\<^sup>*\<^sup>*"

inductive_cases rep_stepE: "rep_step look own s s'"

subsection \<open>What a cache step leaves alone\<close>

lemma cache_step_history:
  "cache_step c c' \<Longrightarrow> (\<forall>n \<le> epoch c. hist c' n = hist c n) \<and> loads c \<subseteq> loads c' \<and>
     (epoch c' = epoch c \<or> epoch c' = Suc (epoch c) \<and> loads c' = loads c) \<and> clock c \<le> clock c'"
  by (induction rule: cache_step.induct) (auto simp: set_pc_def set_phase_def)

lemma cache_step_getter:
  "cache_step c c' \<Longrightarrow> getters c' j = Some th' \<Longrightarrow>
     getters c j = None \<and> th_e0 th' = epoch c \<or>
     (\<exists>th. getters c j = Some th \<and> th_e0 th' = th_e0 th \<and> th_key th' = th_key th)"
  by (induction rule: cache_step.induct) (auto simp: set_pc_def set_phase_def split: if_split_asm)

text \<open>Loads begin in epochs that have begun.\<close>

definition begun :: "nat \<Rightarrow> ('e, 'v) flight_phase \<Rightarrow> bool" where
  "begun n ph \<longleftrightarrow> (case ph of FLoading st ep \<Rightarrow> ep \<le> n | _ \<Rightarrow> True)"

lemma begun_simps [simp]:
  "begun n FCheck" "begun n FMiss" "begun n (FLoading st ep) \<longleftrightarrow> ep \<le> n" "begun n (FLoaded st ep v)" "begun n (FDone r)"
  by (simp_all add: begun_def)

lemma begun_Suc: "begun n ph \<Longrightarrow> begun (Suc n) ph"
  by (cases ph) auto

definition loading_ok :: "('e, 'v) cache_sys \<Rightarrow> bool" where
  "loading_ok c \<longleftrightarrow> (\<forall>(k, v, ep, st) \<in> loads c. ep \<le> epoch c) \<and> (\<forall>f \<in> set (flights c). begun (epoch c) (fl_phase f))"

lemma loading_ok_phase:
  assumes "loading_ok c" "begun (epoch c) ph"
  shows "loading_ok (set_phase j ph c)"
proof -
  have "begun (epoch c) (fl_phase f)" if "f \<in> set ((flights c)[j := (flights c ! j)\<lparr>fl_phase := ph\<rparr>])" for f
    using subsetD [OF set_update_subset_insert that] assms by (auto simp: loading_ok_def)
  with assms(1) show ?thesis by (simp add: loading_ok_def set_phase_def)
qed

lemma cache_step_loading: "cache_step c c' \<Longrightarrow> loading_ok c \<Longrightarrow> loading_ok c'"
proof (induction rule: cache_step.induct)
  case (fl_load j s st ep v)
  have "begun (epoch s) (fl_phase (flights s ! j))"
    using fl_load(3) nth_mem [OF fl_load(1)] by (simp add: loading_ok_def)
  then have "ep \<le> epoch s" by (simp add: fl_load(2))
  then have "loading_ok (s\<lparr>loads := insert (fl_key (flights s ! j), v, ep, st) (loads s)\<rparr>)"
    using fl_load(3) by (simp add: loading_ok_def)
  then show ?case by (rule loading_ok_phase) simp
next
  case (fl_publish j s st ep v pick)
  then have "loading_ok (s\<lparr>cache := publish pick (fl_gen (flights s ! j)) (fl_key (flights s ! j)) v st (cache s)\<rparr>)"
    by (simp add: loading_ok_def)
  then show ?case by (rule loading_ok_phase) simp
next
  case (do_invalidate s k)
  then show ?case by (auto simp: loading_ok_def intro: le_SucI begun_Suc)
next
  case (do_purge s)
  then show ?case by (auto simp: loading_ok_def intro: le_SucI begun_Suc)
next
  case (fl_hit j s en)
  show ?case by (rule loading_ok_phase [OF fl_hit(5)]) simp
next
  case (fl_miss j s)
  show ?case by (rule loading_ok_phase [OF fl_miss(4)]) simp
next
  case (fl_start j s)
  show ?case by (rule loading_ok_phase [OF fl_start(3)]) simp
next
  case (fl_fail j s st ep e)
  show ?case by (rule loading_ok_phase [OF fl_fail(3)]) simp
qed (simp_all add: loading_ok_def set_pc_def)

subsection \<open>The invariant\<close>

text \<open>In epoch \<open>p\<close> everything was retired; the registry was then at least at revision \<open>rv\<close>.\<close>

definition purged :: "'v replica \<Rightarrow> nat \<Rightarrow> int \<Rightarrow> bool" where
  "purged s p rv \<longleftrightarrow> p \<le> rp_epoch s \<and> (\<forall>k. hist (rp_cache s) p k = p) \<and>
     rv \<le> db_revision (snd (rp_commits s ! (rp_born s p - 1)))"

text \<open>What a request that began at time \<open>b\<close> may rely on from epoch \<open>n\<close> on.\<close>

definition covered :: "'v replica \<Rightarrow> int \<Rightarrow> nat \<Rightarrow> bool" where
  "covered s b n \<longleftrightarrow> b \<le> rp_clock s \<and>
     (\<forall>t d. (t, d) \<in> set (rp_commits s) \<and> t + gate_interval (rp_gate s) \<le> b \<longrightarrow> (\<exists>p \<le> n. purged s p (db_revision d)))"

definition history_ok :: "'v replica \<Rightarrow> bool" where
  "history_ok s \<longleftrightarrow> rp_commits s \<noteq> [] \<and> sorted (map (db_revision \<circ> snd) (rp_commits s)) \<and>
     (\<forall>e \<le> rp_epoch s. 1 \<le> rp_born s e \<and> rp_born s e \<le> length (rp_commits s)) \<and>
     (\<forall>e e'. e \<le> e' \<and> e' \<le> rp_epoch s \<longrightarrow> rp_born s e \<le> rp_born s e')"

definition gate_inv :: "'v replica \<Rightarrow> bool" where
  "gate_inv s \<longleftrightarrow> 0 < gate_interval (rp_gate s) \<and>
     (\<forall>c. gate_checked (rp_gate s) = Some c \<longrightarrow>
        (\<forall>(t, d) \<in> set (rp_commits s). t < c \<longrightarrow> db_revision d \<le> gate_revision (rp_gate s)) \<and> c \<le> rp_clock s \<and>
        (\<exists>p. purged s p (gate_revision (rp_gate s))))"

definition probe_inv :: "'v replica \<Rightarrow> gate_probe \<Rightarrow> bool" where
  "probe_inv s p \<longleftrightarrow> (\<exists>b. rp_req s (gp_by p) = Asked b \<and> b \<le> gp_now p) \<and> gp_now p \<le> gp_started p \<and>
     gp_started p \<le> rp_clock s \<and> \<not> within_window (rp_gate s) (gp_now p) \<and>
     (\<forall>rv. gp_read p = Some rv \<longrightarrow> rv \<le> current_revision s \<and>
        (\<forall>(t, d) \<in> set (rp_commits s). t < gp_started p \<longrightarrow> db_revision d \<le> rv)) \<and>
     (gp_cleared p \<longrightarrow> (\<exists>rv q. gp_read p = Some rv \<and> purged s q rv))"

definition calls_inv :: "(nat \<Rightarrow> nat) \<Rightarrow> 'v replica \<Rightarrow> bool" where
  "calls_inv own s \<longleftrightarrow> (\<forall>i b. rp_req s i = Asked b \<longrightarrow> b \<le> rp_clock s) \<and>
     (\<forall>i b. rp_req s i = Through b \<longrightarrow> covered s b (rp_epoch s)) \<and>
     (\<forall>j th. getters (rp_cache s) j = Some th \<longrightarrow> th_e0 th \<le> rp_epoch s \<and>
        (\<exists>b. rp_req s (own j) = Through b \<and> covered s b (th_e0 th)))"

definition rep_inv :: "(mtdb \<Rightarrow> string \<Rightarrow> err + 'v) \<Rightarrow> (nat \<Rightarrow> nat) \<Rightarrow> 'v replica \<Rightarrow> bool" where
  "rep_inv look own s \<longleftrightarrow> history_ok s \<and> gate_inv s \<and> (\<forall>p. rp_probe s = Some p \<longrightarrow> probe_inv s p) \<and>
     calls_inv own s \<and> loads_from look s (loads (rp_cache s)) \<and> loading_ok (rp_cache s)"

subsection \<open>Preservation\<close>

text \<open>What every step keeps of the past.\<close>

definition rep_later :: "'v replica \<Rightarrow> 'v replica \<Rightarrow> bool" where
  "rep_later s s' \<longleftrightarrow> rp_epoch s \<le> rp_epoch s' \<and> rp_clock s \<le> rp_clock s' \<and>
     (\<forall>n \<le> rp_epoch s. hist (rp_cache s') n = hist (rp_cache s) n \<and> rp_born s' n = rp_born s n) \<and>
     (\<exists>new. rp_commits s' = rp_commits s @ new \<and> (\<forall>(t, d) \<in> set new. rp_clock s \<le> t)) \<and>
     gate_interval (rp_gate s') = gate_interval (rp_gate s)"

lemma purged_later:
  assumes "purged s p rv" "rep_later s s'" "history_ok s"
  shows "purged s' p rv"
proof -
  have "rp_born s p - 1 < length (rp_commits s)"
    using assms(1,3) by (auto simp: purged_def history_ok_def)
  with assms(1,2) show ?thesis by (auto simp: purged_def rep_later_def nth_append)
qed

lemma covered_later:
  assumes "covered s b n" "rep_later s s'" "history_ok s" "0 < gate_interval (rp_gate s)"
  shows "covered s' b n"
  unfolding covered_def
proof (intro conjI allI impI)
  show "b \<le> rp_clock s'" using assms(1,2) by (auto simp: covered_def rep_later_def)
  fix t d assume td: "(t, d) \<in> set (rp_commits s') \<and> t + gate_interval (rp_gate s') \<le> b"
  obtain new where new: "rp_commits s' = rp_commits s @ new" "\<forall>(t, d) \<in> set new. rp_clock s \<le> t"
    "gate_interval (rp_gate s') = gate_interval (rp_gate s)"
    using assms(2) by (auto simp: rep_later_def)
  have "(t, d) \<notin> set new" using new(2,3) td assms(1,4) by (force simp: covered_def)
  with td new have "(t, d) \<in> set (rp_commits s) \<and> t + gate_interval (rp_gate s) \<le> b" by simp
  with assms(1) obtain p where "p \<le> n" "purged s p (db_revision d)" by (auto simp: covered_def)
  with purged_later [OF _ assms(2,3)] show "\<exists>p \<le> n. purged s' p (db_revision d)" by blast
qed

lemma covered_mono: "covered s b n \<Longrightarrow> n \<le> n' \<Longrightarrow> covered s b n'"
  unfolding covered_def by (meson le_trans)

lemma with_cache_later:
  assumes "(\<forall>n \<le> rp_epoch s. hist c n = hist (rp_cache s) n)" "rp_epoch s \<le> epoch c" "rp_clock s \<le> clock c"
  shows "rep_later s (with_cache c s)"
  using assms by (auto simp: rep_later_def with_cache_def)

lemma gate_check_keeps_interval: "gate_check g now st load = (g', i, r) \<Longrightarrow> gate_interval g' = gate_interval g"
  using gate_check_interval [of g now st load] by simp

lemma rep_step_later: "rep_step look own s s' \<Longrightarrow> rep_later s s'"
proof (induction rule: rep_step.induct)
  case (clear s p rv g)
  have "rep_later s (with_cache (purged_cache (rp_cache s)) s)"
    by (rule with_cache_later) (simp_all add: purged_cache_def)
  then show ?case by (simp add: rep_later_def)
next
  case (open_gate s p rv b g changed)
  with gate_check_keeps_interval [OF open_gate(4)] show ?case by (simp add: rep_later_def)
next
  case (deny s p e g changed)
  with gate_check_keeps_interval [OF deny(2)] show ?case by (simp add: rep_later_def)
next
  case (work s c)
  with cache_step_history [OF work(1)] show ?case by (intro with_cache_later) auto
qed (auto simp: rep_later_def)

text \<open>The history.\<close>

lemma history_ok_commit:
  assumes "history_ok s" "current_revision s \<le> db_revision d"
  shows "history_ok (s\<lparr>rp_commits := rp_commits s @ [(t, d)]\<rparr>)"
proof -
  obtain cs x where cs: "rp_commits s = cs @ [x]"
    using assms(1) by (cases "rp_commits s" rule: rev_cases) (auto simp: history_ok_def)
  have "db_revision (snd y) \<le> db_revision d" if "y \<in> set (rp_commits s)" for y
    using assms that by (auto simp: history_ok_def cs sorted_append current_revision_def intro: order_trans)
  with assms(1) show ?thesis by (auto simp: history_ok_def sorted_append intro: le_SucI)
qed

lemma history_ok_cache:
  assumes "history_ok s" "epoch c = rp_epoch s \<or> epoch c = Suc (rp_epoch s)"
  shows "history_ok (with_cache c s)"
  using assms by (auto simp: history_ok_def with_cache_def le_Suc_eq Suc_le_eq)

text \<open>The gate.\<close>

lemma gate_inv_later:
  assumes "gate_inv s" "rep_later s s'" "history_ok s" "rp_gate s' = rp_gate s"
  shows "gate_inv s'"
  unfolding gate_inv_def assms(4)
proof (intro conjI allI impI)
  show "0 < gate_interval (rp_gate s)" using assms(1) by (simp add: gate_inv_def)
  fix c assume c: "gate_checked (rp_gate s) = Some c"
  with assms(1) have old: "\<forall>(t, d) \<in> set (rp_commits s). t < c \<longrightarrow> db_revision d \<le> gate_revision (rp_gate s)"
    "c \<le> rp_clock s" "\<exists>p. purged s p (gate_revision (rp_gate s))" by (auto simp: gate_inv_def)
  with assms(2) show "\<forall>(t, d) \<in> set (rp_commits s'). t < c \<longrightarrow> db_revision d \<le> gate_revision (rp_gate s)"
    "c \<le> rp_clock s'"
    by (fastforce simp: rep_later_def)+
  from old(3) purged_later [OF _ assms(2,3)] show "\<exists>p. purged s' p (gate_revision (rp_gate s))" by blast
qed

text \<open>A request that finds the window open is covered.\<close>

lemma fresh_covered:
  assumes "gate_inv s" "within_window (rp_gate s) (rp_clock s)" "b \<le> rp_clock s"
  shows "covered s b (rp_epoch s)"
proof -
  obtain c where c: "gate_checked (rp_gate s) = Some c" "rp_clock s - c < gate_interval (rp_gate s)"
    using assms(2) by (auto simp: within_window_def split: option.splits)
  then obtain p where p: "purged s p (gate_revision (rp_gate s))"
    "\<forall>(t, d) \<in> set (rp_commits s). t < c \<longrightarrow> db_revision d \<le> gate_revision (rp_gate s)"
    using assms(1) by (auto simp: gate_inv_def)
  have "p \<le> rp_epoch s \<and> purged s p (db_revision d)"
    if "(t, d) \<in> set (rp_commits s)" "t + gate_interval (rp_gate s) \<le> b" for t d
  proof -
    have "t < c" using that(2) c(2) assms(3) by linarith
    with p that(1) show ?thesis by (auto simp: purged_def)
  qed
  with assms(3) show ?thesis unfolding covered_def by blast
qed

text \<open>A purge; and a probe that succeeds: the gate it leaves, and the purge behind it.\<close>

lemma purged_here:
  assumes "history_ok s" "rv \<le> current_revision s"
  shows "purged (with_cache (purged_cache (rp_cache s)) s) (Suc (rp_epoch s)) rv"
proof -
  have "snd (rp_commits s ! (length (rp_commits s) - 1)) = snd (last (rp_commits s))"
    using assms(1) by (simp add: history_ok_def last_conv_nth)
  with assms(2) show ?thesis by (simp add: purged_def purged_cache_def with_cache_def current_revision_def)
qed

lemma opened_purge:
  assumes "gate_inv s" "probe_inv s p" "gp_read p = Some rv"
    and "gate_check (rp_gate s) (gp_now p) (gp_started p) (Inr rv :: err + int) = (g, changed, Inr ())"
    and "changed \<Longrightarrow> gp_cleared p"
  shows "g = (rp_gate s)\<lparr>gate_revision := rv, gate_checked := Some (gp_started p)\<rparr>" "\<exists>q. purged s q rv"
proof -
  have w: "\<not> within_window (rp_gate s) (gp_now p)" using assms(2) by (simp add: probe_inv_def)
  show "g = (rp_gate s)\<lparr>gate_revision := rv, gate_checked := Some (gp_started p)\<rparr>"
    using assms(4) w by (auto simp: gate_check_def)
  show "\<exists>q. purged s q rv"
  proof (cases changed)
    case True
    with assms(2,3,5) show ?thesis by (auto simp: probe_inv_def)
  next
    case False
    with assms(4) w have "gate_checked (rp_gate s) \<noteq> None" "rv = gate_revision (rp_gate s)"
      by (auto simp: gate_check_def)
    with assms(1) show ?thesis by (auto simp: gate_inv_def)
  qed
qed

lemma opened_gate_inv:
  assumes "purged s q rv" "0 < gate_interval g" "gate_revision g = rv" "gate_checked g = Some st" "st \<le> rp_clock s"
    and "\<forall>(t, d) \<in> set (rp_commits s). t < st \<longrightarrow> db_revision d \<le> rv" "rp_gate s = g"
  shows "gate_inv s"
  using assms by (auto simp: gate_inv_def)

lemma opened_covered:
  assumes "purged s q rv" "b \<le> st" "st \<le> rp_clock s" "0 < gate_interval (rp_gate s)"
    and "\<forall>(t, d) \<in> set (rp_commits s). t < st \<longrightarrow> db_revision d \<le> rv"
  shows "covered s b (rp_epoch s)"
proof -
  have "q \<le> rp_epoch s \<and> purged s q (db_revision d)"
    if "(t, d) \<in> set (rp_commits s)" "t + gate_interval (rp_gate s) \<le> b" for t d
  proof -
    have "t < st" using that(2) assms(2,4) by linarith
    with that(1) assms(1,5) show ?thesis by (auto simp: purged_def)
  qed
  with assms(2,3) show ?thesis unfolding covered_def by (meson order_trans)
qed

text \<open>The probe, the calls and the loads.\<close>

lemma probe_inv_later:
  assumes "probe_inv s p" "rep_later s s'" "history_ok s" "current_revision s \<le> current_revision s'"
    and "rp_gate s' = rp_gate s" "rp_req s' (gp_by p) = rp_req s (gp_by p)"
  shows "probe_inv s' p"
proof -
  have "gp_cleared p \<longrightarrow> (\<exists>rv q. gp_read p = Some rv \<and> purged s' q rv)"
    using assms(1) purged_later [OF _ assms(2,3)] unfolding probe_inv_def by blast
  with assms(1,2,4-6) show ?thesis unfolding probe_inv_def rep_later_def by fastforce
qed

lemma calls_inv_later:
  assumes "calls_inv own s" "rep_later s s'" "history_ok s" "0 < gate_interval (rp_gate s)"
    and "\<And>i b. rp_req s' i = Asked b \<Longrightarrow> b \<le> rp_clock s'"
    and "\<And>i b. rp_req s' i = Through b \<Longrightarrow> rp_req s i = Through b \<or> covered s' b (rp_epoch s')"
    and "\<And>i b. rp_req s i = Through b \<Longrightarrow> rp_req s' i = Through b"
    and "\<And>j th. getters (rp_cache s') j = Some th \<Longrightarrow>
       (\<exists>th0. getters (rp_cache s) j = Some th0 \<and> th_e0 th = th_e0 th0) \<or>
       th_e0 th = rp_epoch s \<and> (\<exists>b. rp_req s (own j) = Through b)"
  shows "calls_inv own s'"
  unfolding calls_inv_def
proof (intro conjI allI impI)
  note cov = covered_later [OF _ assms(2-4)]
  have e: "rp_epoch s \<le> rp_epoch s'" using assms(2) by (simp add: rep_later_def)
  have passed: "covered s' b (rp_epoch s)" if "rp_req s i = Through b" for i b
    using that assms(1) cov by (auto simp: calls_inv_def)
  show "covered s' b (rp_epoch s')" if "rp_req s' i = Through b" for i b
    using assms(6) [OF that] passed covered_mono [OF _ e] by blast
  fix j th assume th: "getters (rp_cache s') j = Some th"
  from assms(8) [OF th] have "th_e0 th \<le> rp_epoch s \<and> (\<exists>b. rp_req s (own j) = Through b \<and> covered s' b (th_e0 th))"
  proof
    assume "\<exists>th0. getters (rp_cache s) j = Some th0 \<and> th_e0 th = th_e0 th0"
    then obtain th0 where th0: "getters (rp_cache s) j = Some th0" "th_e0 th = th_e0 th0" by blast
    with assms(1) obtain b where "th_e0 th0 \<le> rp_epoch s" "rp_req s (own j) = Through b" "covered s b (th_e0 th0)"
      unfolding calls_inv_def by blast
    with cov th0(2) show ?thesis by auto
  qed (use passed in auto)
  with e assms(7) show "th_e0 th \<le> rp_epoch s'" "\<exists>b. rp_req s' (own j) = Through b \<and> covered s' b (th_e0 th)"
    by (auto intro: order_trans)
qed (rule assms(5))

lemma loads_from_mono: "loads_from look s Y \<Longrightarrow> X \<subseteq> Y \<Longrightarrow> loads_from look s X"
  unfolding loads_from_def by blast

lemma loads_from_later:
  assumes "loads_from look s X" "rep_later s s'" "\<forall>(k, v, ep, st) \<in> X. ep \<le> rp_epoch s"
  shows "loads_from look s' X"
  using assms unfolding loads_from_def rep_later_def by (fastforce simp: nth_append)

lemma rep_inv_later:
  assumes "rep_inv look own s" "rep_later s s'" "history_ok s'" "gate_inv s'" "\<And>p. rp_probe s' = Some p \<Longrightarrow> probe_inv s' p"
    and "\<And>i b. rp_req s' i = Asked b \<Longrightarrow> b \<le> rp_clock s'"
    and "\<And>i b. rp_req s' i = Through b \<Longrightarrow> rp_req s i = Through b \<or> covered s' b (rp_epoch s')"
    and "\<And>i b. rp_req s i = Through b \<Longrightarrow> rp_req s' i = Through b"
    and "cache_step (rp_cache s) (rp_cache s') \<or> rp_cache s' = rp_cache s"
    and "\<And>j. getters (rp_cache s) j = None \<Longrightarrow> getters (rp_cache s') j \<noteq> None \<Longrightarrow> \<exists>b. rp_req s (own j) = Through b"
    and "loads_from look s (loads (rp_cache s') - loads (rp_cache s))"
  shows "rep_inv look own s'"
proof -
  have i: "history_ok s" "0 < gate_interval (rp_gate s)" "calls_inv own s" "loads_from look s (loads (rp_cache s))"
    "loading_ok (rp_cache s)"
    using assms(1) by (auto simp: rep_inv_def gate_inv_def)
  have l: "loading_ok (rp_cache s')"
    using assms(9) i(5) cache_step_loading by auto
  have old: "\<forall>(k, v, ep, st) \<in> loads (rp_cache s'). ep \<le> rp_epoch s"
  proof -
    have "rp_epoch s' = rp_epoch s \<or> loads (rp_cache s') = loads (rp_cache s)"
      using assms(9) cache_step_history [of "rp_cache s" "rp_cache s'"] by auto
    then show ?thesis using l i(5) unfolding loading_ok_def by (elim disjE) simp_all
  qed
  have "loads_from look s (loads (rp_cache s'))"
    using assms(11) i(4) by (fastforce simp: loads_from_def)
  then have f: "loads_from look s' (loads (rp_cache s'))" by (rule loads_from_later [OF _ assms(2) old])
  have "calls_inv own s'"
  proof (rule calls_inv_later [OF i(3) assms(2) i(1,2) assms(6-8)])
    fix j th assume th: "getters (rp_cache s') j = Some th"
    from assms(9) show "(\<exists>th0. getters (rp_cache s) j = Some th0 \<and> th_e0 th = th_e0 th0) \<or>
        th_e0 th = rp_epoch s \<and> (\<exists>b. rp_req s (own j) = Through b)"
    proof
      assume "cache_step (rp_cache s) (rp_cache s')"
      from cache_step_getter [OF this th] assms(10) [of j] th show ?thesis by auto
    qed (use th in auto)
  qed auto
  with assms(3-5) f l show ?thesis by (simp add: rep_inv_def)
qed

lemma rep_step_inv:
  assumes "rep_step look own s s'" "rep_inv look own s"
  shows "rep_inv look own s'"
  using assms
proof (induction rule: rep_step.induct)
  case (commit s d)
  let ?s' = "s\<lparr>rp_commits := rp_commits s @ [(rp_clock s, d)]\<rparr>"
  note i = commit(2) [unfolded rep_inv_def]
  have l: "rep_later s ?s'"
    by (rule rep_step_later [of look own]) (rule rep_step.commit [OF commit(1)])
  show ?case
  proof (rule rep_inv_later [OF commit(2) l])
    show "history_ok ?s'" using i commit(1) by (intro history_ok_commit) auto
    show "gate_inv ?s'" by (rule gate_inv_later [OF _ l]) (use i in \<open>auto\<close>)
    show "probe_inv ?s' p" if "rp_probe ?s' = Some p" for p
      by (rule probe_inv_later [OF _ l]) (use i that commit(1) in \<open>auto simp: current_revision_def\<close>)
  qed (use i in \<open>auto simp: calls_inv_def loads_from_def\<close>)
next
  case (work s c)
  note i = work(4) [unfolded rep_inv_def]
  note l = rep_step_later [OF rep_step.work [OF work(1-3)]]
  note h = cache_step_history [OF work(1)]
  have c: "rp_cache (with_cache c s) = c" "rp_gate (with_cache c s) = rp_gate s" "rp_probe (with_cache c s) = rp_probe s"
    "rp_req (with_cache c s) = rp_req s" "current_revision (with_cache c s) = current_revision s"
    by (simp_all add: with_cache_def current_revision_def)
  show ?case
  proof (rule rep_inv_later [OF work(4) l])
    show "history_ok (with_cache c s)" using i h by (intro history_ok_cache) auto
    show "gate_inv (with_cache c s)" by (rule gate_inv_later [OF _ l]) (use i in \<open>auto simp: c\<close>)
    show "probe_inv (with_cache c s) p" if "rp_probe (with_cache c s) = Some p" for p
      by (rule probe_inv_later [OF _ l]) (use i that in \<open>auto simp: c\<close>)
    show "b \<le> rp_clock (with_cache c s)" if "rp_req (with_cache c s) j = Asked b" for j b
    proof -
      have "b \<le> rp_clock s" using that i by (auto simp: c calls_inv_def)
      with h show ?thesis by (simp add: c)
    qed
  qed (use i h work(1-3) in \<open>auto simp: c calls_inv_def\<close>)
next
  case (clear s p rv g)
  let ?s' = "(with_cache (purged_cache (rp_cache s)) s)\<lparr>rp_probe := Some (p\<lparr>gp_cleared := True\<rparr>)\<rparr>"
  note i = clear(5) [unfolded rep_inv_def]
  have l: "rep_later s ?s'"
    by (rule rep_step_later [of look own]) (rule rep_step.clear [OF clear(1-4)])
  have pi: "probe_inv s p" and hi: "history_ok s" using i clear(1) by auto
  have c: "epoch (purged_cache (rp_cache s)) = Suc (rp_epoch s)" "getters (purged_cache (rp_cache s)) = getters (rp_cache s)"
    "loads (purged_cache (rp_cache s)) = loads (rp_cache s)" "clock (purged_cache (rp_cache s)) = rp_clock s"
    by (simp_all add: purged_cache_def)
  have "rv \<le> current_revision s" using pi clear(2) by (simp add: probe_inv_def)
  then have q: "purged ?s' (Suc (rp_epoch s)) rv"
    using purged_here [OF hi] by (simp add: purged_def)
  show ?case
  proof (rule rep_inv_later [OF clear(5) l])
    have "history_ok (with_cache (purged_cache (rp_cache s)) s)" by (rule history_ok_cache [OF hi]) (simp add: c)
    then show "history_ok ?s'" by (simp add: history_ok_def)
    show "gate_inv ?s'" by (rule gate_inv_later [OF _ l]) (use i in \<open>auto simp: with_cache_def\<close>)
    show "probe_inv ?s' p'" if "rp_probe ?s' = Some p'" for p'
      using that pi clear(2) q by (auto simp: probe_inv_def with_cache_def current_revision_def c)
    show "cache_step (rp_cache s) (rp_cache ?s') \<or> rp_cache ?s' = rp_cache s"
      using cache_step.do_purge [of "rp_cache s"] by (simp add: purged_cache_def with_cache_def)
  qed (use i c in \<open>auto simp: with_cache_def calls_inv_def loads_from_def\<close>)
next
  case (open_gate s p rv b g changed)
  let ?s' = "s\<lparr>rp_gate := g, rp_probe := None, rp_req := (rp_req s)(gp_by p := Through b)\<rparr>"
  note i = open_gate(6) [unfolded rep_inv_def]
  have l: "rep_later s ?s'"
    by (rule rep_step_later [of look own]) (rule rep_step.open_gate [OF open_gate(1-5)])
  have pi: "probe_inv s p" and gi: "gate_inv s" using i open_gate(1) by auto
  note o = opened_purge [OF gi pi open_gate(2,4,5)]
  obtain q where q: "purged ?s' q rv" using o(2) by (auto simp: purged_def)
  have t: "b \<le> gp_started p" "gp_started p \<le> rp_clock s"
    "\<forall>(t, d) \<in> set (rp_commits s). t < gp_started p \<longrightarrow> db_revision d \<le> rv"
    using pi open_gate(2,3) by (auto simp: probe_inv_def)
  have iv: "0 < gate_interval g" "gate_revision g = rv" "gate_checked g = Some (gp_started p)"
    using o(1) gi by (auto simp: gate_inv_def)
  show ?case
  proof (rule rep_inv_later [OF open_gate(6) l])
    show "history_ok ?s'" using i by (simp add: history_ok_def)
    show "gate_inv ?s'" by (rule opened_gate_inv [OF q iv]) (use t in auto)
    have "covered ?s' b (rp_epoch ?s')" by (rule opened_covered [OF q t(1)]) (use t iv in auto)
    then show "rp_req s i' = Through b' \<or> covered ?s' b' (rp_epoch ?s')" if "rp_req ?s' i' = Through b'" for i' b'
      using that by (auto split: if_split_asm)
  qed (use i open_gate(3) in \<open>auto simp: calls_inv_def loads_from_def split: if_split_asm\<close>)
next
  case (deny s p e g changed)
  let ?s' = "s\<lparr>rp_gate := g, rp_probe := None, rp_req := (rp_req s)(gp_by p := Denied)\<rparr>"
  note i = deny(3) [unfolded rep_inv_def]
  have l: "rep_later s ?s'"
    by (rule rep_step_later [of look own]) (rule rep_step.deny [OF deny(1,2)])
  have pi: "probe_inv s p" using i deny(1) by blast
  show ?case
  proof (rule rep_inv_later [OF deny(3) l])
    show "history_ok ?s'" using i by (simp add: history_ok_def)
    show "gate_inv ?s'"
      using i pi gate_check_error [OF deny(2)] gate_check_keeps_interval [OF deny(2)] by (auto simp: gate_inv_def)
  qed (use i pi in \<open>auto simp: calls_inv_def probe_inv_def loads_from_def split: if_split_asm\<close>)
next
  case (ask s i)
  let ?s' = "s\<lparr>rp_req := (rp_req s)(i := Asked (rp_clock s))\<rparr>"
  note v = ask(2) [unfolded rep_inv_def]
  have l: "rep_later s ?s'"
    by (rule rep_step_later [of look own]) (rule rep_step.ask [OF ask(1)])
  show ?case
  proof (rule rep_inv_later [OF ask(2) l])
    show "history_ok ?s'" using v by (simp add: history_ok_def)
    show "gate_inv ?s'" by (rule gate_inv_later [OF _ l]) (use v in \<open>auto\<close>)
    show "probe_inv ?s' p" if "rp_probe ?s' = Some p" for p
      by (rule probe_inv_later [OF _ l]) (use v that ask(1) in \<open>auto simp: current_revision_def probe_inv_def\<close>)
  qed (use v ask(1) in \<open>auto simp: calls_inv_def loads_from_def split: if_split_asm\<close>)
next
  case (fresh s i b)
  let ?s' = "s\<lparr>rp_req := (rp_req s)(i := Through b)\<rparr>"
  note v = fresh(4) [unfolded rep_inv_def]
  have l: "rep_later s ?s'"
    by (rule rep_step_later [of look own]) (rule rep_step.fresh [OF fresh(1-3)])
  have "covered s b (rp_epoch s)" using v fresh(1,3) by (intro fresh_covered) (auto simp: calls_inv_def)
  then have c: "covered ?s' b (rp_epoch ?s')" by (simp add: covered_def purged_def)
  show ?case
  proof (rule rep_inv_later [OF fresh(4) l])
    show "history_ok ?s'" using v by (simp add: history_ok_def)
    show "gate_inv ?s'" by (rule gate_inv_later [OF _ l]) (use v in \<open>auto\<close>)
  qed (use v c fresh(1,2) in \<open>auto simp: calls_inv_def loads_from_def split: if_split_asm\<close>)
next
  case (probe s i b now)
  let ?p = "\<lparr>gp_by = i, gp_now = now, gp_started = rp_clock s, gp_read = None, gp_cleared = False\<rparr>"
  let ?s' = "s\<lparr>rp_probe := Some ?p\<rparr>"
  note v = probe(6) [unfolded rep_inv_def]
  have l: "rep_later s ?s'"
    by (rule rep_step_later [of look own]) (rule rep_step.probe [OF probe(1-5)])
  show ?case
  proof (rule rep_inv_later [OF probe(6) l])
    show "history_ok ?s'" using v by (simp add: history_ok_def)
    show "gate_inv ?s'" by (rule gate_inv_later [OF _ l]) (use v in \<open>auto\<close>)
    show "probe_inv ?s' p" if "rp_probe ?s' = Some p" for p
      using that probe(1,3-5) by (auto simp: probe_inv_def)
  qed (use v in \<open>auto simp: calls_inv_def loads_from_def\<close>)
next
  case (read s p)
  let ?s' = "s\<lparr>rp_probe := Some (p\<lparr>gp_read := Some (current_revision s)\<rparr>)\<rparr>"
  note v = read(3) [unfolded rep_inv_def]
  have l: "rep_later s ?s'"
    by (rule rep_step_later [of look own]) (rule rep_step.read [OF read(1,2)])
  have pi: "probe_inv s p" using v read(1) by blast
  have "db_revision d \<le> current_revision s" if "(t, d) \<in> set (rp_commits s)" for t d
  proof -
    obtain cs x where cs: "rp_commits s = cs @ [x]"
      using v by (cases "rp_commits s" rule: rev_cases) (auto simp: history_ok_def)
    with v that show ?thesis by (auto simp: history_ok_def sorted_append current_revision_def)
  qed
  with pi have "probe_inv ?s' (p\<lparr>gp_read := Some (current_revision s)\<rparr>)"
    using read(2) by (auto simp: probe_inv_def current_revision_def)
  then have p: "probe_inv ?s' p'" if "rp_probe ?s' = Some p'" for p' using that by simp
  have "gate_inv ?s'" by (rule gate_inv_later [OF _ l]) (use v in auto)
  then show ?case
    by (rule rep_inv_later [OF read(3) l _ _ p, rotated]) (use v in \<open>auto simp: calls_inv_def loads_from_def history_ok_def\<close>)
qed

interpretation replica: invariant_steps "rep_step look own" "rep_inv look own" for look own
  by unfold_locales (rule rep_step_inv)

lemma rep_inv_fresh: "0 < iv \<Longrightarrow> rep_inv look own (fresh_replica cap t iv now d)"
  by (simp add: rep_inv_def history_ok_def gate_inv_def calls_inv_def loads_from_def loading_ok_def fresh_replica_def
      init_sys_def new_gate_def)

text \<open>The cache of a replica is a reachable cache, and the gate's interval is fixed.\<close>

lemma rep_step_cache: "rep_step look own s s' \<Longrightarrow> cache_step (rp_cache s) (rp_cache s') \<or> rp_cache s' = rp_cache s"
  by (induction rule: rep_step.induct) (auto simp: with_cache_def purged_cache_def intro: cache_step.do_purge)

lemma rep_steps_cache:
  assumes "rep_steps look own (fresh_replica cap t iv now d) s"
  shows "cache_reach cap t (rp_cache s) \<and> gate_interval (rp_gate s) = iv"
  using assms
proof (induction rule: rtranclp_induct)
  case base
  show ?case by (simp add: fresh_replica_def new_gate_def cache_reach.start)
next
  case (step s s')
  have "gate_interval (rp_gate s') = gate_interval (rp_gate s)"
    using rep_step_later [OF step(2)] by (simp add: rep_later_def)
  with step(3) rep_step_cache [OF step(2)] show ?case by (auto intro: cache_reach.step)
qed

subsection \<open>Property\<close>

text \<open>One load behind a returned value serves for every commit the request may rely on.\<close>

lemma lookup_from:
  assumes reach: "rep_steps look own (fresh_replica cap lifetime iv now d0) s" "0 < iv" "rp_epoch s < 2 ^ 64"
    and ret: "getters (rp_cache s) j = Some th" "th_pc th = PDone (Inr v)" "rp_req s (own j) = Through b"
  obtains q where "q < length (rp_commits s)" "look (snd (rp_commits s ! q)) (th_key th) = Inr v"
    "\<And>t d. (t, d) \<in> set (rp_commits s) \<Longrightarrow> t + iv \<le> b \<Longrightarrow> db_revision d \<le> db_revision (snd (rp_commits s ! q))"
proof -
  have inv: "rep_inv look own s" by (rule replica.inv_steps [OF reach(1)]) (rule rep_inv_fresh [OF reach(2)])
  note rc = rep_steps_cache [OF reach(1)]
  have ci: "cache_inv (rp_cache s)" using rc reach(3) cache_reach_inv by blast
  have h: "history_ok s" and lf: "loads_from look s (loads (rp_cache s))" and lo: "loading_ok (rp_cache s)"
    using inv by (auto simp: rep_inv_def)
  obtain b' where "rp_req s (own j) = Through b'" "covered s b' (th_e0 th)"
    using inv ret(1) unfolding rep_inv_def calls_inv_def by blast
  with ret(3) have cov: "covered s b (th_e0 th)" by simp
  from cache_invD(5) [OF ci ret(1)] ret(2)
  have g: "th_e0 th \<le> th_d th" "th_d th \<le> rp_epoch s" "fresh_val (rp_cache s) (th_key th) v (th_d th)"
    by (auto simp: getter_ok_def)
  then obtain ep st where l: "(th_key th, v, ep, st) \<in> loads (rp_cache s)" "hist (rp_cache s) (th_d th) (th_key th) \<le> ep"
    by (auto simp: fresh_val_def)
  have e: "ep \<le> rp_epoch s" using lo l(1) by (auto simp: loading_ok_def)
  obtain q where q: "rp_born s ep \<le> Suc q" "q < length (rp_commits s)" "look (snd (rp_commits s ! q)) (th_key th) = Inr v"
    using lf l(1) unfolding loads_from_def by blast
  show ?thesis
  proof (rule that [OF q(2,3)])
    fix t d assume "(t, d) \<in> set (rp_commits s)" "t + iv \<le> b"
    with cov rc obtain p where p: "p \<le> th_e0 th" "purged s p (db_revision d)" unfolding covered_def by blast
    have "hist (rp_cache s) p (th_key th) \<le> hist (rp_cache s) (th_d th) (th_key th)"
      using cache_invD(3) [OF ci] p(1) g by (auto simp: hist_ok_def)
    with p(2) l(2) have "p \<le> ep" by (simp add: purged_def)
    with h e q(1) have "rp_born s p - 1 \<le> q" by (fastforce simp: history_ok_def)
    with h q(2) sorted_nth_mono [of "map (db_revision \<circ> snd) (rp_commits s)" "rp_born s p - 1" q] p(2)
    show "db_revision d \<le> db_revision (snd (rp_commits s ! q))" by (simp add: history_ok_def purged_def)
  qed
qed

text \<open>C10. Overlapping requests still see every commit of an interval ago. However the requests of one
  replica interleave, whoever probes or purges for whom, and whatever is loaded meanwhile: a
  value that a cached lookup returns to a request that began at least one gate interval after a
  commit was loaded from a registry of that commit's revision or a later one.\<close>

theorem overlapping_lookups_bound:
  assumes "rep_steps look own (fresh_replica cap lifetime iv now d0) s" "0 < iv" "rp_epoch s < 2 ^ 64"
    and "getters (rp_cache s) j = Some th" "th_pc th = PDone (Inr v)" "rp_req s (own j) = Through b"
    and "(t, d) \<in> set (rp_commits s)" "t + iv \<le> b"
  shows "\<exists>(t', d') \<in> set (rp_commits s). db_revision d \<le> db_revision d' \<and> look d' (th_key th) = Inr v"
proof (rule lookup_from [OF assms(1-6)])
  fix q assume q: "q < length (rp_commits s)" "look (snd (rp_commits s ! q)) (th_key th) = Inr v"
    "\<And>t d. (t, d) \<in> set (rp_commits s) \<Longrightarrow> t + iv \<le> b \<Longrightarrow> db_revision d \<le> db_revision (snd (rp_commits s ! q))"
  from q(1,2) q(3) [OF assms(7,8)] show ?thesis
    by (intro bexI [of _ "rp_commits s ! q"]) (auto simp: case_prod_unfold)
qed

subsection \<open>Witness\<close>

text \<open>Cache steps that stay within an epoch, as steps of the replica.\<close>

lemma lift_cache_steps:
  assumes "cache_steps (rp_cache s) c" "epoch c = rp_epoch s"
    and "\<And>i. getters (rp_cache s) i = None \<Longrightarrow> getters c i \<noteq> None \<Longrightarrow> \<exists>b. rp_req s (own i) = Through b"
    and "loads_from look s (loads c - loads (rp_cache s))"
  shows "rep_steps look own s (s\<lparr>rp_cache := c\<rparr>)"
  using assms
proof (induction rule: rtranclp_induct)
  case (step c1 c2)
  note h = cache_step_history [OF step(2)]
  have mono: "rp_epoch s \<le> epoch c1" using step(1) epoch_mono by (induction rule: rtranclp_induct) (auto intro: order_trans)
  have sub: "loads (rp_cache s) \<subseteq> loads c1"
    using step(1) cache_step_history by (induction rule: rtranclp_induct) blast+
  have e: "epoch c1 = rp_epoch s" using h mono step(4) by auto
  have keep: "getters c2 i \<noteq> None" if "getters c1 i \<noteq> None" for i
    using step(2) that by (induction rule: cache_step.induct) (auto simp: set_pc_def set_phase_def)
  have l1: "loads_from look s (loads c1 - loads (rp_cache s))" "loads_from look s (loads c2 - loads c1)"
    using h sub by (auto intro!: loads_from_mono [OF step(6)])
  have "rep_steps look own s (s\<lparr>rp_cache := c1\<rparr>)"
    using step(3) [OF e] step(5) keep l1(1) by blast
  moreover have "rep_step look own (s\<lparr>rp_cache := c1\<rparr>) (with_cache c2 (s\<lparr>rp_cache := c1\<rparr>))"
  proof (rule rep_step.work)
    show "\<exists>b. rp_req (s\<lparr>rp_cache := c1\<rparr>) (own i) = Through b"
      if "getters (rp_cache (s\<lparr>rp_cache := c1\<rparr>)) i = None" "getters c2 i \<noteq> None" for i
    proof (cases "getters (rp_cache s) i = None")
      case True
      with step(5) that(2) show ?thesis by simp
    next
      case False
      have "getters c1 i \<noteq> None"
        using step(1) False
        by (induction rule: rtranclp_induct) (auto elim: cache_step.cases simp: set_pc_def set_phase_def)
      with that(1) show ?thesis by simp
    qed
  qed (use step(2) l1(2) in \<open>simp_all add: loads_from_def\<close>)
  moreover have "with_cache c2 (s\<lparr>rp_cache := c1\<rparr>) = s\<lparr>rp_cache := c2\<rparr>"
    using e step(4) by (simp add: with_cache_def)
  ultimately show ?case by simp
qed simp

text \<open>A request past the gate that nobody disturbs gets what the loader reads now.\<close>

lemma passed_request_served:
  assumes "history_ok s" "rp_req s (own j) = Through b" "getters (rp_cache s) j = None" "flights (rp_cache s) = []"
    and "map_of (entries (cache (rp_cache s))) k = None" "look (snd (last (rp_commits s))) k = Inr v"
  shows "\<exists>s' th. rep_steps look own s s' \<and> getters (rp_cache s') j = Some th \<and> th_key th = k \<and>
    th_pc th = PDone (Inr v) \<and> rp_req s' = rp_req s \<and> rp_commits s' = rp_commits s \<and> rp_epoch s' = rp_epoch s"
proof -
  let ?t = "rp_clock s"
  let ?ge = "\<lparr>ge_ctx = None, ge_now = ?t, ge_now2 = ?t, ge_started = ?t, ge_done = None, ge_pick = 0\<rparr>"
  have got: "snd (cache_get ?ge k (Inr v :: err + 'a) (cache (rp_cache s))) = Inr v"
    using assms(5) cache_get_miss [of ?ge "cache (rp_cache s)" k "Inr v :: err + 'a"] by simp
  obtain c th where c: "cache_steps (rp_cache s) c" "epoch c = rp_epoch s" "getters c j = Some th" "th_key th = k"
    "th_pc th = PDone (Inr v)" "loads c \<subseteq> loads (rp_cache s) \<union> {(k, w, rp_epoch s, ?t) | w. Inr v = (Inr w :: err + 'a)}"
    "\<forall>i. i \<noteq> j \<longrightarrow> getters c i = getters (rp_cache s) i"
    using run_get_loads [of "rp_cache s" j ?ge k "Inr v"] assms(3-5) got by auto
  have "loads_from look s (loads c - loads (rp_cache s))"
  proof (rule loads_from_mono)
    show "loads c - loads (rp_cache s) \<subseteq> {(k, v, rp_epoch s, ?t)}" using c(6) by auto
    show "loads_from look s {(k, v, rp_epoch s, ?t)}"
      using assms(1,6) by (auto simp: loads_from_def history_ok_def last_conv_nth intro!: exI [of _ "length (rp_commits s) - 1"])
  qed
  moreover have "\<exists>b. rp_req s (own i) = Through b" if "getters (rp_cache s) i = None" "getters c i \<noteq> None" for i
    using c(7) assms(2) that by (cases "i = j") auto
  ultimately have "rep_steps look own s (s\<lparr>rp_cache := c\<rparr>)" by (intro lift_cache_steps [OF c(1,2)])
  with c show ?thesis by (intro exI [of _ "s\<lparr>rp_cache := c\<rparr>"] exI [of _ th]) simp
qed

text \<open>
  The example user is enrolled at time 0, with a gate interval of 10; at time 20 a request asks,
  finds the gate closed and opens it.
\<close>

abbreviation demo_look :: "mtdb \<Rightarrow> string \<Rightarrow> err + muser option" where
  "demo_look \<equiv> get_user_with_tenants demo_lib"

abbreviation demo_replica :: "muser option replica" where
  "demo_replica \<equiv> fresh_replica 2 300 10 0 demo_db"

definition written_replica :: "muser option replica" where
  "written_replica = demo_replica\<lparr>rp_commits := [(0, demo_db), (0, fst demo_enroll)]\<rparr>"

definition asked_replica :: "muser option replica" where
  "asked_replica = written_replica\<lparr>rp_cache := (rp_cache written_replica)\<lparr>clock := 20\<rparr>, rp_req := (\<lambda>_. Idle)(0 := Asked 20)\<rparr>"

definition opened_cache :: "(err, muser option) cache_sys" where
  "opened_cache = purged_cache (rp_cache asked_replica)"

definition opened_replica :: "muser option replica" where
  "opened_replica = (with_cache opened_cache asked_replica)\<lparr>
     rp_gate := \<lparr>gate_revision = db_revision (fst demo_enroll), gate_checked = Some 20, gate_interval = 10\<rparr>,
     rp_probe := None, rp_req := (rp_req asked_replica)(0 := Through 20)\<rparr>"

lemmas replica_states = opened_replica_def opened_cache_def asked_replica_def written_replica_def fresh_replica_def init_sys_def
  purged_cache_def with_cache_def new_gate_def

lemma asked_reachable: "rep_steps demo_look id demo_replica asked_replica"
proof -
  have r: "db_revision demo_db \<le> db_revision (fst demo_enroll)" by code_simp
  have "rep_step demo_look id demo_replica written_replica"
    using rep_step.commit [of demo_replica "fst demo_enroll" demo_look id] r
    by (simp add: current_revision_def replica_states)
  moreover have "cache_step (rp_cache written_replica) ((rp_cache written_replica)\<lparr>clock := 20\<rparr>)"
    by (rule cache_step.tick) (simp add: replica_states)
  then have "rep_step demo_look id written_replica (with_cache ((rp_cache written_replica)\<lparr>clock := 20\<rparr>) written_replica)"
    by (rule rep_step.work) (simp_all add: loads_from_def)
  moreover have "rep_step demo_look id (with_cache ((rp_cache written_replica)\<lparr>clock := 20\<rparr>) written_replica) asked_replica"
    using rep_step.ask [of "with_cache ((rp_cache written_replica)\<lparr>clock := 20\<rparr>) written_replica" 0 demo_look id]
    by (simp add: replica_states)
  ultimately show ?thesis by (meson converse_rtranclp_into_rtranclp rtranclp.rtrancl_refl)
qed

lemma opened_reachable: "rep_steps demo_look id asked_replica opened_replica"
proof -
  let ?a = "asked_replica"
  let ?p = "\<lparr>gp_by = 0, gp_now = 20, gp_started = 20, gp_read = None, gp_cleared = False\<rparr>"
  let ?q = "?p\<lparr>gp_read := Some (db_revision (fst demo_enroll))\<rparr>"
  let ?g = "\<lparr>gate_revision = db_revision (fst demo_enroll), gate_checked = Some 20, gate_interval = 10\<rparr>"
  let ?c = "(with_cache opened_cache ?a)\<lparr>rp_probe := Some (?q\<lparr>gp_cleared := True\<rparr>)\<rparr>"
  have "rep_step demo_look id ?a (?a\<lparr>rp_probe := Some ?p\<rparr>)"
    using rep_step.probe [of ?a 0 20 20 demo_look id] by (simp add: replica_states within_window_def)
  moreover have "rep_step demo_look id (?a\<lparr>rp_probe := Some ?p\<rparr>) (?a\<lparr>rp_probe := Some ?q\<rparr>)"
    using rep_step.read [of "?a\<lparr>rp_probe := Some ?p\<rparr>" ?p demo_look id] by (simp add: replica_states current_revision_def)
  moreover have "rep_step demo_look id (?a\<lparr>rp_probe := Some ?q\<rparr>) ?c"
    using rep_step.clear [of "?a\<lparr>rp_probe := Some ?q\<rparr>" ?q "db_revision (fst demo_enroll)" ?g demo_look id]
    by (simp add: replica_states gate_check_def within_window_def)
  moreover have "rep_step demo_look id ?c opened_replica"
    using rep_step.open_gate [of ?c "?q\<lparr>gp_cleared := True\<rparr>" "db_revision (fst demo_enroll)" 20 ?g True demo_look id]
    by (simp add: replica_states gate_check_def within_window_def)
  ultimately show ?thesis by (meson converse_rtranclp_into_rtranclp rtranclp.rtrancl_refl)
qed

theorem overlapping_lookups_bound_witness:
  "\<exists>d' \<in> {demo_db, fst demo_enroll}. \<exists>u. db_revision (fst demo_enroll) \<le> db_revision d' \<and>
     demo_look d' ''a@acme.com'' = Inr (Some u)"
proof -
  have "case demo_look (fst demo_enroll) ''a@acme.com'' of Inr (Some u) \<Rightarrow> True | _ \<Rightarrow> False" by code_simp
  then obtain u where u: "demo_look (fst demo_enroll) ''a@acme.com'' = Inr (Some u)"
    by (auto split: sum.splits option.splits)
  let ?s = "opened_replica"
  have s: "rp_req ?s (id 0) = Through 20" "rp_commits ?s = [(0, demo_db), (0, fst demo_enroll)]" "getters (rp_cache ?s) 0 = None"
    "flights (rp_cache ?s) = []" "map_of (entries (cache (rp_cache ?s))) ''a@acme.com'' = None" "rp_epoch ?s = 1"
    by (simp_all add: replica_states purge_def)
  have r: "rep_steps demo_look id demo_replica ?s" using asked_reachable opened_reachable by simp
  have "rep_inv demo_look id ?s"
    by (rule replica.inv_steps [OF r]) (rule rep_inv_fresh, simp)
  then have h: "history_ok ?s" by (simp add: rep_inv_def)
  have "demo_look (snd (last (rp_commits ?s))) ''a@acme.com'' = Inr (Some u)" using u s(2) by simp
  then obtain s' th where t: "rep_steps demo_look id ?s s'" "getters (rp_cache s') 0 = Some th" "th_key th = ''a@acme.com''"
    "th_pc th = PDone (Inr (Some u))" "rp_req s' = rp_req ?s" "rp_commits s' = rp_commits ?s" "rp_epoch s' = 1"
    using passed_request_served [of ?s id 0 20 "''a@acme.com''" demo_look "Some u", OF h s(1,3-5)] s(6) by auto
  have r': "rep_steps demo_look id demo_replica s'" using r t(1) by simp
  have m: "(0, fst demo_enroll) \<in> set (rp_commits s')" using t(6) s(2) by simp
  have b: "rp_req s' (id 0) = Through 20" using t(5) s(1) by simp
  have e: "rp_epoch s' < 2 ^ 64" using t(7) by simp
  from overlapping_lookups_bound [OF r' _ e t(2,4) b m] t(3,6) s(2) show ?thesis by auto
qed

end
