(* ===== verification/Resolver_Program.thy ===== *)
theory Resolver_Program
  imports Resolver_Safety
begin

text \<open>
  \<open>Resolve\<close> after the gate as a program: what the handler of one request does between its
  calls, with the calls themselves left open. \<open>program\<close> is a resumption: each constructor but
  \<open>Answer\<close> is a call of the handler together with what it goes on to do with the result. Run alone on
  the caches it is \<open>Resolver.resolve_user\<close> (theorem \<open>program_resolves\<close>); \<open>Overlapping_Requests\<close> runs
  any number of them on shared caches.
\<close>

subsection \<open>Programs\<close>

datatype program =
    Answer "err + outcome"
  | UserGet string "err + muser option \<Rightarrow> program"
  | DomainGet string "err + mtenant option \<Rightarrow> program"
  | ConfigGet string string "err + goval \<Rightarrow> program"      \<comment> \<open>call site and cache key\<close>
  | Enroll string string claims string "err + muser option \<Rightarrow> program"
  | Forget string program

text \<open>One round of the loop in \<open>applyAuthChecks\<close>, the loop, and the admission of a user record.\<close>

definition tenant_prog ::
  "string \<Rightarrow> claims \<Rightarrow> member_checks_map \<Rightarrow> tenant_info \<Rightarrow> (bool \<Rightarrow> program) \<Rightarrow> program" where
  "tenant_prog provider claims mc t k =
     ConfigGet ''check:'' (cfg_key (ti_slug t) ''auth:providers'') (\<lambda>r. case r of
         Inl e \<Rightarrow> k False
       | Inr allowlist \<Rightarrow>
           if \<not> provider_permits provider allowlist then k False
           else ConfigGet ''check:'' (cfg_key (ti_slug t) (checks_key provider)) (\<lambda>r. case r of
               Inl e \<Rightarrow> k False
             | Inr raw \<Rightarrow> k (member_passes provider raw (override_of mc (ti_slug t) provider) claims)))"

fun checks_prog ::
  "string \<Rightarrow> claims \<Rightarrow> member_checks_map \<Rightarrow> tenant_info list \<Rightarrow> (tenant_info list \<Rightarrow> program) \<Rightarrow> program" where
  "checks_prog provider claims mc [] k = k []"
| "checks_prog provider claims mc (t # ts) k =
     tenant_prog provider claims mc t (\<lambda>b. checks_prog provider claims mc ts (\<lambda>kept. k (if b then t # kept else kept)))"

definition admission :: "'a lib_scheme \<Rightarrow> rinput \<Rightarrow> string \<Rightarrow> string \<Rightarrow> muser \<Rightarrow> tenant_info list \<Rightarrow> string \<Rightarrow> outcome" where
  "admission L inp email requested u tenants dflt =
     (if tenants = [] then Rejected 401 ''auth_checks_failed'' ''no tenants survived auth_checks''
      else if requested \<noteq> [] \<and> \<not> has_slug L tenants requested then
        Rejected 403 ''tenant_not_permitted'' ''not a member of the requested tenant''
      else let dflt1 = (if requested \<noteq> [] then requested else dflt);
               dflt2 = (if dflt1 = [] then ti_slug (hd tenants) else dflt1);
               name = (if u_name u \<noteq> [] then u_name u else string_claim (in_claims inp) ''name'')
           in Resolved (user_identity email name dflt2 tenants))"

definition admit_prog ::
  "'a lib_scheme \<Rightarrow> rinput \<Rightarrow> string \<Rightarrow> string \<Rightarrow> string \<Rightarrow> muser \<Rightarrow> program" where
  "admit_prog L inp email provider requested u =
     (let tenants = arrays_to_tenants (u_slugs u) (u_names u) (u_logos u) (u_dws u) in
      if provider = [] then Answer (Inr (admission L inp email requested u tenants (u_default u)))
      else checks_prog provider (in_claims inp) (u_checks u) tenants (\<lambda>kept.
        Answer (Inr (admission L inp email requested u kept
          (if u_default u \<noteq> [] \<and> u_default u \<notin> set (slug_list kept) then [] else u_default u)))))"

text \<open>\<open>autoAdd\<close>. A denied enrollment leaves the user as looked up.\<close>

definition unless_denied :: "muser option \<Rightarrow> err + muser option \<Rightarrow> err + muser option" where
  "unless_denied user r = (case r of Inl ErrAutoAddDenied \<Rightarrow> Inr user | Inl e \<Rightarrow> Inl e | Inr enrolled \<Rightarrow> Inr enrolled)"

definition policy_prog ::
  "'a lib_scheme \<Rightarrow> string \<Rightarrow> string \<Rightarrow> claims \<Rightarrow> (err + bool \<Rightarrow> program) \<Rightarrow> program" where
  "policy_prog L slug provider claims k =
     ConfigGet ''add:'' (cfg_key slug ''auth:auto_add'') (\<lambda>r. case r of Inl e \<Rightarrow> k (Inl e) | Inr flag \<Rightarrow>
       if \<not> as_bool flag then k (Inr False)
       else ConfigGet ''add:'' (cfg_key slug ''auth:providers'') (\<lambda>r. case r of Inl e \<Rightarrow> k (Inl e) | Inr providers \<Rightarrow>
         ConfigGet ''add:'' (cfg_key slug (checks_key provider)) (\<lambda>r. case r of Inl e \<Rightarrow> k (Inl e) | Inr checks \<Rightarrow>
           k (Inr (auto_add_allowed L provider providers checks claims)))))"

definition auto_add_prog ::
  "'a lib_scheme \<Rightarrow> muser option \<Rightarrow> string \<Rightarrow> string \<Rightarrow> string \<Rightarrow> claims \<Rightarrow> (err + muser option \<Rightarrow> program) \<Rightarrow> program" where
  "auto_add_prog L user email provider requested claims k =
     (if provider = [] \<or> (provider = ''google'' \<and> string_claim claims ''hd'' = []) then k (Inr user)
      else if mail_parse L email \<noteq> Some email \<or> 254 < length email then k (Inr user)
      else DomainGet (email_domain L email) (\<lambda>r. case r of
         Inl e \<Rightarrow> k (Inl e)
       | Inr None \<Rightarrow> k (Inr user)
       | Inr (Some t) \<Rightarrow>
           if \<not> t_enabled t \<or> (requested \<noteq> [] \<and> requested \<noteq> t_slug t) \<or> member_has user (t_slug t) then k (Inr user)
           else policy_prog L (t_slug t) provider claims (\<lambda>r. case r of
               Inl e \<Rightarrow> k (Inl e)
             | Inr False \<Rightarrow> k (Inr user)
             | Inr True \<Rightarrow> Enroll email provider claims (t_slug t) (\<lambda>r. Forget email (k (unless_denied user r))))))"

definition user_prog :: "'a lib_scheme \<Rightarrow> rinput \<Rightarrow> program" where
  "user_prog L inp =
     (let email = user_email L inp; provider = user_provider inp; requested = requested_tenant L (in_tenant inp) in
      if email = [] \<or> CHR ''@'' \<notin> set email then
        Answer (Inr (Rejected 401 ''missing_email'' ''no email available for MT lookup''))
      else UserGet email (\<lambda>r. case r of Inl e \<Rightarrow> Answer (Inl e) | Inr user \<Rightarrow>
        if is_disabled user then Answer (Inr (Rejected 403 ''user_disabled'' ''user disabled in MT''))
        else let k = (\<lambda>r. case r of
            Inl e \<Rightarrow> Answer (Inl e)
          | Inr None \<Rightarrow> Answer (Inr (Rejected 401 ''membership_required''
               ''existing tenant membership or eligible auto-add required''))
          | Inr (Some u) \<Rightarrow> admit_prog L inp email provider requested u)
        in if user = None \<or> requested = [] \<or> \<not> member_has user requested
           then auto_add_prog L user email provider requested (in_claims inp) k else k (Inr user)))"

subsection \<open>One request alone\<close>

text \<open>The transaction of \<open>AutoAddUser\<close> on the registry it reads.\<close>

definition enroll_tx ::
  "'a lib_scheme \<Rightarrow> faults \<Rightarrow> string \<Rightarrow> string \<Rightarrow> string \<Rightarrow> claims \<Rightarrow> string \<Rightarrow> mtdb \<Rightarrow> mtdb \<times> (err + muser option)" where
  "enroll_tx L flt nid email provider claims slug =
     auto_add_user L flt nid email (display_name claims email) (email_domain L email) slug provider
       (\<lambda>ps cs. auto_add_allowed L provider ps cs claims)"

primrec exec :: "'a lib_scheme \<Rightarrow> renv \<Rightarrow> program \<Rightarrow> rstate \<Rightarrow> rstate \<times> mtdb option \<times> (err + outcome)" where
  "exec L env (Answer r) st = (st, None, r)"
| "exec L env (UserGet email k) st = (case user_lookup L env email st of (st', r) \<Rightarrow> exec L env (k r) st')"
| "exec L env (DomainGet dmn k) st = (case domain_lookup L env dmn st of (st', r) \<Rightarrow> exec L env (k r) st')"
| "exec L env (ConfigGet site key k) st = (case config_lookup L env site key st of (st', r) \<Rightarrow> exec L env (k r) st')"
| "exec L env (Enroll email provider claims slug k) st =
     (case enroll_tx L (re_tx env) (re_nid env) email provider claims slug (re_db env ''tx'') of (d', r) \<Rightarrow>
      case exec L env (k r) st of (st', commit, out) \<Rightarrow> (st', Some (case commit of None \<Rightarrow> d' | Some d \<Rightarrow> d), out))"
| "exec L env (Forget email p) st = exec L env p (forget_user env email st)"

lemma exec_tenant:
  "exec L env (tenant_prog provider claims mc t k) st =
     (case keep_tenant L env provider claims mc t st of (st', b) \<Rightarrow> exec L env (k b) st')"
  by (auto simp: tenant_prog_def keep_tenant_def provider_allowed_def split: prod.split sum.split)

lemma exec_checks:
  "exec L env (checks_prog provider claims mc ts k) st =
     (case check_loop L env provider claims mc ts st of (st', kept, dropped) \<Rightarrow> exec L env (k kept) st')"
proof (induction ts arbitrary: k st)
  case (Cons t ts)
  show ?case
    by (cases "keep_tenant L env provider claims mc t st"; cases "snd (keep_tenant L env provider claims mc t st)")
      (simp_all add: exec_tenant Cons.IH split: prod.split)
qed simp

lemma admit_user_admission:
  "admit_user L env inp email provider requested u st =
     (case apply_auth_checks L env (arrays_to_tenants (u_slugs u) (u_names u) (u_logos u) (u_dws u))
             (u_default u) provider (in_claims inp) (u_checks u) st of
        (st', tenants, dflt, dropped) \<Rightarrow> (st', admission L inp email requested u tenants dflt))"
  by (simp only: admit_user_def admission_def)

lemma exec_admit:
  "exec L env (admit_prog L inp email provider requested u) st =
     (case admit_user L env inp email provider requested u st of (st', out) \<Rightarrow> (st', None, Inr out))"
proof (cases "provider = []")
  case True
  then show ?thesis by (simp add: admit_prog_def admit_user_admission apply_auth_checks_def Let_def)
next
  case False
  obtain st' kept dropped where
    "check_loop L env provider (in_claims inp) (u_checks u)
       (arrays_to_tenants (u_slugs u) (u_names u) (u_logos u) (u_dws u)) st = (st', kept, dropped)"
    by (metis prod_cases3)
  with False show ?thesis
    by (simp add: admit_prog_def admit_user_admission apply_auth_checks_def exec_checks Let_def)
qed

lemma exec_policy:
  "exec L env (policy_prog L slug provider claims k) st =
     (case policy_admits L env slug provider claims st of (st', r) \<Rightarrow> exec L env (k r) st')"
  by (auto simp: policy_prog_def policy_admits_def split: prod.split sum.split)

lemma exec_auto_add:
  assumes k: "\<And>r st. exec L env (k r) st = (case h r st of (st', out) \<Rightarrow> (st', None, out))"
  shows "exec L env (auto_add_prog L user email provider requested claims k) st =
     (case auto_add L env user email provider requested claims st of (st', commit, r) \<Rightarrow>
      case h r st' of (st'', out) \<Rightarrow> (st'', commit, out))"
proof (cases "provider = [] \<or> (provider = ''google'' \<and> string_claim claims ''hd'' = []) \<or>
    mail_parse L email \<noteq> Some email \<or> 254 < length email")
  case True
  then show ?thesis by (auto simp: auto_add_prog_def auto_add_def k)
next
  case False
  then have g: "\<not> (provider = [] \<or> provider = ''google'' \<and> string_claim claims ''hd'' = [])"
    "\<not> (mail_parse L email \<noteq> Some email \<or> 254 < length email)" by auto
  note d = auto_add_prog_def [of L user email provider requested claims k, unfolded if_not_P [OF g(1)] if_not_P [OF g(2)]]
    auto_add_def [of L env user email provider requested claims st, unfolded if_not_P [OF g(1)] if_not_P [OF g(2)]]
  obtain st1 r1 where l: "domain_lookup L env (email_domain L email) st = (st1, r1)" by fastforce
  show ?thesis
  proof (cases "\<exists>t. r1 = Inr (Some t) \<and>
      \<not> (\<not> t_enabled t \<or> (requested \<noteq> [] \<and> requested \<noteq> t_slug t) \<or> member_has user (t_slug t))")
    case False
    then show ?thesis by (auto simp: d l k split: sum.split option.split)
  next
    case True
    then obtain t where t: "r1 = Inr (Some t)"
      "\<not> (\<not> t_enabled t \<or> (requested \<noteq> [] \<and> requested \<noteq> t_slug t) \<or> member_has user (t_slug t))" by blast
    obtain st2 r2 where p: "policy_admits L env (t_slug t) provider claims st1 = (st2, r2)" by fastforce
    obtain d' q where e: "enroll_tx L (re_tx env) (re_nid env) email provider claims (t_slug t) (re_db env ''tx'') = (d', q)"
      by fastforce
    then have e': "enroll_call L env email provider claims (t_slug t) = (d', q)"
      by (simp add: enroll_call_def enroll_tx_def)
    note d = d [unfolded l, unfolded t(1)]
    show ?thesis
      unfolding d by (simp add: l t(1) if_not_P [OF t(2)] exec_policy p e e' k unless_denied_def split: sum.split bool.split prod.split)
  qed
qed


subsection \<open>Answers from given registries\<close>

text \<open>
  One call of a program whose successful lookups return what some registry of \<open>D\<close> holds; a failed
  one may return any error. The transaction reads a registry of \<open>D\<close> and leaves one.
\<close>

inductive prog_step :: "'a lib_scheme \<Rightarrow> mtdb set \<Rightarrow> program \<Rightarrow> program \<Rightarrow> bool" for L D where
  user: "(\<And>v. r = Inr v \<Longrightarrow> user_read L D email v) \<Longrightarrow> prog_step L D (UserGet email k) (k r)"
| domain: "(\<And>v. r = Inr v \<Longrightarrow> domain_read L D dmn v) \<Longrightarrow> prog_step L D (DomainGet dmn k) (k r)"
| config: "(\<And>v. r = Inr v \<Longrightarrow> config_read L D key v) \<Longrightarrow> prog_step L D (ConfigGet site key k) (k r)"
| enroll: "enroll_tx L flt nid email provider claims slug d = (d', r) \<Longrightarrow> d \<in> D \<Longrightarrow> d' \<in> D \<Longrightarrow>
     prog_step L D (Enroll email provider claims slug k) (k r)"
| forget: "prog_step L D (Forget email p) p"

abbreviation prog_steps :: "'a lib_scheme \<Rightarrow> mtdb set \<Rightarrow> program \<Rightarrow> program \<Rightarrow> bool" where
  "prog_steps L D \<equiv> (prog_step L D)\<^sup>*\<^sup>*"

inductive_cases prog_stepE:
  "prog_step L D (Answer r) p" "prog_step L D (UserGet email ku) p" "prog_step L D (DomainGet dmn kd) p"
  "prog_step L D (ConfigGet site key kc) p" "prog_step L D (Enroll email provider claims slug ke) p"
  "prog_step L D (Forget email q) p"

lemma prog_step_mono: "prog_step L D p q \<Longrightarrow> D \<subseteq> D' \<Longrightarrow> prog_step L D' p q"
proof (induction rule: prog_step.induct)
  case (user r email k)
  then show ?case by (intro prog_step.user) (auto simp: user_read_def)
next
  case (domain r dmn k)
  then show ?case by (intro prog_step.domain) (auto simp: domain_read_def)
next
  case (config r key site k)
  then show ?case by (intro prog_step.config) (auto simp: config_read_def)
next
  case (enroll flt nid email provider claims slug d d' r k)
  then show ?case by (blast intro: prog_step.enroll)
qed (rule prog_step.forget)

lemma prog_steps_mono: "prog_steps L D p q \<Longrightarrow> D \<subseteq> D' \<Longrightarrow> prog_steps L D' p q"
  by (induction rule: rtranclp_induct) (auto dest: prog_step_mono)

text \<open>A program that answers goes through each of its calls.\<close>

lemma answered:
  "prog_steps L D (Answer r) (Answer out) \<longleftrightarrow> r = out"
  "prog_steps L D (UserGet email ku) (Answer out) \<Longrightarrow>
     \<exists>r. (\<forall>v. r = Inr v \<longrightarrow> user_read L D email v) \<and> prog_steps L D (ku r) (Answer out)"
  "prog_steps L D (DomainGet dmn kd) (Answer out) \<Longrightarrow>
     \<exists>r. (\<forall>v. r = Inr v \<longrightarrow> domain_read L D dmn v) \<and> prog_steps L D (kd r) (Answer out)"
  "prog_steps L D (ConfigGet site key kc) (Answer out) \<Longrightarrow>
     \<exists>r. (\<forall>v. r = Inr v \<longrightarrow> config_read L D key v) \<and> prog_steps L D (kc r) (Answer out)"
  "prog_steps L D (Enroll email provider claims slug ke) (Answer out) \<Longrightarrow>
     \<exists>r flt nid d d'. enroll_tx L flt nid email provider claims slug d = (d', r) \<and> d \<in> D \<and> d' \<in> D \<and>
       prog_steps L D (ke r) (Answer out)"
  "prog_steps L D (Forget email p) (Answer out) \<Longrightarrow> prog_steps L D p (Answer out)"
proof -
  have first: "\<exists>q. prog_step L D p q \<and> prog_steps L D q (Answer out)"
    if "prog_steps L D p (Answer out)" "p \<noteq> Answer out" for p
    using that(1) by (cases rule: converse_rtranclpE) (use that(2) in blast)+
  show "prog_steps L D (Answer r) (Answer out) \<longleftrightarrow> r = out"
    using first [of "Answer r"] by (auto elim: prog_stepE(1))
  {
    assume "prog_steps L D (UserGet email ku) (Answer out)"
    from first [OF this] obtain q where q: "prog_step L D (UserGet email ku) q" "prog_steps L D q (Answer out)" by auto
    from q(1) show "\<exists>r. (\<forall>v. r = Inr v \<longrightarrow> user_read L D email v) \<and> prog_steps L D (ku r) (Answer out)"
      by (rule prog_stepE(2)) (use q(2) in auto)
  next
    assume "prog_steps L D (DomainGet dmn kd) (Answer out)"
    from first [OF this] obtain q where q: "prog_step L D (DomainGet dmn kd) q" "prog_steps L D q (Answer out)" by auto
    from q(1) show "\<exists>r. (\<forall>v. r = Inr v \<longrightarrow> domain_read L D dmn v) \<and> prog_steps L D (kd r) (Answer out)"
      by (rule prog_stepE(3)) (use q(2) in auto)
  next
    assume "prog_steps L D (ConfigGet site key kc) (Answer out)"
    from first [OF this] obtain q where q: "prog_step L D (ConfigGet site key kc) q" "prog_steps L D q (Answer out)" by auto
    from q(1) show "\<exists>r. (\<forall>v. r = Inr v \<longrightarrow> config_read L D key v) \<and> prog_steps L D (kc r) (Answer out)"
      by (rule prog_stepE(4)) (use q(2) in auto)
  next
    assume "prog_steps L D (Enroll email provider claims slug ke) (Answer out)"
    from first [OF this] obtain q where q: "prog_step L D (Enroll email provider claims slug ke) q"
      "prog_steps L D q (Answer out)" by auto
    from q(1) show "\<exists>r flt nid d d'. enroll_tx L flt nid email provider claims slug d = (d', r) \<and> d \<in> D \<and> d' \<in> D \<and>
        prog_steps L D (ke r) (Answer out)"
      by (rule prog_stepE(5)) (use q(2) in fast)
  next
    assume "prog_steps L D (Forget email p) (Answer out)"
    from first [OF this] obtain q where q: "prog_step L D (Forget email p) q" "prog_steps L D q (Answer out)" by auto
    from q(1) show "prog_steps L D p (Answer out)" by (rule prog_stepE(6)) (use q(2) in simp)
  }
qed

lemma tenant_answered:
  assumes "prog_steps L D (tenant_prog provider claims mc t k) (Answer out)"
  shows "\<exists>b. (b \<longrightarrow> tenant_cleared L D provider claims mc (ti_slug t)) \<and> prog_steps L D (k b) (Answer out)"
proof -
  from answered(4) [OF assms [unfolded tenant_prog_def]]
  obtain r :: "err + goval" where "(\<forall>v. r = Inr v \<longrightarrow> config_read L D (cfg_key (ti_slug t) ''auth:providers'') v) \<and>
    prog_steps L D (case r of Inl e \<Rightarrow> k False | Inr allowlist \<Rightarrow>
       if \<not> provider_permits provider allowlist then k False
       else ConfigGet ''check:'' (cfg_key (ti_slug t) (checks_key provider)) (\<lambda>r :: err + goval. case r of
           Inl e \<Rightarrow> k False
         | Inr raw \<Rightarrow> k (member_passes provider raw (override_of mc (ti_slug t) provider) claims))) (Answer out)"
    by (elim exE) (erule that)
  note r = conjunct1 [OF this] conjunct2 [OF this]
  show ?thesis
  proof (cases "\<exists>allowlist. r = Inr allowlist \<and> provider_permits provider allowlist")
    case False
    with r(2) have "prog_steps L D (k False) (Answer out)" by (cases r) simp_all
    then show ?thesis by (intro exI [of _ False]) simp
  next
    case True
    then obtain allowlist where a: "r = Inr allowlist" "provider_permits provider allowlist" by blast
    from r(2) a have "prog_steps L D (ConfigGet ''check:'' (cfg_key (ti_slug t) (checks_key provider)) (\<lambda>r :: err + goval. case r of
           Inl e \<Rightarrow> k False
         | Inr raw \<Rightarrow> k (member_passes provider raw (override_of mc (ti_slug t) provider) claims))) (Answer out)" by simp
    from answered(4) [OF this]
    obtain r' :: "err + goval" where "(\<forall>v. r' = Inr v \<longrightarrow> config_read L D (cfg_key (ti_slug t) (checks_key provider)) v) \<and>
      prog_steps L D (case r' of Inl e \<Rightarrow> k False
         | Inr raw \<Rightarrow> k (member_passes provider raw (override_of mc (ti_slug t) provider) claims)) (Answer out)"
      by (elim exE) (erule that)
    note r' = conjunct1 [OF this] conjunct2 [OF this]
    show ?thesis
    proof (cases r')
      case (Inl e)
      with r'(2) show ?thesis by (intro exI [of _ False]) simp
    next
      case (Inr raw)
      with r' r(1) a show ?thesis
        by (intro exI [of _ "member_passes provider raw (override_of mc (ti_slug t) provider) claims"])
          (auto simp: tenant_cleared_def)
    qed
  qed
qed

lemma checks_answered:
  assumes "prog_steps L D (checks_prog provider claims mc ts k) (Answer out)"
  shows "\<exists>kept. set kept \<subseteq> {t \<in> set ts. tenant_cleared L D provider claims mc (ti_slug t)} \<and>
    prog_steps L D (k kept) (Answer out)"
  using assms
proof (induction ts arbitrary: k)
  case (Cons t ts)
  from tenant_answered [OF Cons.prems [unfolded checks_prog.simps]] obtain b where b: "b \<longrightarrow> tenant_cleared L D provider claims mc (ti_slug t)"
    "prog_steps L D (checks_prog provider claims mc ts (\<lambda>kept. k (if b then t # kept else kept))) (Answer out)"
    by blast
  from Cons.IH [OF b(2)] obtain kept where "set kept \<subseteq> {t \<in> set ts. tenant_cleared L D provider claims mc (ti_slug t)}"
    "prog_steps L D (k (if b then t # kept else kept)) (Answer out)" by blast
  with b(1) show ?case by (intro exI [of _ "if b then t # kept else kept"]) auto
qed auto

lemma policy_answered:
  assumes "prog_steps L D (policy_prog L slug provider claims k) (Answer out)"
  shows "\<exists>r. prog_steps L D (k r) (Answer out)"
proof -
  have step: "\<exists>r. prog_steps L D (k r) (Answer out)"
    if "prog_steps L D (ConfigGet site key (\<lambda>r. case r of Inl e \<Rightarrow> k (Inl e) | Inr v \<Rightarrow> f v)) (Answer out)"
      and "\<And>v. prog_steps L D (f v) (Answer out) \<Longrightarrow> \<exists>r. prog_steps L D (k r) (Answer out)" for site key f
  proof -
    from answered(4) [OF that(1)] obtain r :: "err + goval" where "prog_steps L D (case r of Inl e \<Rightarrow> k (Inl e) | Inr v \<Rightarrow> f v) (Answer out)"
      by blast
    with that(2) show ?thesis by (cases r) auto
  qed
  show ?thesis
  proof (rule step [OF assms [unfolded policy_prog_def]])
    fix flag assume f: "prog_steps L D (if \<not> as_bool flag then k (Inr False)
       else ConfigGet ''add:'' (cfg_key slug ''auth:providers'') (\<lambda>r. case r of Inl e \<Rightarrow> k (Inl e) | Inr providers \<Rightarrow>
         ConfigGet ''add:'' (cfg_key slug (checks_key provider)) (\<lambda>r. case r of Inl e \<Rightarrow> k (Inl e) | Inr checks \<Rightarrow>
           k (Inr (auto_add_allowed L provider providers checks claims))))) (Answer out)"
    show "\<exists>r. prog_steps L D (k r) (Answer out)"
    proof (cases "as_bool flag")
      case True
      with f have "prog_steps L D (ConfigGet ''add:'' (cfg_key slug ''auth:providers'') (\<lambda>r. case r of Inl e \<Rightarrow> k (Inl e) | Inr providers \<Rightarrow>
         ConfigGet ''add:'' (cfg_key slug (checks_key provider)) (\<lambda>r. case r of Inl e \<Rightarrow> k (Inl e) | Inr checks \<Rightarrow>
           k (Inr (auto_add_allowed L provider providers checks claims))))) (Answer out)" by simp
      then show ?thesis by (rule step) (erule step, blast)
    next
      case False
      with f show ?thesis by auto
    qed
  qed
qed

lemma enroll_tx_result:
  assumes "enroll_tx L flt nid email provider claims slug d = (d', Inr (Some u))"
  shows "u_enabled u \<and> get_user_with_tenants L d' email = Inr (Some u)"
  using assms auto_add_tx_enabled
  by (auto simp: enroll_tx_def auto_add_user_def split: sum.splits)

lemma auto_add_answered:
  assumes "prog_steps L D (auto_add_prog L user email provider requested claims k) (Answer out)"
  shows "\<exists>r. prog_steps L D (k r) (Answer out) \<and> (\<forall>u. r = Inr (Some u) \<longrightarrow>
     user = Some u \<or> (\<exists>d \<in> D. get_user_with_tenants L d email = Inr (Some u) \<and> u_enabled u))"
proof (cases "prog_steps L D (k (Inr user)) (Answer out) \<or> (\<exists>e. prog_steps L D (k (Inl e)) (Answer out))")
  case True
  then show ?thesis by auto
next
  case False
  let ?add = "\<lambda>s. Enroll email provider claims s (\<lambda>r. Forget email (k (unless_denied user r)))"
  let ?policy = "\<lambda>t :: mtenant. policy_prog L (t_slug t) provider claims (\<lambda>r :: err + bool. case r of
      Inl e \<Rightarrow> k (Inl e) | Inr False \<Rightarrow> k (Inr user) | Inr True \<Rightarrow> ?add (t_slug t))"
  let ?tenant = "\<lambda>r :: err + mtenant option. case r of
         Inl e \<Rightarrow> k (Inl e)
       | Inr None \<Rightarrow> k (Inr user)
       | Inr (Some t) \<Rightarrow>
           if \<not> t_enabled t \<or> (requested \<noteq> [] \<and> requested \<noteq> t_slug t) \<or> member_has user (t_slug t) then k (Inr user)
           else ?policy t"
  from assms False have "prog_steps L D (DomainGet (email_domain L email) ?tenant) (Answer out)"
    by (simp only: auto_add_prog_def split: if_split_asm) simp_all
  from answered(3) [OF this] obtain r1 :: "err + mtenant option" where 1:
    "(\<forall>v. r1 = Inr v \<longrightarrow> domain_read L D (email_domain L email) v) \<and> prog_steps L D (?tenant r1) (Answer out)"
    by (elim exE) (erule that)
  have "\<exists>t. prog_steps L D (?policy t) (Answer out)"
  proof (cases "\<exists>t. r1 = Inr (Some t) \<and>
      \<not> (\<not> t_enabled t \<or> (requested \<noteq> [] \<and> requested \<noteq> t_slug t) \<or> member_has user (t_slug t))")
    case True
    then obtain t where t: "r1 = Inr (Some t)"
      "\<not> (\<not> t_enabled t \<or> (requested \<noteq> [] \<and> requested \<noteq> t_slug t) \<or> member_has user (t_slug t))" by blast
    from 1 show ?thesis unfolding t(1) sum.case option.case if_not_P [OF t(2)] by (rule exI [OF conjunct2])
  next
    case no_tenant: False
    with 1 False show ?thesis by (cases r1) (simp_all split: option.split_asm if_split_asm)
  qed
  then obtain t where "prog_steps L D (?policy t) (Answer out)" by (elim exE) (erule that)
  from policy_answered [OF this] obtain r2 :: "err + bool" where r2: "prog_steps L D (case r2 of
      Inl e \<Rightarrow> k (Inl e) | Inr False \<Rightarrow> k (Inr user) | Inr True \<Rightarrow> ?add (t_slug t)) (Answer out)"
    by (elim exE) (erule that)
  obtain s where "prog_steps L D (?add s) (Answer out)"
  proof (cases r2)
    case (Inl e)
    with r2 False show ?thesis by simp
  next
    case (Inr b)
    with r2 False that show ?thesis by (cases b) simp_all
  qed
  then obtain q flt nid d d' where q: "enroll_tx L flt nid email provider claims s d = (d', q)" "d' \<in> D"
    "prog_steps L D (k (unless_denied user q)) (Answer out)"
    using answered(5) [of L D] answered(6) [of L D] by metis
  show ?thesis
  proof (cases q)
    case (Inl e)
    with q(3) False show ?thesis by (cases e) (auto simp: unless_denied_def)
  next
    case (Inr r)
    have "\<exists>d \<in> D. get_user_with_tenants L d email = Inr (Some u) \<and> u_enabled u" if "r = Some u" for u
      using enroll_tx_result [OF q(1) [unfolded Inr that]] q(2) by blast
    with q(3) Inr show ?thesis by (intro exI [of _ "Inr r"]) (simp add: unless_denied_def)
  qed
qed

text \<open>What an identity answered from the registries of \<open>D\<close> names.\<close>

lemma admission_Resolved:
  assumes "admission L inp email requested u tenants dflt = Resolved i"
  shows "tenants \<noteq> [] \<and> ri_user i = email \<and> ri_tenant_ids i = slug_list tenants"
  using assms by (auto simp: admission_def user_identity_def Let_def split: if_split_asm)

lemma admit_answered:
  assumes "prog_steps L D (admit_prog L inp email provider requested u) (Answer (Inr (Resolved i)))"
  shows "ri_user i = email \<and> ri_tenant_ids i \<noteq> [] \<and> (\<forall>s \<in> set (ri_tenant_ids i). s \<in> set (u_slugs u) \<and>
     (provider \<noteq> [] \<longrightarrow> tenant_cleared L D provider (in_claims inp) (u_checks u) s))"
proof -
  let ?ts = "arrays_to_tenants (u_slugs u) (u_names u) (u_logos u) (u_dws u)"
  obtain kept dflt where k: "set kept \<subseteq> set ?ts" "admission L inp email requested u kept dflt = Resolved i"
    "provider \<noteq> [] \<longrightarrow> (\<forall>t \<in> set kept. tenant_cleared L D provider (in_claims inp) (u_checks u) (ti_slug t))"
  proof (cases "provider = []")
    case True
    with assms that [of ?ts "u_default u"] show ?thesis by (simp add: admit_prog_def Let_def answered(1))
  next
    case False
    with assms obtain kept where "set kept \<subseteq> {t \<in> set ?ts. tenant_cleared L D provider (in_claims inp) (u_checks u) (ti_slug t)}"
      "admission L inp email requested u kept
         (if u_default u \<noteq> [] \<and> u_default u \<notin> set (slug_list kept) then [] else u_default u) = Resolved i"
      by (auto simp: admit_prog_def Let_def answered(1) dest!: checks_answered)
    with that show ?thesis by blast
  qed
  with admission_Resolved [OF k(2)] ti_slug_arrays show ?thesis by (fastforce simp: slug_list_def)
qed

lemma identity_answered:
  assumes "prog_steps L D (user_prog L inp) (Answer (Inr (Resolved i)))"
  obtains u d where "d \<in> D" "get_user_with_tenants L d (ri_user i) = Inr (Some u)" "u_enabled u"
    "ri_user i = user_email L inp" "ri_tenant_ids i \<noteq> []"
    "\<And>s. s \<in> set (ri_tenant_ids i) \<Longrightarrow> s \<in> set (u_slugs u) \<and>
       (user_provider inp \<noteq> [] \<longrightarrow> tenant_cleared L D (user_provider inp) (in_claims inp) (u_checks u) s)"
proof -
  let ?email = "user_email L inp" and ?provider = "user_provider inp" and ?req = "requested_tenant L (in_tenant inp)"
  let ?k = "\<lambda>r :: err + muser option. case r of
            Inl e \<Rightarrow> Answer (Inl e)
          | Inr None \<Rightarrow> Answer (Inr (Rejected 401 ''membership_required''
               ''existing tenant membership or eligible auto-add required''))
          | Inr (Some u) \<Rightarrow> admit_prog L inp ?email ?provider ?req u"
  from assms obtain user where user: "user_read L D ?email user" "\<not> is_disabled user"
    "prog_steps L D (if user = None \<or> ?req = [] \<or> \<not> member_has user ?req
       then auto_add_prog L user ?email ?provider ?req (in_claims inp) ?k else ?k (Inr user)) (Answer (Inr (Resolved i)))"
    unfolding user_prog_def Let_def
    by (auto simp: answered(1) split: if_split_asm sum.split_asm dest!: answered(2))
  obtain r where r: "prog_steps L D (?k r) (Answer (Inr (Resolved i)))"
    "\<And>u. r = Inr (Some u) \<Longrightarrow> user = Some u \<or> (\<exists>d \<in> D. get_user_with_tenants L d ?email = Inr (Some u) \<and> u_enabled u)"
  proof (cases "user = None \<or> ?req = [] \<or> \<not> member_has user ?req")
    case True
    from auto_add_answered [OF user(3) [unfolded if_P [OF True]]] that show ?thesis by blast
  next
    case False
    from user(3) [unfolded if_not_P [OF False]] that [of "Inr user"] show ?thesis by blast
  qed
  from r(1) obtain u where u: "r = Inr (Some u)"
    "prog_steps L D (admit_prog L inp ?email ?provider ?req u) (Answer (Inr (Resolved i)))"
    by (auto simp: answered(1) split: sum.split_asm option.split_asm)
  note a = admit_answered [OF u(2)]
  have "\<exists>d \<in> D. get_user_with_tenants L d ?email = Inr (Some u) \<and> u_enabled u"
    using r(2) [OF u(1)] user(1,2) by (auto simp: user_read_def is_disabled_def)
  with a that show ?thesis by metis
qed

end
