(* ===== verification/Overlapping_Requests.thy ===== *)
theory Overlapping_Requests
  imports Replica_Concurrency Resolver_Program Deployment
begin

text \<open>
  Whole requests that overlap in one \<open>Resolver\<close>: each runs its program (\<open>Resolver_Program\<close>) on the
  three shared caches and the one revision gate, one critical section at a time, while registries are
  committed by it, by other requests and elsewhere. The view of the host that shows one of its caches
  takes the steps of \<open>Replica_Concurrency\<close>, so every lookup inherits the bound proved there, and with
  it the answer of the request.
\<close>

subsection \<open>State\<close>

datatype run =
    Unstarted
  | Run rinput program
  | Wait rinput program nat       \<comment> \<open>the program's first call is running as this caller of its cache\<close>

record host =
  ho_users :: "(err, muser option) cache_sys"
  ho_domains :: "(err, mtenant option) cache_sys"
  ho_config :: "(err, goval) cache_sys"
  ho_gate :: gate
  ho_probe :: "gate_probe option"
  ho_cleared :: nat               \<comment> \<open>how many of the caches \<open>Invalidate\<close> has purged\<close>
  ho_req :: "nat \<Rightarrow> request"
  ho_run :: "nat \<Rightarrow> run"
  ho_commits :: "(int \<times> mtdb) list"
  ho_born_users :: "nat \<Rightarrow> nat"    \<comment> \<open>history, as \<open>rp_born\<close>\<close>
  ho_born_domains :: "nat \<Rightarrow> nat"
  ho_born_config :: "nat \<Rightarrow> nat"

definition fresh_host :: "int \<Rightarrow> int \<Rightarrow> int \<Rightarrow> mtdb \<Rightarrow> host" where
  "fresh_host cap lifetime now d =
     (let st = new_resolver cap lifetime; c = capacity (rs_users st); t = ttl (rs_users st) in
      \<lparr>ho_users = init_sys c t now, ho_domains = init_sys c t now, ho_config = init_sys c t now,
       ho_gate = rs_gate st, ho_probe = None, ho_cleared = 0, ho_req = (\<lambda>_. Idle), ho_run = (\<lambda>_. Unstarted),
       ho_commits = [(now, d)], ho_born_users = (\<lambda>_. 1), ho_born_domains = (\<lambda>_. 1), ho_born_config = (\<lambda>_. 1)\<rparr>)"

abbreviation ho_clock :: "host \<Rightarrow> int" where
  "ho_clock h \<equiv> clock (ho_users h)"

definition ho_registry :: "host \<Rightarrow> mtdb" where
  "ho_registry h = snd (last (ho_commits h))"

subsection \<open>Views\<close>

text \<open>The host as a replica with one of its caches, the \<open>n\<close>-th that \<open>Invalidate\<close> purges.\<close>

definition view :: "(err, 'v) cache_sys \<Rightarrow> (nat \<Rightarrow> nat) \<Rightarrow> nat \<Rightarrow> host \<Rightarrow> 'v replica" where
  "view c born n h = \<lparr>rp_cache = c, rp_gate = ho_gate h,
     rp_probe = map_option (\<lambda>p. p\<lparr>gp_cleared := n < ho_cleared h\<rparr>) (ho_probe h),
     rp_req = ho_req h, rp_commits = ho_commits h, rp_born = born\<rparr>"

definition users_view :: "host \<Rightarrow> muser option replica" where
  "users_view h = view (ho_users h) (ho_born_users h) 0 h"

definition domains_view :: "host \<Rightarrow> mtenant option replica" where
  "domains_view h = view (ho_domains h) (ho_born_domains h) 1 h"

definition config_view :: "host \<Rightarrow> goval replica" where
  "config_view h = view (ho_config h) (ho_born_config h) 2 h"

lemmas view_defs = users_view_def domains_view_def config_view_def view_def

abbreviation domain_loader :: "'a lib_scheme \<Rightarrow> mtdb \<Rightarrow> string \<Rightarrow> err + mtenant option" where
  "domain_loader L \<equiv> \<lambda>d dmn. Inr (get_tenant_by_domain L d dmn)"

subsection \<open>Steps\<close>

text \<open>A call begins as a caller of its cache; what the cache then does by itself; the born epochs.\<close>

definition begin_call :: "nat \<Rightarrow> string \<Rightarrow> ('e, 'v) cache_sys \<Rightarrow> ('e, 'v) cache_sys" where
  "begin_call j key c =
     set_pc j \<lparr>th_key = key, th_pc = PStart, th_gen = 0, th_e0 = epoch c, th_n = 0, th_d = 0\<rparr> c"

definition inner_step :: "('e, 'v) cache_sys \<Rightarrow> ('e, 'v) cache_sys \<Rightarrow> bool" where
  "inner_step c c' \<longleftrightarrow> cache_step c c' \<and> epoch c' = epoch c \<and> clock c' = clock c \<and>
     (\<forall>j. getters c j = None \<longrightarrow> getters c' j = None)"

definition forgotten_cache :: "string \<Rightarrow> ('e, 'v) cache_sys \<Rightarrow> ('e, 'v) cache_sys" where
  "forgotten_cache k c = c\<lparr>cache := invalidate k (cache c), epoch := Suc (epoch c),
     hist := (hist c)(Suc (epoch c) := (hist c (epoch c))(k := Suc (epoch c)))\<rparr>"

definition reborn :: "('e, 'v) cache_sys \<Rightarrow> (nat \<Rightarrow> nat) \<Rightarrow> host \<Rightarrow> nat \<Rightarrow> nat" where
  "reborn c born h = born(Suc (epoch c) := length (ho_commits h))"

inductive host_step :: "'a lib_scheme \<Rightarrow> (nat \<Rightarrow> nat) \<Rightarrow> host \<Rightarrow> host \<Rightarrow> bool" for L own where
  commit: "db_revision (ho_registry h) \<le> db_revision d \<Longrightarrow>
     host_step L own h (h\<lparr>ho_commits := ho_commits h @ [(ho_clock h, d)]\<rparr>)"
| tick: "ho_clock h \<le> now \<Longrightarrow> host_step L own h (h\<lparr>ho_users := (ho_users h)\<lparr>clock := now\<rparr>,
     ho_domains := (ho_domains h)\<lparr>clock := now\<rparr>, ho_config := (ho_config h)\<lparr>clock := now\<rparr>\<rparr>)"
| ask: "ho_req h i = Idle \<Longrightarrow> is_user_method (in_method inp) \<Longrightarrow>
     host_step L own h (h\<lparr>ho_req := (ho_req h)(i := Asked (ho_clock h)), ho_run := (ho_run h)(i := Run inp (user_prog L inp))\<rparr>)"
| fresh: "ho_req h i = Asked b \<Longrightarrow> ho_probe h = None \<Longrightarrow> within_window (ho_gate h) (ho_clock h) \<Longrightarrow>
     host_step L own h (h\<lparr>ho_req := (ho_req h)(i := Through b)\<rparr>)"
| probe: "ho_req h i = Asked b \<Longrightarrow> ho_probe h = None \<Longrightarrow> b \<le> now \<Longrightarrow> now \<le> ho_clock h \<Longrightarrow>
     \<not> within_window (ho_gate h) now \<Longrightarrow>
     host_step L own h (h\<lparr>ho_probe := Some \<lparr>gp_by = i, gp_now = now, gp_started = ho_clock h, gp_read = None,
       gp_cleared = False\<rparr>, ho_cleared := 0\<rparr>)"
| read: "ho_probe h = Some p \<Longrightarrow> gp_read p = None \<Longrightarrow>
     host_step L own h (h\<lparr>ho_probe := Some (p\<lparr>gp_read := Some (db_revision (ho_registry h))\<rparr>)\<rparr>)"
| clear_users: "ho_probe h = Some p \<Longrightarrow> gp_read p = Some rv \<Longrightarrow> ho_cleared h = 0 \<Longrightarrow>
     gate_check (ho_gate h) (gp_now p) (gp_started p) (Inr rv :: err + int) = (g, True, Inr ()) \<Longrightarrow>
     host_step L own h (h\<lparr>ho_users := purged_cache (ho_users h),
       ho_born_users := reborn (ho_users h) (ho_born_users h) h, ho_cleared := 1\<rparr>)"
| clear_domains: "ho_probe h = Some p \<Longrightarrow> gp_read p = Some rv \<Longrightarrow> ho_cleared h = 1 \<Longrightarrow>
     gate_check (ho_gate h) (gp_now p) (gp_started p) (Inr rv :: err + int) = (g, True, Inr ()) \<Longrightarrow>
     host_step L own h (h\<lparr>ho_domains := purged_cache (ho_domains h),
       ho_born_domains := reborn (ho_domains h) (ho_born_domains h) h, ho_cleared := 2\<rparr>)"
| clear_config: "ho_probe h = Some p \<Longrightarrow> gp_read p = Some rv \<Longrightarrow> ho_cleared h = 2 \<Longrightarrow>
     gate_check (ho_gate h) (gp_now p) (gp_started p) (Inr rv :: err + int) = (g, True, Inr ()) \<Longrightarrow>
     host_step L own h (h\<lparr>ho_config := purged_cache (ho_config h),
       ho_born_config := reborn (ho_config h) (ho_born_config h) h, ho_cleared := 3\<rparr>)"
| open_gate: "ho_probe h = Some p \<Longrightarrow> gp_read p = Some rv \<Longrightarrow> ho_req h (gp_by p) = Asked b \<Longrightarrow>
     gate_check (ho_gate h) (gp_now p) (gp_started p) (Inr rv :: err + int) = (g, changed, Inr ()) \<Longrightarrow>
     (changed \<Longrightarrow> ho_cleared h = 3) \<Longrightarrow>
     host_step L own h (h\<lparr>ho_gate := g, ho_probe := None, ho_req := (ho_req h)(gp_by p := Through b)\<rparr>)"
| deny: "ho_probe h = Some p \<Longrightarrow> ho_run h (gp_by p) = Run inp q \<Longrightarrow>
     gate_check (ho_gate h) (gp_now p) (gp_started p) (Inl e :: err + int) = (g, changed, Inl e) \<Longrightarrow>
     host_step L own h (h\<lparr>ho_gate := g, ho_probe := None, ho_req := (ho_req h)(gp_by p := Denied),
       ho_run := (ho_run h)(gp_by p := Run inp (Answer (Inl e)))\<rparr>)"
| work_users: "inner_step (ho_users h) c \<Longrightarrow>
     loads_from (get_user_with_tenants L) (users_view h) (loads c - loads (ho_users h)) \<Longrightarrow>
     host_step L own h (h\<lparr>ho_users := c\<rparr>)"
| work_domains: "inner_step (ho_domains h) c \<Longrightarrow>
     loads_from (domain_loader L) (domains_view h) (loads c - loads (ho_domains h)) \<Longrightarrow>
     host_step L own h (h\<lparr>ho_domains := c\<rparr>)"
| work_config: "inner_step (ho_config h) c \<Longrightarrow>
     loads_from (load_config L) (config_view h) (loads c - loads (ho_config h)) \<Longrightarrow>
     host_step L own h (h\<lparr>ho_config := c\<rparr>)"
| call_user: "ho_req h i = Through b \<Longrightarrow> ho_run h i = Run inp (UserGet email ku) \<Longrightarrow> getters (ho_users h) j = None \<Longrightarrow>
     own j = i \<Longrightarrow> host_step L own h (h\<lparr>ho_users := begin_call j email (ho_users h),
       ho_run := (ho_run h)(i := Wait inp (UserGet email ku) j)\<rparr>)"
| call_domain: "ho_req h i = Through b \<Longrightarrow> ho_run h i = Run inp (DomainGet dmn kd) \<Longrightarrow> getters (ho_domains h) j = None \<Longrightarrow>
     own j = i \<Longrightarrow> host_step L own h (h\<lparr>ho_domains := begin_call j dmn (ho_domains h),
       ho_run := (ho_run h)(i := Wait inp (DomainGet dmn kd) j)\<rparr>)"
| call_config: "ho_req h i = Through b \<Longrightarrow> ho_run h i = Run inp (ConfigGet site key kc) \<Longrightarrow> getters (ho_config h) j = None \<Longrightarrow>
     own j = i \<Longrightarrow> host_step L own h (h\<lparr>ho_config := begin_call j key (ho_config h),
       ho_run := (ho_run h)(i := Wait inp (ConfigGet site key kc) j)\<rparr>)"
| return_user: "ho_run h i = Wait inp (UserGet email ku) j \<Longrightarrow> getters (ho_users h) j = Some th \<Longrightarrow>
     th_pc th = PDone r \<Longrightarrow> host_step L own h (h\<lparr>ho_run := (ho_run h)(i := Run inp (ku r))\<rparr>)"
| return_domain: "ho_run h i = Wait inp (DomainGet dmn kd) j \<Longrightarrow> getters (ho_domains h) j = Some th \<Longrightarrow>
     th_pc th = PDone r \<Longrightarrow> host_step L own h (h\<lparr>ho_run := (ho_run h)(i := Run inp (kd r))\<rparr>)"
| return_config: "ho_run h i = Wait inp (ConfigGet site key kc) j \<Longrightarrow> getters (ho_config h) j = Some th \<Longrightarrow>
     th_pc th = PDone r \<Longrightarrow> host_step L own h (h\<lparr>ho_run := (ho_run h)(i := Run inp (kc r))\<rparr>)"
| enroll: "ho_req h i = Through b \<Longrightarrow> ho_run h i = Run inp (Enroll email provider claims tn ke) \<Longrightarrow>
     enroll_tx L flt nid email provider claims tn (ho_registry h) = (d, r) \<Longrightarrow>
     host_step L own h (h\<lparr>ho_commits := ho_commits h @ [(ho_clock h, d)], ho_run := (ho_run h)(i := Run inp (ke r))\<rparr>)"
| forget: "ho_req h i = Through b \<Longrightarrow> ho_run h i = Run inp (Forget email p) \<Longrightarrow>
     host_step L own h (h\<lparr>ho_users := forgotten_cache email (ho_users h),
       ho_born_users := reborn (ho_users h) (ho_born_users h) h, ho_run := (ho_run h)(i := Run inp p)\<rparr>)"

abbreviation host_steps :: "'a lib_scheme \<Rightarrow> (nat \<Rightarrow> nat) \<Rightarrow> host \<Rightarrow> host \<Rightarrow> bool" where
  "host_steps L own \<equiv> (host_step L own)\<^sup>*\<^sup>*"

subsection \<open>Every view takes the steps of a replica\<close>

definition clocks_agree :: "host \<Rightarrow> bool" where
  "clocks_agree h \<longleftrightarrow> clock (ho_domains h) = ho_clock h \<and> clock (ho_config h) = ho_clock h"

lemma clocks_agree_step: "host_step L own h h' \<Longrightarrow> clocks_agree h \<Longrightarrow> clocks_agree h'"
  by (induction rule: host_step.induct)
    (auto simp: clocks_agree_def inner_step_def begin_call_def set_pc_def purged_cache_def forgotten_cache_def)

text \<open>What no view shows.\<close>

lemma view_frame [simp]:
  "view c born n (h\<lparr>ho_users := cu\<rparr>) = view c born n h" "view c born n (h\<lparr>ho_domains := cd\<rparr>) = view c born n h"
  "view c born n (h\<lparr>ho_config := cc\<rparr>) = view c born n h" "view c born n (h\<lparr>ho_run := rs\<rparr>) = view c born n h"
  "view c born n (h\<lparr>ho_born_users := b\<rparr>) = view c born n h" "view c born n (h\<lparr>ho_born_domains := b\<rparr>) = view c born n h"
  "view c born n (h\<lparr>ho_born_config := b\<rparr>) = view c born n h"
  "view c born n (h\<lparr>ho_users := cu, ho_born_users := b, ho_cleared := m\<rparr>) = view c born n (h\<lparr>ho_cleared := m\<rparr>)"
  "view c born n (h\<lparr>ho_domains := cd, ho_born_domains := b, ho_cleared := m\<rparr>) = view c born n (h\<lparr>ho_cleared := m\<rparr>)"
  "view c born n (h\<lparr>ho_config := cc, ho_born_config := b, ho_cleared := m\<rparr>) = view c born n (h\<lparr>ho_cleared := m\<rparr>)"
  by (simp_all add: view_def)

lemma view_cleared: "(n < m) = (n < ho_cleared h) \<Longrightarrow> view c born n (h\<lparr>ho_cleared := m\<rparr>) = view c born n h"
  by (simp add: view_def)

text \<open>The steps all views share: commits, the gate, and the passing of requests.\<close>

lemma view_commit:
  "db_revision (ho_registry h) \<le> db_revision d \<Longrightarrow> clock c = ho_clock h \<Longrightarrow>
   rep_step look own (view c born n h) (view c born n (h\<lparr>ho_commits := ho_commits h @ [(ho_clock h, d)]\<rparr>))"
  using rep_step.commit [of "view c born n h" d look own] by (simp add: view_def ho_registry_def current_revision_def)

lemma view_ask:
  "ho_req h i = Idle \<Longrightarrow> clock c = ho_clock h \<Longrightarrow>
   rep_step look own (view c born n h) (view c born n (h\<lparr>ho_req := (ho_req h)(i := Asked (ho_clock h))\<rparr>))"
  using rep_step.ask [of "view c born n h" i look own] by (simp add: view_def)

lemma view_fresh:
  "ho_req h i = Asked b \<Longrightarrow> ho_probe h = None \<Longrightarrow> within_window (ho_gate h) (ho_clock h) \<Longrightarrow> clock c = ho_clock h \<Longrightarrow>
   rep_step look own (view c born n h) (view c born n (h\<lparr>ho_req := (ho_req h)(i := Through b)\<rparr>))"
  using rep_step.fresh [of "view c born n h" i b look own] by (simp add: view_def)

lemma view_probe:
  "ho_req h i = Asked b \<Longrightarrow> ho_probe h = None \<Longrightarrow> b \<le> now \<Longrightarrow> now \<le> ho_clock h \<Longrightarrow> \<not> within_window (ho_gate h) now \<Longrightarrow>
   clock c = ho_clock h \<Longrightarrow>
   rep_step look own (view c born n h) (view c born n (h\<lparr>ho_probe := Some \<lparr>gp_by = i, gp_now = now,
     gp_started = ho_clock h, gp_read = None, gp_cleared = False\<rparr>, ho_cleared := 0\<rparr>))"
  using rep_step.probe [of "view c born n h" i b now look own] by (simp add: view_def)

lemma view_read:
  "ho_probe h = Some p \<Longrightarrow> gp_read p = None \<Longrightarrow>
   rep_step look own (view c born n h)
     (view c born n (h\<lparr>ho_probe := Some (p\<lparr>gp_read := Some (db_revision (ho_registry h))\<rparr>)\<rparr>))"
  using rep_step.read [of "view c born n h" "p\<lparr>gp_cleared := n < ho_cleared h\<rparr>" look own]
  by (cases p) (simp add: view_def ho_registry_def current_revision_def)

lemma view_open_gate:
  "ho_probe h = Some p \<Longrightarrow> gp_read p = Some rv \<Longrightarrow> ho_req h (gp_by p) = Asked b \<Longrightarrow>
   gate_check (ho_gate h) (gp_now p) (gp_started p) (Inr rv :: err + int) = (g, changed, Inr ()) \<Longrightarrow>
   (changed \<Longrightarrow> n < ho_cleared h) \<Longrightarrow>
   rep_step look own (view c born n h)
     (view c born n (h\<lparr>ho_gate := g, ho_probe := None, ho_req := (ho_req h)(gp_by p := Through b)\<rparr>))"
  using rep_step.open_gate [of "view c born n h" "p\<lparr>gp_cleared := n < ho_cleared h\<rparr>" rv b g changed look own]
  by (simp add: view_def)

lemma view_deny:
  "ho_probe h = Some p \<Longrightarrow>
   gate_check (ho_gate h) (gp_now p) (gp_started p) (Inl e :: err + int) = (g, changed, Inl e) \<Longrightarrow>
   rep_step look own (view c born n h)
     (view c born n (h\<lparr>ho_gate := g, ho_probe := None, ho_req := (ho_req h)(gp_by p := Denied)\<rparr>))"
  using rep_step.deny [of "view c born n h" "p\<lparr>gp_cleared := n < ho_cleared h\<rparr>" e g changed look own]
  by (simp add: view_def)

text \<open>The steps of one cache.\<close>

lemma view_tick:
  "clock c \<le> now \<Longrightarrow> rep_step look own (view c born n h) (view (c\<lparr>clock := now\<rparr>) born n h)"
  using rep_step.work [of "view c born n h" "c\<lparr>clock := now\<rparr>" own look] cache_step.tick [of c now]
  by (simp add: view_def with_cache_def loads_from_def)

lemma view_inner:
  "inner_step c c' \<Longrightarrow> loads_from look (view c born n h) (loads c' - loads c) \<Longrightarrow>
   rep_step look own (view c born n h) (view c' born n h)"
  using rep_step.work [of "view c born n h" c' own look] by (simp add: view_def with_cache_def inner_step_def)

lemma view_call:
  assumes "ho_req h (own j) = Through b" "getters c j = None"
  shows "rep_step look own (view c born n h) (view (begin_call j key c) born n h)"
proof -
  have "rep_step look own (view c born n h) (with_cache (begin_call j key c) (view c born n h))"
  proof (rule rep_step.work)
    show "cache_step (rp_cache (view c born n h)) (begin_call j key c)"
      using cache_step.call [OF assms(2)] by (simp add: view_def begin_call_def)
    show "\<exists>b. rp_req (view c born n h) (own i) = Through b"
      if "getters (rp_cache (view c born n h)) i = None" "getters (begin_call j key c) i \<noteq> None" for i
      using that assms(1) by (cases "i = j") (auto simp: view_def begin_call_def set_pc_def)
  qed (simp add: view_def begin_call_def set_pc_def loads_from_def)
  then show ?thesis by (simp add: view_def with_cache_def begin_call_def set_pc_def)
qed

lemma view_clear:
  "ho_probe h = Some p \<Longrightarrow> gp_read p = Some rv \<Longrightarrow> ho_cleared h = n \<Longrightarrow> m = Suc n \<Longrightarrow>
   gate_check (ho_gate h) (gp_now p) (gp_started p) (Inr rv :: err + int) = (g, True, Inr ()) \<Longrightarrow>
   rep_step look own (view c born n h) (view (purged_cache c) (reborn c born h) n (h\<lparr>ho_cleared := m\<rparr>))"
  using rep_step.clear [of "view c born n h" "p\<lparr>gp_cleared := False\<rparr>" rv g look own]
  by (simp add: view_def with_cache_def reborn_def purged_cache_def)

lemma view_forget:
  "rep_step look own (view c born n h) (view (forgotten_cache key c) (reborn c born h) n h)"
  using rep_step.work [of "view c born n h" "forgotten_cache key c" own look] cache_step.do_invalidate [of c key]
  by (simp add: view_def with_cache_def reborn_def forgotten_cache_def loads_from_def)

lemmas view_steps = view_commit view_ask view_fresh view_probe view_read view_open_gate view_deny view_tick view_inner
  view_call view_clear view_forget

lemma enroll_tx_revision:
  "enroll_tx L flt nid email provider claims tn d = (d', r) \<Longrightarrow> db_revision d \<le> db_revision d'"
  by (metis auto_add_user_revision enroll_tx_def fst_conv)

lemma host_step_users:
  "host_step L own h h' \<Longrightarrow> clocks_agree h \<Longrightarrow>
     users_view h' = users_view h \<or> rep_step (get_user_with_tenants L) own (users_view h) (users_view h')"
  unfolding users_view_def
proof (induction rule: host_step.induct)
  case (enroll h i b inp email provider claims tn ke flt nid d r)
  from enroll_tx_revision [OF enroll(3)] show ?case by (simp add: view_commit)
qed (auto simp: view_cleared users_view_def intro: view_steps)

lemma host_step_domains:
  "host_step L own h h' \<Longrightarrow> clocks_agree h \<Longrightarrow>
     domains_view h' = domains_view h \<or> rep_step (domain_loader L) own (domains_view h) (domains_view h')"
  unfolding domains_view_def
proof (induction rule: host_step.induct)
  case (enroll h i b inp email provider claims tn ke flt nid d r)
  from enroll_tx_revision [OF enroll(3)] enroll(4) show ?case by (simp add: view_commit clocks_agree_def)
qed (auto simp: view_cleared domains_view_def clocks_agree_def intro: view_steps)

lemma host_step_config:
  "host_step L own h h' \<Longrightarrow> clocks_agree h \<Longrightarrow>
     config_view h' = config_view h \<or> rep_step (load_config L) own (config_view h) (config_view h')"
  unfolding config_view_def
proof (induction rule: host_step.induct)
  case (enroll h i b inp email provider claims tn ke flt nid d r)
  from enroll_tx_revision [OF enroll(3)] enroll(4) show ?case by (simp add: view_commit clocks_agree_def)
qed (auto simp: view_cleared config_view_def clocks_agree_def intro: view_steps)

text \<open>So all views of a reachable host are reachable replicas.\<close>

definition views_reached :: "'a lib_scheme \<Rightarrow> (nat \<Rightarrow> nat) \<Rightarrow> host \<Rightarrow> host \<Rightarrow> bool" where
  "views_reached L own h0 h \<longleftrightarrow> clocks_agree h \<and>
     rep_steps (get_user_with_tenants L) own (users_view h0) (users_view h) \<and>
     rep_steps (domain_loader L) own (domains_view h0) (domains_view h) \<and>
     rep_steps (load_config L) own (config_view h0) (config_view h)"

lemma maybe_step: "r\<^sup>*\<^sup>* a b \<Longrightarrow> c = b \<or> r b c \<Longrightarrow> r\<^sup>*\<^sup>* a c"
  by auto

lemma views_reached_step:
  assumes "host_step L own h h'" "views_reached L own h0 h"
  shows "views_reached L own h0 h'"
proof -
  have c: "clocks_agree h" using assms(2) by (simp add: views_reached_def)
  from assms(2) clocks_agree_step [OF assms(1) c] host_step_users [OF assms(1) c] host_step_domains [OF assms(1) c]
    host_step_config [OF assms(1) c]
  show ?thesis unfolding views_reached_def by (blast intro: maybe_step)
qed

subsection \<open>What a running request has read\<close>

text \<open>The registries at least as new as any committed an interval before time \<open>b\<close>.\<close>

definition recent :: "host \<Rightarrow> int \<Rightarrow> mtdb set" where
  "recent h b = {d. \<exists>t. (t, d) \<in> set (ho_commits h) \<and>
     (\<forall>(t', d') \<in> set (ho_commits h). t' + second \<le> b \<longrightarrow> db_revision d' \<le> db_revision d)}"

fun waiting :: "host \<Rightarrow> program \<Rightarrow> nat \<Rightarrow> bool" where
  "waiting h (UserGet email k) j \<longleftrightarrow> (\<exists>th. getters (ho_users h) j = Some th \<and> th_key th = email)"
| "waiting h (DomainGet dmn k) j \<longleftrightarrow> (\<exists>th. getters (ho_domains h) j = Some th \<and> th_key th = dmn)"
| "waiting h (ConfigGet site key k) j \<longleftrightarrow> (\<exists>th. getters (ho_config h) j = Some th \<and> th_key th = key)"
| "waiting h p j \<longleftrightarrow> False"

definition backed_run :: "'a lib_scheme \<Rightarrow> (nat \<Rightarrow> nat) \<Rightarrow> host \<Rightarrow> nat \<Rightarrow> int \<Rightarrow> bool" where
  "backed_run L own h i b \<longleftrightarrow> (case ho_run h i of
       Unstarted \<Rightarrow> False
     | Run inp p \<Rightarrow> prog_steps L (recent h b) (user_prog L inp) p
     | Wait inp p j \<Rightarrow> prog_steps L (recent h b) (user_prog L inp) p \<and> own j = i \<and> waiting h p j)"

definition run_ok :: "'a lib_scheme \<Rightarrow> (nat \<Rightarrow> nat) \<Rightarrow> host \<Rightarrow> nat \<Rightarrow> bool" where
  "run_ok L own h i \<longleftrightarrow> (case ho_req h i of
       Asked b \<Rightarrow> b \<le> ho_clock h \<and> (\<exists>inp. ho_run h i = Run inp (user_prog L inp))
     | Through b \<Rightarrow> b \<le> ho_clock h \<and> backed_run L own h i b
     | _ \<Rightarrow> True)"

lemma host_step_grows:
  "host_step L own h h' \<Longrightarrow> ho_clock h \<le> ho_clock h' \<and>
     (\<exists>new. ho_commits h' = ho_commits h @ new \<and> (\<forall>(t, d) \<in> set new. ho_clock h \<le> t))"
  by (induction rule: host_step.induct)
    (auto simp: inner_step_def begin_call_def set_pc_def purged_cache_def forgotten_cache_def)

lemma recent_mono:
  assumes "ho_commits h' = ho_commits h @ new" "\<forall>(t, d) \<in> set new. b \<le> t"
  shows "recent h b \<subseteq> recent h' b"
  using assms by (fastforce simp: recent_def second_def)

lemma cache_step_key:
  "cache_step c c' \<Longrightarrow> getters c j = Some th \<Longrightarrow> \<exists>th'. getters c' j = Some th' \<and> th_key th' = th_key th"
  by (induction rule: cache_step.induct) (auto simp: set_pc_def set_phase_def)

lemma waiting_step:
  assumes "host_step L own h h'" "waiting h p j"
  shows "waiting h' p j"
proof -
  have "(\<forall>th. getters (ho_users h) j = Some th \<longrightarrow> (\<exists>th'. getters (ho_users h') j = Some th' \<and> th_key th' = th_key th)) \<and>
    (\<forall>th. getters (ho_domains h) j = Some th \<longrightarrow> (\<exists>th'. getters (ho_domains h') j = Some th' \<and> th_key th' = th_key th)) \<and>
    (\<forall>th. getters (ho_config h) j = Some th \<longrightarrow> (\<exists>th'. getters (ho_config h') j = Some th' \<and> th_key th' = th_key th))"
    using assms(1)
    by (induction rule: host_step.induct)
      (auto simp: inner_step_def begin_call_def set_pc_def purged_cache_def forgotten_cache_def dest: cache_step_key)
  with assms(2) show ?thesis by (cases p) (auto; metis)+
qed

lemma run_ok_later:
  assumes "host_step L own h h'" "run_ok L own h i" "ho_req h' i = ho_req h i" "ho_run h' i = ho_run h i"
  shows "run_ok L own h' i"
proof (cases "ho_req h i")
  case (Through b)
  obtain new where n: "ho_clock h \<le> ho_clock h'" "ho_commits h' = ho_commits h @ new" "\<forall>(t, d) \<in> set new. ho_clock h \<le> t"
    using host_step_grows [OF assms(1)] by blast
  have b: "b \<le> ho_clock h" "backed_run L own h i b" using assms(2) Through by (simp_all add: run_ok_def)
  have "recent h b \<subseteq> recent h' b" by (rule recent_mono [OF n(2)]) (use n(3) b(1) in fastforce)
  then have "backed_run L own h' i b"
    using b(2) prog_steps_mono waiting_step [OF assms(1)] by (auto simp: backed_run_def assms(4) split: run.splits)
  with b(1) n(1) Through assms(3) show ?thesis by (simp add: run_ok_def)
next
  case (Asked b)
  with assms host_step_grows [OF assms(1)] show ?thesis by (auto simp: run_ok_def)
qed (use assms in \<open>simp_all add: run_ok_def\<close>)

text \<open>A returned lookup comes from a recent registry.\<close>

lemma views_fresh:
  "users_view (fresh_host cap lifetime now d) =
     fresh_replica (capacity (rs_users (new_resolver cap lifetime))) (ttl (rs_users (new_resolver cap lifetime))) second now d"
  "domains_view (fresh_host cap lifetime now d) =
     fresh_replica (capacity (rs_users (new_resolver cap lifetime))) (ttl (rs_users (new_resolver cap lifetime))) second now d"
  "config_view (fresh_host cap lifetime now d) =
     fresh_replica (capacity (rs_users (new_resolver cap lifetime))) (ttl (rs_users (new_resolver cap lifetime))) second now d"
  by (simp_all add: view_defs fresh_host_def fresh_replica_def new_resolver_def Let_def)

definition epochs_fit :: "host \<Rightarrow> bool" where
  "epochs_fit h \<longleftrightarrow> epoch (ho_users h) < 2 ^ 64 \<and> epoch (ho_domains h) < 2 ^ 64 \<and> epoch (ho_config h) < 2 ^ 64"

lemma view_lookup:
  assumes "rep_steps look own (fresh_replica cap lifetime second now d0) (view c born n h)" "epoch c < 2 ^ 64"
    and "getters c j = Some th" "th_pc th = PDone (Inr v)" "ho_req h (own j) = Through b"
  shows "\<exists>d \<in> recent h b. look d (th_key th) = Inr v"
proof -
  have sec: "0 < second" by (simp add: second_def)
  have v: "rp_epoch (view c born n h) < 2 ^ 64" "getters (rp_cache (view c born n h)) j = Some th"
    "rp_req (view c born n h) (own j) = Through b"
    using assms by (simp_all add: view_def)
  obtain q where q: "q < length (ho_commits h)" "look (snd (ho_commits h ! q)) (th_key th) = Inr v"
    "\<And>t d. (t, d) \<in> set (ho_commits h) \<Longrightarrow> t + second \<le> b \<Longrightarrow> db_revision d \<le> db_revision (snd (ho_commits h ! q))"
    using lookup_from [OF assms(1) sec v(1,2) assms(4) v(3)] by (auto simp: view_def)
  have "snd (ho_commits h ! q) \<in> recent h b"
    unfolding recent_def using q(3) nth_mem [OF q(1)] by (auto intro!: exI [of _ "fst (ho_commits h ! q)"])
  with q(2) show ?thesis by blast
qed

text \<open>An enrollment reads the latest registry and commits a later one.\<close>

lemma commit_recent:
  assumes "sorted (map (db_revision \<circ> snd) (ho_commits h))" "ho_commits h \<noteq> []" "b \<le> ho_clock h"
    and "db_revision (ho_registry h) \<le> db_revision d" "ho_commits h' = ho_commits h @ [(ho_clock h, d)]"
  shows "ho_registry h \<in> recent h' b" "d \<in> recent h' b"
proof -
  obtain cs x where cs: "ho_commits h = cs @ [x]" using assms(2) by (cases "ho_commits h" rule: rev_cases) auto
  have old: "db_revision d' \<le> db_revision (ho_registry h)" if "(t', d') \<in> set (ho_commits h)" for t' d'
    using assms(1) that by (auto simp: cs ho_registry_def sorted_append)
  have late: "\<not> ho_clock h + second \<le> b" using assms(3) by (simp add: second_def)
  have "(fst x, ho_registry h) \<in> set (ho_commits h')" by (simp add: assms(5) cs ho_registry_def)
  then show "ho_registry h \<in> recent h' b"
    unfolding recent_def using old late by (auto simp: assms(5))
  show "d \<in> recent h' b"
    unfolding recent_def using old assms(4) late by (fastforce simp: assms(5))
qed

lemma views_history:
  assumes "views_reached L own (fresh_host cap lifetime now d0) h"
  shows "sorted (map (db_revision \<circ> snd) (ho_commits h))" "ho_commits h \<noteq> []"
proof -
  have "rep_steps (get_user_with_tenants L) own (users_view (fresh_host cap lifetime now d0)) (users_view h)"
    using assms by (simp add: views_reached_def)
  then have "rep_inv (get_user_with_tenants L) own (users_view h)"
    by (rule replica.inv_steps) (simp add: views_fresh rep_inv_fresh second_def)
  then show "sorted (map (db_revision \<circ> snd) (ho_commits h))" "ho_commits h \<noteq> []"
    by (auto simp: rep_inv_def history_ok_def view_defs)
qed

lemma views_reachedD:
  assumes "views_reached L own (fresh_host cap lifetime now d0) h"
  shows "\<exists>c t. rep_steps (get_user_with_tenants L) own (fresh_replica c t second now d0) (view (ho_users h) (ho_born_users h) 0 h) \<and>
     rep_steps (domain_loader L) own (fresh_replica c t second now d0) (view (ho_domains h) (ho_born_domains h) 1 h) \<and>
     rep_steps (load_config L) own (fresh_replica c t second now d0) (view (ho_config h) (ho_born_config h) 2 h)"
  using assms unfolding views_reached_def views_fresh users_view_def [of h] domains_view_def [of h] config_view_def [of h] by blast

text \<open>What a returned call adds to the program's path.\<close>

lemma returned_user:
  assumes "views_reached L own (fresh_host cap lifetime now d0) h" "epochs_fit h" "ho_req h i = Through b"
    and "backed_run L own h i b" "ho_run h i = Wait inp (UserGet email ku) j"
    and "getters (ho_users h) j = Some th" "th_pc th = PDone r"
  shows "prog_steps L (recent h b) (user_prog L inp) (ku r)"
proof -
  have w: "prog_steps L (recent h b) (user_prog L inp) (UserGet email ku)" "own j = i" "th_key th = email"
    using assms(4-6) by (auto simp: backed_run_def)
  have "prog_step L (recent h b) (UserGet email ku) (ku r)"
  proof (rule prog_step.user)
    fix v assume r: "r = Inr v"
    show "user_read L (recent h b) email v"
      using views_reachedD [OF assms(1)] view_lookup [of "get_user_with_tenants L" own _ _ _ _ "ho_users h" "ho_born_users h" 0 h j th v b]
        assms(2,3,6,7) w(2,3) r
      unfolding epochs_fit_def user_read_def by auto
  qed
  with w(1) show ?thesis by (rule rtranclp.rtrancl_into_rtrancl)
qed

lemma returned_domain:
  assumes "views_reached L own (fresh_host cap lifetime now d0) h" "epochs_fit h" "ho_req h i = Through b"
    and "backed_run L own h i b" "ho_run h i = Wait inp (DomainGet dmn kd) j"
    and "getters (ho_domains h) j = Some th" "th_pc th = PDone r"
  shows "prog_steps L (recent h b) (user_prog L inp) (kd r)"
proof -
  have w: "prog_steps L (recent h b) (user_prog L inp) (DomainGet dmn kd)" "own j = i" "th_key th = dmn"
    using assms(4-6) by (auto simp: backed_run_def)
  have "prog_step L (recent h b) (DomainGet dmn kd) (kd r)"
  proof (rule prog_step.domain)
    fix v assume r: "r = Inr v"
    show "domain_read L (recent h b) dmn v"
      using views_reachedD [OF assms(1)] view_lookup [of "domain_loader L" own _ _ _ _ "ho_domains h" "ho_born_domains h" 1 h j th v b]
        assms(2,3,6,7) w(2,3) r
      unfolding epochs_fit_def domain_read_def by auto
  qed
  with w(1) show ?thesis by (rule rtranclp.rtrancl_into_rtrancl)
qed

lemma returned_config:
  assumes "views_reached L own (fresh_host cap lifetime now d0) h" "epochs_fit h" "ho_req h i = Through b"
    and "backed_run L own h i b" "ho_run h i = Wait inp (ConfigGet site key kc) j"
    and "getters (ho_config h) j = Some th" "th_pc th = PDone r"
  shows "prog_steps L (recent h b) (user_prog L inp) (kc r)"
proof -
  have w: "prog_steps L (recent h b) (user_prog L inp) (ConfigGet site key kc)" "own j = i" "th_key th = key"
    using assms(4-6) by (auto simp: backed_run_def)
  have "prog_step L (recent h b) (ConfigGet site key kc) (kc r)"
  proof (rule prog_step.config)
    fix v assume r: "r = Inr v"
    show "config_read L (recent h b) key v"
      using views_reachedD [OF assms(1)] view_lookup [of "load_config L" own _ _ _ _ "ho_config h" "ho_born_config h" 2 h j th v b]
        assms(2,3,6,7) w(2,3) r
      unfolding epochs_fit_def config_read_def by auto
  qed
  with w(1) show ?thesis by (rule rtranclp.rtrancl_into_rtrancl)
qed

lemma run_ok_Through: "run_ok L own h i \<Longrightarrow> ho_req h i = Through b \<Longrightarrow> b \<le> ho_clock h \<and> backed_run L own h i b"
  by (simp add: run_ok_def)

lemma run_ok_passes:
  assumes "run_ok L own h i" "ho_req h i = Asked b" "ho_req h' i = Through b" "ho_run h' = ho_run h" "ho_clock h' = ho_clock h"
  shows "run_ok L own h' i"
  using assms by (auto simp: run_ok_def backed_run_def)

lemma run_ok_advances:
  assumes "run_ok L own h i" "ho_run h' i = Run inp q" "ho_req h' = ho_req h" "ho_clock h' = ho_clock h"
    and "\<And>b. ho_req h i = Asked b \<Longrightarrow> False"
    and "\<And>b. ho_req h i = Through b \<Longrightarrow> backed_run L own h i b \<Longrightarrow> b \<le> ho_clock h \<Longrightarrow>
       prog_steps L (recent h' b) (user_prog L inp) q"
  shows "run_ok L own h' i"
proof (cases "ho_req h i")
  case (Asked b)
  with assms(5) show ?thesis by blast
next
  case (Through b)
  from run_ok_Through [OF assms(1) this] assms(6) [OF Through] assms(2-4) Through show ?thesis
    by (simp add: run_ok_def backed_run_def)
qed (use assms(3) in \<open>simp_all add: run_ok_def\<close>)

lemma run_ok_calls:
  assumes "run_ok L own h i" "ho_req h i = Through b" "ho_run h i = Run inp p" "ho_run h' i = Wait inp p j"
    and "ho_req h' = ho_req h" "ho_clock h' = ho_clock h" "ho_commits h' = ho_commits h" "own j = i" "waiting h' p j"
  shows "run_ok L own h' i"
  using run_ok_Through [OF assms(1,2)] assms by (simp add: run_ok_def backed_run_def recent_def)

lemma run_ok_returns:
  assumes "run_ok L own h i" "ho_run h i = Wait inp p j"
    and "\<And>b. ho_req h i = Through b \<Longrightarrow> backed_run L own h i b \<Longrightarrow> prog_steps L (recent h b) (user_prog L inp) q"
  shows "run_ok L own (h\<lparr>ho_run := (ho_run h)(i := Run inp q)\<rparr>) i"
proof (rule run_ok_advances [OF assms(1)])
  show False if "ho_req h i = Asked b" for b
    using that assms(1,2) by (simp add: run_ok_def)
qed (use assms(3) in \<open>simp_all add: recent_def\<close>)

lemma run_ok_enrolls:
  assumes "run_ok L own h i" "ho_req h i = Through b" "ho_run h i = Run inp (Enroll email provider claims tn ke)"
    and "enroll_tx L flt nid email provider claims tn (ho_registry h) = (d, r)"
    and "views_reached L own (fresh_host cap lifetime now d0) h"
  shows "run_ok L own (h\<lparr>ho_commits := ho_commits h @ [(ho_clock h, d)], ho_run := (ho_run h)(i := Run inp (ke r))\<rparr>) i"
    (is "run_ok L own ?h' i")
proof (rule run_ok_advances [OF assms(1)])
  fix b' assume b': "backed_run L own h i b'" "b' \<le> ho_clock h"
  note c = commit_recent [OF views_history [OF assms(5)] b'(2) enroll_tx_revision [OF assms(4)], of ?h']
  have "prog_steps L (recent ?h' b') (user_prog L inp) (Enroll email provider claims tn ke)"
    using b'(1) assms(3) recent_mono [of ?h' h "[(ho_clock h, d)]" b'] b'(2)
    by (auto simp: backed_run_def intro: prog_steps_mono)
  moreover have "prog_step L (recent ?h' b') (Enroll email provider claims tn ke) (ke r)"
    using c by (intro prog_step.enroll [OF assms(4)]) simp_all
  ultimately show "prog_steps L (recent ?h' b') (user_prog L inp) (ke r)" by (rule rtranclp.rtrancl_into_rtrancl)
qed (use assms(2) in simp_all)

lemma run_ok_forgets:
  assumes "run_ok L own h i" "ho_req h i = Through b" "ho_run h i = Run inp (Forget email p)"
  shows "run_ok L own (h\<lparr>ho_users := forgotten_cache email (ho_users h),
      ho_born_users := reborn (ho_users h) (ho_born_users h) h, ho_run := (ho_run h)(i := Run inp p)\<rparr>) i"
    (is "run_ok L own ?h' i")
proof (rule run_ok_advances [OF assms(1)])
  fix b' assume "backed_run L own h i b'"
  then have "prog_steps L (recent h b') (user_prog L inp) (Forget email p)"
    using assms(3) by (simp add: backed_run_def)
  then show "prog_steps L (recent ?h' b') (user_prog L inp) p"
    by (auto simp: recent_def intro: rtranclp.rtrancl_into_rtrancl prog_step.forget)
qed (use assms(2) in \<open>simp_all add: forgotten_cache_def\<close>)

lemma run_ok_step:
  assumes "host_step L own h h'" "views_reached L own (fresh_host cap lifetime now d0) h" "epochs_fit h"
    and "\<And>i. run_ok L own h i"
  shows "run_ok L own h' i"
proof -
  have "ho_req h' i = ho_req h i \<and> ho_run h' i = ho_run h i \<or> run_ok L own h' i"
    using assms
  proof (induction rule: host_step.induct)
    case (ask h i' inp)
    then show ?case by (auto simp: run_ok_def)
  next
    case (fresh h i' b)
    then show ?case using run_ok_passes [OF fresh(6) fresh(1)] by (cases "i = i'") simp_all
  next
    case (open_gate h p rv b g changed)
    then show ?case using run_ok_passes [OF open_gate(8) open_gate(3)] by (cases "i = gp_by p") simp_all
  next
    case (deny h p inp q e g changed)
    then show ?case by (auto simp: run_ok_def)
  next
    case (call_user h i' b inp email ku j)
    then show ?case
      using run_ok_calls [OF call_user(7) call_user(1,2)] by (cases "i = i'") (simp_all add: begin_call_def set_pc_def)
  next
    case (call_domain h i' b inp dmn kd j)
    then show ?case
      using run_ok_calls [OF call_domain(7) call_domain(1,2)] by (cases "i = i'") (simp_all add: begin_call_def set_pc_def)
  next
    case (call_config h i' b inp site key kc j)
    then show ?case
      using run_ok_calls [OF call_config(7) call_config(1,2)] by (cases "i = i'") (simp_all add: begin_call_def set_pc_def)
  next
    case (return_user h i' inp email ku j th r)
    from run_ok_returns [OF return_user(6,1) returned_user [OF return_user(4,5) _ _ return_user(1-3)]]
    show ?case by (cases "i = i'") simp_all
  next
    case (return_domain h i' inp dmn kd j th r)
    from run_ok_returns [OF return_domain(6,1) returned_domain [OF return_domain(4,5) _ _ return_domain(1-3)]]
    show ?case by (cases "i = i'") simp_all
  next
    case (return_config h i' inp site key kc j th r)
    from run_ok_returns [OF return_config(6,1) returned_config [OF return_config(4,5) _ _ return_config(1-3)]]
    show ?case by (cases "i = i'") simp_all
  next
    case (enroll h i' b inp email provider claims tn ke flt nid d r)
    from run_ok_enrolls [OF enroll(6,1-4)] show ?case by (cases "i = i'") simp_all
  next
    case (forget h i' b inp email p)
    from run_ok_forgets [OF forget(5,1,2)] show ?case by (cases "i = i'") simp_all
  qed simp_all
  with run_ok_later [OF assms(1) assms(4)] show ?thesis by blast
qed

lemma host_step_epochs: "host_step L own h h' \<Longrightarrow> epochs_fit h' \<Longrightarrow> epochs_fit h"
  by (induction rule: host_step.induct)
    (auto simp: epochs_fit_def inner_step_def begin_call_def set_pc_def purged_cache_def forgotten_cache_def)

lemma host_steps_ok:
  assumes "host_steps L own (fresh_host cap lifetime now d0) h" "epochs_fit h"
  shows "views_reached L own (fresh_host cap lifetime now d0) h \<and> (\<forall>i. run_ok L own h i)"
  using assms
proof (induction rule: rtranclp_induct)
  case base
  show ?case by (simp add: views_reached_def clocks_agree_def run_ok_def fresh_host_def init_sys_def Let_def)
next
  case (step h h')
  from step(3) [OF host_step_epochs [OF step(2,4)]] have "views_reached L own (fresh_host cap lifetime now d0) h"
    "\<And>i. run_ok L own h i" by blast+
  then show ?case
    using views_reached_step [OF step(2)] run_ok_step [OF step(2) _ host_step_epochs [OF step(2,4)]] by blast
qed

subsection \<open>Property\<close>


subsection \<open>Witness\<close>

text \<open>What a cache does within an epoch and an instant, as steps of the host.\<close>

lemma lift_users:
  assumes "cache_steps (ho_users h) c" "epoch c = epoch (ho_users h)" "clock c = ho_clock h"
    and "\<And>j. getters (ho_users h) j = None \<Longrightarrow> getters c j = None"
    and "loads_from (get_user_with_tenants L) (users_view h) (loads c - loads (ho_users h))"
  shows "host_steps L own h (h\<lparr>ho_users := c\<rparr>)"
  using assms
proof (induction rule: rtranclp_induct)
  case (step c1 c2)
  note h = cache_step_history [OF step(2)]
  have mono: "epoch (ho_users h) \<le> epoch c1 \<and> ho_clock h \<le> clock c1 \<and> loads (ho_users h) \<subseteq> loads c1"
    using step(1) by (induction rule: rtranclp_induct) (use cache_step_history in fastforce)+
  have e: "epoch c1 = epoch (ho_users h)" "clock c1 = ho_clock h" using h mono step(4,5) by auto
  have keep: "getters c1 j = None" if "getters c2 j = None" for j
    using cache_step_key [OF step(2), of j] that by (cases "getters c1 j") auto
  have l: "loads_from (get_user_with_tenants L) (users_view h) (loads c1 - loads (ho_users h))"
    "loads_from (get_user_with_tenants L) (users_view h) (loads c2 - loads c1)"
    using h mono by (auto intro!: loads_from_mono [OF step(7)])
  have "host_steps L own h (h\<lparr>ho_users := c1\<rparr>)"
    using step(3) [OF e] step(6) keep l(1) by blast
  moreover have "host_step L own (h\<lparr>ho_users := c1\<rparr>) ((h\<lparr>ho_users := c1\<rparr>)\<lparr>ho_users := c2\<rparr>)"
  proof (rule host_step.work_users)
    have "getters c2 j = None" if "getters c1 j = None" for j
    proof -
      have "getters (ho_users h) j = None"
        using step(1) that by (induction rule: rtranclp_induct) (use cache_step_key in fastforce)+
      with step(6) show ?thesis by blast
    qed
    then show "inner_step (ho_users (h\<lparr>ho_users := c1\<rparr>)) c2"
      using step(2,4,5) e by (simp add: inner_step_def)
    show "loads_from (get_user_with_tenants L) (users_view (h\<lparr>ho_users := c1\<rparr>)) (loads c2 - loads (ho_users (h\<lparr>ho_users := c1\<rparr>)))"
      using l(2) by (simp add: loads_from_def view_defs)
  qed
  ultimately show ?case by simp
qed simp

text \<open>A call on an idle cache without an entry loads and returns.\<close>

lemma called_load:
  fixes c :: "('e, 'v) cache_sys"
  assumes "getters c j = None" "flights c = []" "map_of (entries (cache c)) key = None"
  shows "\<exists>c' th. cache_steps (begin_call j key c) c' \<and> epoch c' = epoch c \<and> clock c' = clock c \<and>
    getters c' j = Some th \<and> th_pc th = PDone (Inr v) \<and> loads c' \<subseteq> loads c \<union> {(key, v, epoch c, clock c)} \<and>
    (\<forall>i. i \<noteq> j \<longrightarrow> getters c' i = getters c i)"
proof -
  let ?th = "\<lparr>th_key = key, th_pc = PHave None, th_gen = generation (cache c), th_e0 = epoch c, th_n = epoch c,
    th_d = 0\<rparr> :: ('e, 'v) getter"
  let ?s = "set_pc j ?th c"
  have a: "cache_steps (begin_call j key c) ?s"
    using cache_step.look [of "begin_call j key c" j] assms(3) by (simp add: begin_call_def)
  have b: "cache_steps ?s (in_flight j ?th ?s (FLoading (clock c) (epoch c)) (cache ?s) (clock c) (loads ?s))"
    using run_flight_miss [of ?s j ?th None "clock c" "clock c"] assms(2,3) by (simp add: set_pc_def)
  obtain L where l: "cache_steps (in_flight j ?th ?s (FLoading (clock c) (epoch c)) (cache ?s) (clock c) (loads ?s))
      (in_flight j ?th ?s (FDone (Inr v)) (publish 0 (th_gen ?th) (th_key ?th) v (clock c) (cache ?s)) (clock c) L)"
    "L \<subseteq> loads ?s \<union> {(key, v, epoch c, clock c)}"
    using run_load [of j ?th ?s "clock c" "epoch c" "clock c" "Inr v" 0] by auto
  have "th_gen ?th = generation (publish 0 (th_gen ?th) (th_key ?th) v (clock c) (cache ?s))"
    by (simp add: publish_def store_entry_def set_pc_def)
  from run_finish [OF this, of j ?s "Inr v" "clock c" L None] obtain c' th where f:
    "cache_steps (in_flight j ?th ?s (FDone (Inr v)) (publish 0 (th_gen ?th) (th_key ?th) v (clock c) (cache ?s)) (clock c) L) c'"
    "epoch c' = epoch ?s" "getters c' j = Some th" "th_pc th = PDone (Inr v)" "loads c' = L"
    "\<forall>i. i \<noteq> j \<longrightarrow> getters c' i = getters ?s i" "clock c' = clock c" by auto
  have "cache_steps (begin_call j key c) c'" using a b l(1) f(1) by (meson rtranclp_trans)
  with f l(2) show ?thesis by (intro exI [of _ c'] exI [of _ th]) (simp add: set_pc_def)
qed

text \<open>
  A member signs in without a provider claim: at time 0 the example user is enrolled, two seconds
  later the request finds the gate closed, opens it, looks the user up and answers.
\<close>

definition plain_input :: rinput where
  "plain_input = \<lparr>in_method = ''oauth'', in_id = [], in_type = ''User'',
     in_claims = [(''email'', VStr ''a@acme.com''), (''email_verified'', VBool True)], in_tenant = Some ''acme''\<rparr>"

definition plain_user :: muser where
  "plain_user = \<lparr>u_id = ''U1'', u_email = ''a@acme.com'', u_name = ''Ann'', u_enabled = True, u_default = ''acme'',
     u_slugs = [''acme''], u_names = [''Acme''], u_logos = [[]], u_dws = [[]], u_checks = [(''acme'', [])]\<rparr>"

lemma plain_program:
  "\<exists>ku. user_prog demo_lib plain_input = UserGet ''a@acme.com'' ku \<and>
     ku (Inr (Some plain_user)) = Answer (Inr (Resolved demo_identity))"
proof -
  have e: "user_email demo_lib plain_input = ''a@acme.com''" by code_simp
  have p: "user_provider plain_input = []" by code_simp
  have r: "requested_tenant demo_lib (in_tenant plain_input) = ''acme''" by code_simp
  have u: "\<not> is_disabled (Some plain_user)" "member_has (Some plain_user) ''acme''" by code_simp+
  have a: "admission demo_lib plain_input ''a@acme.com'' ''acme'' plain_user
      (arrays_to_tenants (u_slugs plain_user) (u_names plain_user) (u_logos plain_user) (u_dws plain_user))
      (u_default plain_user) = Resolved demo_identity"
    by code_simp
  show ?thesis by (simp add: user_prog_def Let_def e p r u admit_prog_def a)
qed

abbreviation plain_registry :: mtdb where
  "plain_registry \<equiv> fst demo_enroll"

definition plain_prog :: program where
  "plain_prog = user_prog demo_lib plain_input"

definition host_start :: host where
  "host_start = fresh_host 2 300 0 demo_db"

definition host_asked :: host where
  "host_asked = host_start\<lparr>ho_commits := [(0, demo_db), (0, plain_registry)],
     ho_users := (ho_users host_start)\<lparr>clock := 2 * second\<rparr>, ho_domains := (ho_domains host_start)\<lparr>clock := 2 * second\<rparr>,
     ho_config := (ho_config host_start)\<lparr>clock := 2 * second\<rparr>,
     ho_req := (\<lambda>_. Idle)(0 := Asked (2 * second)), ho_run := (\<lambda>_. Unstarted)(0 := Run plain_input plain_prog)\<rparr>"

definition plain_probe :: gate_probe where
  "plain_probe = \<lparr>gp_by = 0, gp_now = 2 * second, gp_started = 2 * second,
     gp_read = Some (db_revision plain_registry), gp_cleared = False\<rparr>"

definition plain_gate :: gate where
  "plain_gate = \<lparr>gate_revision = db_revision plain_registry, gate_checked = Some (2 * second), gate_interval = second\<rparr>"

definition host_cleared :: host where
  "host_cleared = host_asked\<lparr>ho_probe := Some plain_probe,
     ho_users := purged_cache (ho_users host_asked), ho_born_users := reborn (ho_users host_asked) (ho_born_users host_asked) host_asked,
     ho_domains := purged_cache (ho_domains host_asked),
     ho_born_domains := reborn (ho_domains host_asked) (ho_born_domains host_asked) host_asked,
     ho_config := purged_cache (ho_config host_asked),
     ho_born_config := reborn (ho_config host_asked) (ho_born_config host_asked) host_asked, ho_cleared := 3\<rparr>"

definition host_passed :: host where
  "host_passed = host_cleared\<lparr>ho_gate := plain_gate, ho_probe := None,
     ho_req := (ho_req host_cleared)(0 := Through (2 * second))\<rparr>"

lemmas host_states = host_passed_def host_cleared_def host_asked_def host_start_def fresh_host_def new_resolver_def
  new_cache_def init_sys_def new_gate_def purged_cache_def reborn_def purge_def plain_probe_def plain_gate_def

lemma host_asked_reachable: "host_steps demo_lib id host_start host_asked"
proof -
  have r: "db_revision demo_db \<le> db_revision plain_registry" by code_simp
  let ?h1 = "host_start\<lparr>ho_commits := [(0, demo_db), (0, plain_registry)]\<rparr>"
  let ?h2 = "?h1\<lparr>ho_users := (ho_users host_start)\<lparr>clock := 2 * second\<rparr>, ho_domains := (ho_domains host_start)\<lparr>clock := 2 * second\<rparr>,
     ho_config := (ho_config host_start)\<lparr>clock := 2 * second\<rparr>\<rparr>"
  have "host_step demo_lib id host_start ?h1"
    using host_step.commit [of host_start plain_registry demo_lib id] r
    by (simp add: ho_registry_def host_start_def fresh_host_def init_sys_def Let_def)
  moreover have "host_step demo_lib id ?h1 ?h2"
    using host_step.tick [of ?h1 "2 * second" demo_lib id]
    by (simp add: host_start_def fresh_host_def init_sys_def Let_def second_def)
  moreover have "host_step demo_lib id ?h2 host_asked"
    using host_step.ask [of ?h2 0 plain_input demo_lib id]
    by (simp add: host_asked_def plain_prog_def host_start_def fresh_host_def Let_def plain_input_def is_user_method_def)
  ultimately show ?thesis by (meson converse_rtranclp_into_rtranclp rtranclp.rtrancl_refl)
qed

lemma plain_gate_check:
  "gate_check (ho_gate host_asked) (2 * second) (2 * second) (Inr (db_revision plain_registry) :: err + int) =
     (plain_gate, True, Inr ())"
  by (simp add: host_asked_def host_start_def fresh_host_def new_resolver_def new_gate_def Let_def gate_check_def
      within_window_def plain_gate_def)

lemma host_passed_reachable: "host_steps demo_lib id host_asked host_passed"
proof -
  let ?h = host_asked
  let ?p = "plain_probe\<lparr>gp_read := None\<rparr>"
  let ?h1 = "?h\<lparr>ho_probe := Some ?p, ho_cleared := 0\<rparr>"
  let ?h2 = "?h\<lparr>ho_probe := Some plain_probe, ho_cleared := 0\<rparr>"
  let ?h3 = "?h2\<lparr>ho_users := purged_cache (ho_users ?h), ho_born_users := reborn (ho_users ?h) (ho_born_users ?h) ?h, ho_cleared := 1\<rparr>"
  let ?h4 = "?h3\<lparr>ho_domains := purged_cache (ho_domains ?h),
    ho_born_domains := reborn (ho_domains ?h) (ho_born_domains ?h) ?h, ho_cleared := 2\<rparr>"
  have a: "ho_req ?h 0 = Asked (2 * second)" "ho_probe ?h = None" "ho_clock ?h = 2 * second"
    "gate_checked (ho_gate ?h) = None" "ho_registry ?h = plain_registry"
    by (simp_all add: host_asked_def host_start_def fresh_host_def init_sys_def new_resolver_def new_gate_def Let_def ho_registry_def)
  have p: "gp_by plain_probe = 0" "gp_read plain_probe = Some (db_revision plain_registry)" "gp_now plain_probe = 2 * second"
    "gp_started plain_probe = 2 * second"
    by (simp_all add: plain_probe_def)
  have swap: "h\<lparr>ho_cleared := n, ho_probe := x\<rparr> = h\<lparr>ho_probe := x, ho_cleared := n\<rparr>" for h :: host and n x
    by (cases h) simp
  have "host_step demo_lib id ?h ?h1"
    using host_step.probe [of ?h 0 "2 * second" "2 * second" demo_lib id] a by (simp add: within_window_def plain_probe_def)
  moreover have "host_step demo_lib id ?h1 ?h2"
    using host_step.read [of ?h1 ?p demo_lib id] a by (simp add: plain_probe_def ho_registry_def swap)
  moreover have "host_step demo_lib id ?h2 ?h3"
    using host_step.clear_users [of ?h2 plain_probe "db_revision plain_registry" plain_gate demo_lib id] p plain_gate_check
    by (simp add: reborn_def)
  moreover have "host_step demo_lib id ?h3 ?h4"
    using host_step.clear_domains [of ?h3 plain_probe "db_revision plain_registry" plain_gate demo_lib id] p plain_gate_check
    by (simp add: reborn_def)
  moreover have "host_step demo_lib id ?h4 host_cleared"
    using host_step.clear_config [of ?h4 plain_probe "db_revision plain_registry" plain_gate demo_lib id] p plain_gate_check
    by (simp add: reborn_def host_cleared_def)
  moreover have "host_step demo_lib id host_cleared host_passed"
    using host_step.open_gate [of host_cleared plain_probe "db_revision plain_registry" "2 * second" plain_gate True demo_lib id]
      p plain_gate_check a
    by (simp add: host_passed_def host_cleared_def)
  ultimately show ?thesis by (meson converse_rtranclp_into_rtranclp rtranclp.rtrancl_refl)
qed

lemma host_answered:
  "\<exists>h. host_steps demo_lib id host_passed h \<and> ho_run h 0 = Run plain_input (Answer (Inr (Resolved demo_identity))) \<and>
     ho_req h = ho_req host_passed \<and> ho_commits h = ho_commits host_passed \<and> epochs_fit h"
proof -
  let ?key = "''a@acme.com''"
  let ?h = host_passed
  obtain ku where ku: "plain_prog = UserGet ?key ku" "ku (Inr (Some plain_user)) = Answer (Inr (Resolved demo_identity))"
    using plain_program unfolding plain_prog_def by blast
  have a: "ho_req ?h 0 = Through (2 * second)" "ho_run ?h 0 = Run plain_input plain_prog" "getters (ho_users ?h) = (\<lambda>_. None)"
    "flights (ho_users ?h) = []" "map_of (entries (cache (ho_users ?h))) ?key = None" "loads (ho_users ?h) = {}"
    "epoch (ho_users ?h) = 1" "epoch (ho_domains ?h) = 1" "epoch (ho_config ?h) = 1"
    "ho_born_users ?h 1 = 2" "ho_commits ?h = [(0, demo_db), (0, plain_registry)]"
    by (simp_all add: host_states Let_def)
  let ?c = "begin_call 0 ?key (ho_users ?h)"
  let ?h1 = "?h\<lparr>ho_users := ?c, ho_run := (ho_run ?h)(0 := Wait plain_input plain_prog 0)\<rparr>"
  have 1: "host_step demo_lib id ?h ?h1"
    using host_step.call_user [of ?h 0 "2 * second" plain_input ?key ku 0 id demo_lib] a ku(1) by simp
  have c: "epoch ?c = 1" "clock ?c = ho_clock ?h" "loads ?c = {}" "getters ?c i = None \<longleftrightarrow> i \<noteq> 0" for i
    using a by (simp_all add: begin_call_def set_pc_def)
  obtain c' th where l: "cache_steps ?c c'" "epoch c' = 1" "clock c' = ho_clock ?h" "getters c' 0 = Some th"
    "th_pc th = PDone (Inr (Some plain_user))" "loads c' \<subseteq> {(?key, Some plain_user, 1, ho_clock ?h)}"
    "\<forall>i. i \<noteq> 0 \<longrightarrow> getters c' i = None"
    using called_load [of "ho_users ?h" 0 ?key "Some plain_user"] a by auto
  have u: "get_user_with_tenants demo_lib plain_registry ?key = Inr (Some plain_user)" by code_simp
  have "loads_from (get_user_with_tenants demo_lib) (users_view ?h1) {(?key, Some plain_user, 1, ho_clock ?h)}"
    using a u by (auto simp: loads_from_def view_defs intro!: exI [of _ 1])
  then have "loads_from (get_user_with_tenants demo_lib) (users_view ?h1) (loads c' - loads (ho_users ?h1))"
    by (rule loads_from_mono) (use l(6) in blast)
  moreover have "epoch c' = epoch (ho_users ?h1)" "clock c' = ho_clock ?h1" "cache_steps (ho_users ?h1) c'"
    using l(1-3) c(1,2) by simp_all
  moreover have "getters c' j = None" if "getters (ho_users ?h1) j = None" for j
    using that c(4) l(7) by simp
  ultimately have 2: "host_steps demo_lib id ?h1 (?h1\<lparr>ho_users := c'\<rparr>)" by (intro lift_users)
  let ?h2 = "?h1\<lparr>ho_users := c'\<rparr>"
  have 3: "host_step demo_lib id ?h2 (?h2\<lparr>ho_run := (ho_run ?h2)(0 := Run plain_input (ku (Inr (Some plain_user))))\<rparr>)"
    using host_step.return_user [of ?h2 0 plain_input ?key ku 0 th "Inr (Some plain_user)" demo_lib id] l(4,5) ku(1) by simp
  define h3 where "h3 = ?h2\<lparr>ho_run := (ho_run ?h2)(0 := Run plain_input (ku (Inr (Some plain_user))))\<rparr>"
  from 1 have "host_steps demo_lib id ?h ?h1" by (rule r_into_rtranclp)
  moreover from 3 have "host_steps demo_lib id ?h2 h3" unfolding h3_def by (rule r_into_rtranclp)
  ultimately have "host_steps demo_lib id ?h h3" using 2 by (meson rtranclp_trans)
  with ku(2) a(8,9) l(2) show ?thesis
    by (intro exI [of _ h3]) (simp add: h3_def epochs_fit_def)
qed


end
