(* ===== verification/Spec2Isabelle.thy ===== *)
theory Spec2Isabelle
  imports Cache_Concurrency Deployment Directory_Binding Front_Configuration Lifecycle
    Overlapping_Requests
begin

text \<open>
  Verification library of scitrera-auth-go, the multi-tenant authentication service around Aether's
  \<open>pkg/authproxy\<close>. All paths are below \<open>src/\<close>.

  \<^bold>\<open>The program.\<close> One process (\<open>cmd/scitrera-auth-proxy\<close>) serves up to four surfaces on up to four
  addresses. The internal plane is Aether's proxy; for every verified caller it asks
  \<open>Resolver.Resolve\<close> (\<open>internal/resolver\<close>) for the identity, which reads the multi-tenant registry
  (\<open>internal/mtdb\<close>, PostgreSQL) through three TTL caches reconciled by a revision gate
  (\<open>internal/cache\<close>), applies tenant allowlists and claim checks, and may enroll a new user in one
  transaction. The operator API (\<open>internal/admin\<close>) changes the registry; each write bumps the
  revision the gate polls. The front door (\<open>internal/external\<close>) is the public sign-in surface; its
  Microsoft provider (\<open>internal/loginproviders\<close>) verifies ID tokens of any tenant.

  \<^bold>\<open>Theories, in dependency order, and the code they model.\<close>
  \<^item> \<open>Prelude\<close>: results (\<open>'e + 'a\<close> with \<open>andthen\<close>), Go maps as association lists, hints.
    \<open>Transition_Systems\<close>: two locales for step relations, an invariant kept by every step and a rank
    lowered by every step; interpreted for the key cache, the deployment and the process.
  \<^item> \<open>Go_Strings\<close>: Go strings as byte lists, UTF-8 decoding, \<open>strings.TrimSpace\<close>, \<open>ToLower\<close>,
    \<open>EqualFold\<close>, \<open>strconv\<close>. \<open>Go_Values\<close>: dynamic values, errors, and the record \<open>lib\<close> of the
    functions that are outside the repository.
  \<^item> \<open>Ttl_Cache\<close>, \<open>Cache_Concurrency\<close>, \<open>Cache_Contract\<close>: \<open>internal/cache/ttl.go\<close> as sequential operations,
    as a step relation of concurrent callers with \<open>singleflight\<close>, and as an instance of the locale
    \<open>loading_cache\<close>. \<open>Revision_Gate\<close>: \<open>internal/cache/revision.go\<close>.
  \<^item> \<open>Mt_Store\<close>: the registry (\<open>migrations/001_auth.sql\<close>: tables, unique keys, the revision trigger) and
    the queries of \<open>internal/mtdb/mtdb.go\<close>. \<open>Enrollment\<close>: \<open>AutoAddUser\<close> of \<open>internal/mtdb/enrollment.go\<close>.
  \<^item> \<open>Resolver_Checks\<close>, \<open>Resolver\<close>, \<open>Resolver_Safety\<close>: \<open>internal/resolver\<close>; first the pure checks, then
    \<open>Resolve\<close> with its caches and gate in one state \<open>rstate\<close>, then its guarantees. \<open>Resolver_Program\<close>:
    the part of \<open>Resolve\<close> after the gate as a program whose calls of the caches and of the enrollment
    are left open, and its equality with that function when it runs alone.
  \<^item> \<open>Admin_Validation\<close> (\<open>validation.go\<close>, \<open>membership_auth.go\<close>), \<open>Admin_Store\<close> (\<open>store.go\<close>: statements and
    transactions), \<open>Admin_Transactions\<close> (the locales \<open>mutation\<close> and \<open>bumping_mutation\<close>, interpreted for
    every write), \<open>Admin_Queries\<close> (reads), \<open>Admin_Server\<close> (\<open>server.go\<close>, \<open>session.go\<close>,
    \<open>browser_sessions.go\<close>: one request as \<open>serve\<close>), \<open>Admin_Safety\<close> and \<open>Admin_Guarantees\<close> (its claims),
    \<open>Admin_Setup\<close> (\<open>Bootstrap\<close>, \<open>loadCredentials\<close>, \<open>New\<close>). \<open>Policy_Enforcement\<close> joins the two sides: what
    the operator API accepts and stores is what the resolver reads and enforces. \<open>Policy_Types\<close> is the
    type discipline of the stored policies: every key's type, preserved by each write of both sides,
    and enough for the resolver never to fail on a policy.
  \<^item> \<open>External_Redirect\<close> (\<open>landing.go\<close>), \<open>External_Page\<close> (\<open>page.go\<close>), \<open>External_Server\<close> (\<open>server.go\<close>,
    \<open>checkz.go\<close>, \<open>logout.go\<close>: one request as \<open>external_serve\<close>), \<open>External_Response\<close> (the calls each
    answer makes on the \<open>http.ResponseWriter\<close>, \<open>withRecover\<close> around a handler that panics after any of
    them, \<open>otelHandler\<close>), \<open>External_Guarantees\<close>.
  \<^item> \<open>Observability\<close>: \<open>Init\<close>, \<open>Shutdown\<close> and \<open>HTTP\<close> of \<open>internal/observability\<close>, with the provider actions
    of each return.
  \<^item> \<open>Microsoft_Keys\<close> (\<open>microsoft_keys.go\<close>, \<open>fetchJSON\<close>: the signing-key cache as a function of one load
    and as the step relation \<open>ms_step\<close> of concurrent loads), \<open>Microsoft_Oidc\<close> (\<open>microsoft.go\<close>).
    \<open>Directory_Binding\<close> composes them with the resolver's enrollment.
  \<^item> \<open>Schema\<close>: \<open>internal/mtdb/schema.go\<close> and the scripts of \<open>migrations/\<close> on the part of PostgreSQL's
    catalog that the checks read.
  \<^item> \<open>Listeners\<close> (\<open>listeners.go\<close>: address plan and dispatch), \<open>Process\<close> (\<open>commands.go\<close>, \<open>main.go\<close> up to
    serving with its exit status, \<open>New\<close> and \<open>Close\<close> of \<open>internal/mtdb/mtdb.go\<close>, \<open>internal/adminui/ui.go\<close>), \<open>Front_Configuration\<close>
    (the environment of the process against the front door's answers), \<open>Lifecycle\<close> (the goroutines
    of \<open>run\<close>: failure and shutdown).
  \<^item> \<open>Deployment\<close>: the operator API and any number of resolver replicas over one registry, as one step
    relation of their requests, restarts and the clock. \<open>Replica_Concurrency\<close>: inside one replica, the
    critical sections of overlapping requests on the revision gate and one of its caches.
    \<open>Overlapping_Requests\<close>: the programs of whole overlapping requests on the three caches and the gate
    of one replica.

  \<^bold>\<open>How the code is represented.\<close> A struct is a record, an error is the left side of a sum, a request
  handler is a function of the request and of the state it reads, returning the new state and the
  response. Clock readings, fresh identifiers, the order in which a Go map is visited, the outcome
  of each network or database call (\<open>faults\<close>) and what other transactions do between two calls are
  arguments, so a claim holds for all of them. A transaction that fails leaves its state. The
  generation of a cache and file modes are words; times are integers of nanoseconds.

  \<^bold>\<open>What the lemmas show.\<close> What an operator commits binds every replica one second later, and no
  interleaving of operators, users and restarts breaks the registry or leaves an ill-typed policy
  (\<open>Deployment\<close>, \<open>Policy_Types\<close>), and requests that overlap in a replica keep that bound for every
  cached lookup and for the identity they are granted (\<open>Replica_Concurrency\<close>, \<open>Overlapping_Requests\<close>). No identity without a committed enabled user and cleared tenants, and no
  registry change by a request but an admitted enrollment (\<open>Resolver_Safety\<close>); a change in the
  registry reaches every later check within one gate interval, and a cache never returns a value
  older than an invalidation (\<open>Revision_Gate\<close>, \<open>Cache_Concurrency\<close>); operator writes are authorized,
  audited, atomic and never lost (\<open>Admin_Guarantees\<close>); validated policies are stored, loaded and
  enforced as written (\<open>Policy_Enforcement\<close>); the front door redirects only to permitted places and
  exposes only its routes (\<open>External_Guarantees\<close>), as the environment lists them
  (\<open>Front_Configuration\<close>), and a panic truncates an answer but never strips its headers
  (\<open>External_Response\<close>); a Microsoft token is accepted only for its own
  tenant, forged ones cannot flood the key endpoint (\<open>Microsoft_Oidc\<close>), and a directory enrolls only
  its own accounts (\<open>Directory_Binding\<close>); migration is idempotent,
  conservative and leaves what the startup check demands (\<open>Schema\<close>); the planes are separated by
  address (\<open>Listeners\<close>); startup is guarded and leaks nothing (\<open>Process\<close>), nor does telemetry (\<open>Observability\<close>); the shutdown always
  completes (\<open>Lifecycle\<close>).

  \<^bold>\<open>Bounds.\<close> No definition takes fuel: the recursions are structural or have a measure (UTF-8
  decoding: the remaining length). The claims about concurrent callers of a cache need fewer than
  \<open>2 ^ 64\<close> invalidations, after which the generation counter wraps. The example library of
  \<open>Go_Values\<close> reads MessagePack to depth 20; it serves the worked examples only.

  \<^bold>\<open>Parameters.\<close> PostgreSQL's text functions and casts, \<open>net/mail\<close>, \<open>net/url\<close>, IDNA, UUID and duration
  parsing, MessagePack, JSON, SHA-256, HMAC, base64, JOSE, the standard OIDC verifier, the session
  store, the constructors of OpenTelemetry and Prometheus (each may fail), the rendered template,
  and Aether's configuration, login handlers and \<open>Run\<close>. Where a claim needs a law of one of
  them, that law is a named hypothesis, and a worked example provides a function that satisfies it.

  \<^bold>\<open>Not modelled.\<close> Logging; the HTML and icons of the sign-in page; the server timeouts;
  the five-second deadline of \<open>Resolve\<close> other than as a call that fails; \<open>internal/mtdb/msgpack\<close> and \<open>pq.go\<close>, single calls of other packages; the
  embedded dashboard, its TypeScript sources, charts, scripts and tests.
\<close>

end
